(* ===== verification/Bridge_Prelude.thy ===== *)
theory Bridge_Prelude
  imports Main "HOL-Library.Word"
begin

text \<open>
  Shared ground of the development: the fixed-width types of the C sources, the part of the C
  string library the sources use, and the generic list lemmas the component theories rely on.

  A NUL-terminated C string is a \<^typ>\<open>string\<close> without its terminator. A bounded buffer
  \<^verbatim>\<open>char buf[n]\<close> holds a string of length below \<open>n\<close>; every write into such a
  buffer is one of \<open>strlcpy\<close>, \<open>strlcat\<close> and \<open>snprintf_buf\<close> below, which truncate as the library
  functions do.
\<close>

type_synonym byte = "8 word"
type_synonym u8 = "8 word"
type_synonym u16 = "16 word"
type_synonym u32 = "32 word"
type_synonym u64 = "64 word"

named_theorems c_string "equations of the modelled C string library"
named_theorems buf_bounds "length bounds of values stored in fixed-size buffers"

section \<open>Bounded string copies\<close>

text \<open>\<^verbatim>\<open>strlcpy(dst, src, n)\<close>: the stored string. The callers always pass \<open>n > 0\<close>.\<close>

definition strlcpy :: "nat \<Rightarrow> string \<Rightarrow> string" where
  "strlcpy n src = take (n - 1) src"

text \<open>\<^verbatim>\<open>strlcat(dst, src, n)\<close>: appends what fits below \<open>n - 1\<close> characters.\<close>

definition strlcat :: "nat \<Rightarrow> string \<Rightarrow> string \<Rightarrow> string" where
  "strlcat n dst src = dst @ take (n - 1 - length dst) src"

text \<open>\<^verbatim>\<open>snprintf(buf, n, ...)\<close> of a formatted text: what ends up in \<open>buf\<close>.\<close>

definition snprintf_buf :: "nat \<Rightarrow> string \<Rightarrow> string" where
  "snprintf_buf n text = take (n - 1) text"

lemma strlcpy_fits [c_string]: "length s < n \<Longrightarrow> strlcpy n s = s"
  by (simp add: strlcpy_def)

lemma snprintf_buf_fits [c_string]: "length s < n \<Longrightarrow> snprintf_buf n s = s"
  by (simp add: snprintf_buf_def)

lemma strlcat_fits [c_string]: "length d + length s < n \<Longrightarrow> strlcat n d s = d @ s"
  by (simp add: strlcat_def)

lemma strlcpy_bound [buf_bounds]: "0 < n \<Longrightarrow> length (strlcpy n s) < n"
  by (simp add: strlcpy_def)

lemma snprintf_buf_bound [buf_bounds]: "0 < n \<Longrightarrow> length (snprintf_buf n s) < n"
  by (simp add: snprintf_buf_def)

lemma strlcat_bound [buf_bounds]: "length d < n \<Longrightarrow> length (strlcat n d s) < n"
  by (auto simp: strlcat_def min_def)

lemma strlcpy_Nil [simp]: "strlcpy n [] = []"
  by (simp add: strlcpy_def)

lemma strlcpy_idem [simp]: "strlcpy n (strlcpy n s) = strlcpy n s"
  by (simp add: strlcpy_def)

section \<open>Character classes and comparisons\<close>

abbreviation ord :: "char \<Rightarrow> nat" where
  "ord c \<equiv> of_char c"

definition is_digit :: "char \<Rightarrow> bool" where
  "is_digit c \<longleftrightarrow> 48 \<le> ord c \<and> ord c \<le> 57"

definition is_space :: "char \<Rightarrow> bool" where
  "is_space c \<longleftrightarrow> ord c = 32 \<or> (9 \<le> ord c \<and> ord c \<le> 13)"

definition tolower :: "char \<Rightarrow> char" where
  "tolower c = (if 65 \<le> ord c \<and> ord c \<le> 90 then char_of (ord c + 32) else c)"

definition toupper :: "char \<Rightarrow> char" where
  "toupper c = (if 97 \<le> ord c \<and> ord c \<le> 122 then char_of (ord c - 32) else c)"

text \<open>\<^verbatim>\<open>strcasecmp(a, b) == 0\<close>\<close>

definition strcaseeq :: "string \<Rightarrow> string \<Rightarrow> bool" where
  "strcaseeq a b \<longleftrightarrow> map tolower a = map tolower b"

text \<open>\<^verbatim>\<open>strncmp(s, p, strlen(p)) == 0\<close>: \<open>p\<close> is a prefix of \<open>s\<close>.\<close>

definition has_prefix :: "'a list \<Rightarrow> 'a list \<Rightarrow> bool" where
  "has_prefix p s \<longleftrightarrow> take (length p) s = p"

text \<open>\<^verbatim>\<open>strstr(s, p) != NULL\<close>\<close>

fun contains :: "'a list \<Rightarrow> 'a list \<Rightarrow> bool" where
  "contains p [] \<longleftrightarrow> p = []"
| "contains p (x # xs) \<longleftrightarrow> has_prefix p (x # xs) \<or> contains p xs"

lemma has_prefix_append [simp]: "has_prefix p (p @ s)"
  by (simp add: has_prefix_def)

lemma has_prefix_iff: "has_prefix p s \<longleftrightarrow> (\<exists>r. s = p @ r)"
  unfolding has_prefix_def by (metis append_eq_conv_conj append_take_drop_id)

lemma contains_iff: "contains p s \<longleftrightarrow> (\<exists>a b. s = a @ p @ b)"
proof (induction s)
  case Nil
  then show ?case by simp
next
  case (Cons x xs)
  show ?case
  proof
    assume "contains p (x # xs)"
    then consider "has_prefix p (x # xs)" | "contains p xs" by auto
    then show "\<exists>a b. x # xs = a @ p @ b"
    proof cases
      case 1
      then show ?thesis by (metis append_Nil has_prefix_iff)
    next
      case 2
      then show ?thesis using Cons.IH by (metis append_Cons)
    qed
  next
    assume "\<exists>a b. x # xs = a @ p @ b"
    then obtain a b where ab: "x # xs = a @ p @ b" by blast
    show "contains p (x # xs)"
    proof (cases a)
      case Nil
      with ab have "has_prefix p (x # xs)" by simp
      then show ?thesis by simp
    next
      case (Cons y ys)
      with ab have "xs = ys @ p @ b" by simp
      then show ?thesis using Cons.IH by auto
    qed
  qed
qed

lemma ord_less_256: "ord c < (256 :: nat)"
  using range_nat_of_char by (metis atLeastLessThan_iff rangeI)

lemma strcaseeq_refl [simp]: "strcaseeq a a"
  by (simp add: strcaseeq_def)

section \<open>Decimal output\<close>

definition digit_char :: "nat \<Rightarrow> char" where
  "digit_char d = char_of (48 + d)"

fun show_nat :: "nat \<Rightarrow> string" where
  "show_nat n = (if n < 10 then [digit_char n] else show_nat (n div 10) @ [digit_char (n mod 10)])"

declare show_nat.simps [simp del]

text \<open>\<^verbatim>\<open>%d\<close> and \<^verbatim>\<open>%ld\<close>\<close>

definition show_int :: "int \<Rightarrow> string" where
  "show_int i = (if i < 0 then CHR ''-'' # show_nat (nat (- i)) else show_nat (nat i))"

lemma of_digit_char [simp]: "d < 10 \<Longrightarrow> of_char (digit_char d) = 48 + d"
  by (simp add: digit_char_def)

lemma is_digit_digit_char [simp]: "d < 10 \<Longrightarrow> is_digit (digit_char d)"
  by (simp add: is_digit_def)

lemma show_nat_nonempty [simp]: "show_nat n \<noteq> []"
  by (subst show_nat.simps) simp

lemma show_nat_digits: "c \<in> set (show_nat n) \<Longrightarrow> is_digit c"
proof (induction n rule: show_nat.induct)
  case (1 n)
  then show ?case
    by (subst (asm) show_nat.simps) (auto split: if_splits)
qed

text \<open>\<^verbatim>\<open>%02X\<close> of a byte.\<close>

definition hex_digit :: "nat \<Rightarrow> char" where
  "hex_digit n = (if n < 10 then char_of (48 + n) else char_of (55 + n))"

definition hex2 :: "byte \<Rightarrow> string" where
  "hex2 v = [hex_digit (unat v div 16), hex_digit (unat v mod 16)]"

section \<open>Decimal input\<close>

definition digit_val :: "char \<Rightarrow> int" where
  "digit_val c = int (ord c) - 48"

text \<open>The digit run at the front of a string, accumulated on \<open>acc\<close>, and what follows it.\<close>

fun read_digits :: "int \<Rightarrow> string \<Rightarrow> int \<times> string" where
  "read_digits acc [] = (acc, [])"
| "read_digits acc (c # cs) =
     (if is_digit c then read_digits (acc * 10 + digit_val c) cs else (acc, c # cs))"

definition LONG_MAX :: int where "LONG_MAX = 2147483647"
definition LONG_MIN :: int where "LONG_MIN = - 2147483648"

text \<open>
  \<^verbatim>\<open>strtol(s, &end, 10)\<close> with the 32-bit \<^verbatim>\<open>long\<close> of the target: leading white
  space, an optional sign, digits; saturating. With no digits the value is 0 and \<open>end\<close> is the
  whole input.
\<close>

definition strtol :: "string \<Rightarrow> int \<times> string" where
  "strtol s =
     (let t = dropWhile is_space s;
          neg = (t \<noteq> [] \<and> hd t = CHR ''-'');
          u = (if t \<noteq> [] \<and> (hd t = CHR ''-'' \<or> hd t = CHR ''+'') then tl t else t)
      in if u = [] \<or> \<not> is_digit (hd u) then (0, s)
         else let (v, rest) = read_digits 0 u;
                  w = (if neg then - v else v)
              in (max LONG_MIN (min LONG_MAX w), rest))"

text \<open>\<^verbatim>\<open>atoi\<close> of the target's C library is \<^verbatim>\<open>(int)strtol(s, NULL, 10)\<close>.\<close>

definition atoi :: "string \<Rightarrow> int" where
  "atoi s = fst (strtol s)"

lemma digit_val_digit_char [simp]: "d < 10 \<Longrightarrow> digit_val (digit_char d) = int d"
  by (simp add: digit_val_def)

lemma digit_val_bounds: "is_digit c \<Longrightarrow> 0 \<le> digit_val c \<and> digit_val c \<le> 9"
  by (simp add: is_digit_def digit_val_def)

lemma digit_val_nonneg: "is_digit c \<Longrightarrow> 0 \<le> digit_val c"
  by (simp add: digit_val_bounds)

lemma read_digits_nonneg: "0 \<le> acc \<Longrightarrow> 0 \<le> fst (read_digits acc s)"
  by (induction acc s rule: read_digits.induct) (simp_all add: digit_val_nonneg)

lemma read_digits_rest_length: "length (snd (read_digits acc s)) \<le> length s"
  by (induction acc s rule: read_digits.induct) auto

lemma read_digits_stop: "s = [] \<or> \<not> is_digit (hd s) \<Longrightarrow> read_digits acc s = (acc, s)"
  by (cases s) auto

lemma read_digits_append:
  "(\<And>c. c \<in> set xs \<Longrightarrow> is_digit c) \<Longrightarrow>
   read_digits acc (xs @ ys) = read_digits (fst (read_digits acc xs)) ys"
  by (induction acc xs rule: read_digits.induct) auto

lemma read_digits_show: "fst (read_digits acc (show_nat n)) = acc * 10 ^ length (show_nat n) + int n"
proof (induction n arbitrary: acc rule: show_nat.induct)
  case (1 n)
  show ?case
  proof (cases "n < 10")
    case True
    then show ?thesis by (simp add: show_nat.simps [of n])
  next
    case False
    have "read_digits acc (show_nat n)
        = read_digits (fst (read_digits acc (show_nat (n div 10)))) [digit_char (n mod 10)]"
      using False by (simp add: show_nat.simps [of n] read_digits_append show_nat_digits del: read_digits.simps)
    then have "fst (read_digits acc (show_nat n))
        = (acc * 10 ^ length (show_nat (n div 10)) + int (n div 10)) * 10 + int (n mod 10)"
      using "1.IH" [OF False] by simp
    moreover have "int n = 10 * int (n div 10) + int (n mod 10)"
      by presburger
    ultimately show ?thesis
      using False by (simp add: show_nat.simps [of n] algebra_simps)
  qed
qed

lemma read_digits_show_stop:
  assumes "r = [] \<or> \<not> is_digit (hd r)"
  shows "read_digits 0 (show_nat n @ r) = (int n, r)"
  using read_digits_stop [OF assms, of "fst (read_digits 0 (show_nat n))"] read_digits_show [of 0 n]
  by (simp add: read_digits_append show_nat_digits)

lemma digit_not_space_sign:
  assumes "is_digit c"
  shows "\<not> is_space c" "c \<noteq> CHR ''-''" "c \<noteq> CHR ''+''"
  using assms by (auto simp: is_digit_def is_space_def)

text \<open>Reading back a printed number, up to the range of \<^verbatim>\<open>long\<close>.\<close>

lemma strtol_show_nat:
  assumes "int n \<le> LONG_MAX" "r = [] \<or> \<not> is_digit (hd r)"
  shows "strtol (show_nat n @ r) = (int n, r)"
proof -
  obtain c cs where ccs: "show_nat n = c # cs" by (cases "show_nat n") auto
  then have d: "is_digit c" using show_nat_digits [of c n] by simp
  have rd: "read_digits 0 (c # cs @ r) = (int n, r)"
    using read_digits_show_stop [OF assms(2), of n] ccs by simp
  show ?thesis
    using assms(1) d digit_not_space_sign [OF d] rd
    by (simp add: strtol_def ccs Let_def LONG_MIN_def max_def min_def del: read_digits.simps)
qed

lemma atoi_show_nat: "int n \<le> LONG_MAX \<Longrightarrow> atoi (show_nat n) = int n"
  using strtol_show_nat [of n "[]"] by (simp add: atoi_def)

section \<open>Lists\<close>

text \<open>Update of the first element that satisfies a test, the shape of every "find by id, then
  write through the pointer" of the sources.\<close>

fun update_first :: "('a \<Rightarrow> bool) \<Rightarrow> ('a \<Rightarrow> 'a) \<Rightarrow> 'a list \<Rightarrow> 'a list" where
  "update_first P f [] = []"
| "update_first P f (x # xs) = (if P x then f x # xs else x # update_first P f xs)"

lemma length_update_first [simp]: "length (update_first P f xs) = length xs"
  by (induction xs) auto

lemma find_update_first:
  assumes "\<And>x. P x \<Longrightarrow> P (f x)"
  shows "find P (update_first P f xs) = map_option f (find P xs)"
  using assms by (induction xs) auto

lemma find_update_first_other:
  assumes "\<And>x. P x \<Longrightarrow> \<not> Q x" and "\<And>x. P x \<Longrightarrow> \<not> Q (f x)"
  shows "find Q (update_first P f xs) = find Q xs"
  using assms by (induction xs) auto

lemma map_update_first:
  assumes "\<And>x. P x \<Longrightarrow> g (f x) = g x"
  shows "map g (update_first P f xs) = map g xs"
  using assms by (induction xs) auto

lemma update_first_none: "find P xs = None \<Longrightarrow> update_first P f xs = xs"
  by (induction xs) (auto split: if_splits)

lemma find_None_mem: "find P xs = None \<longleftrightarrow> (\<forall>x \<in> set xs. \<not> P x)"
  by (induction xs) auto

lemma find_Some_mem: "find P xs = Some x \<Longrightarrow> x \<in> set xs \<and> P x"
  by (induction xs) (auto split: if_splits)

lemma find_key_iff:
  "(\<exists>x. find (\<lambda>x. k x = i) xs = Some x) \<longleftrightarrow> i \<in> k ` set xs"
  by (induction xs) auto

end
