(* ===== verification/Edge_Latch.thy ===== *)
theory Edge_Latch
  imports Main
begin

text \<open>
  The contract of a fire-once latch. Several components act once per episode and then stay quiet
  until the episode is over: a Proxmox host or guest is shut down once per outage, a notification
  is raised once per edge. The provider has a step on inputs, says when a step fires, whether a
  state is latched, and which inputs release the latch; the client gets that between two releases
  there is at most one firing, whatever the inputs.
\<close>

text \<open>Runs of a step function over a list of inputs, how often a run fires, and that an event never
  happens along a run.\<close>

fun run_steps :: "('i \<Rightarrow> 's \<Rightarrow> 's) \<Rightarrow> 'i list \<Rightarrow> 's \<Rightarrow> 's" where
  "run_steps step [] s = s"
| "run_steps step (i # is) s = run_steps step is (step i s)"

fun firings :: "('i \<Rightarrow> 's \<Rightarrow> 's) \<Rightarrow> ('i \<Rightarrow> 's \<Rightarrow> bool) \<Rightarrow> 'i list \<Rightarrow> 's \<Rightarrow> nat" where
  "firings step fires [] s = 0"
| "firings step fires (i # is) s = (if fires i s then 1 else 0) + firings step fires is (step i s)"

fun never :: "('i \<Rightarrow> 's \<Rightarrow> 's) \<Rightarrow> ('i \<Rightarrow> 's \<Rightarrow> bool) \<Rightarrow> 'i list \<Rightarrow> 's \<Rightarrow> bool" where
  "never step P [] s \<longleftrightarrow> True"
| "never step P (i # is) s \<longleftrightarrow> \<not> P i s \<and> never step P is (step i s)"

lemma run_steps_append [simp]: "run_steps step (xs @ ys) s = run_steps step ys (run_steps step xs s)"
  by (induction xs arbitrary: s) auto

lemma firings_zero: "firings step fires is s = 0 \<longleftrightarrow> never step fires is s"
  by (induction "is" arbitrary: s) auto

lemma run_steps_invariant:
  "(\<And>i s. I s \<Longrightarrow> I (step i s)) \<Longrightarrow> I s \<Longrightarrow> I (run_steps step is s)"
  by (induction "is" arbitrary: s) auto

locale edge_latch =
  fixes inv :: "'s \<Rightarrow> bool"
    and step :: "'i \<Rightarrow> 's \<Rightarrow> 's"
    and fires :: "'i \<Rightarrow> 's \<Rightarrow> bool"
    and latched :: "'s \<Rightarrow> bool"
    and releases :: "'i \<Rightarrow> 's \<Rightarrow> bool"
  assumes inv_step: "inv s \<Longrightarrow> inv (step i s)"
    and fires_unlatched: "inv s \<Longrightarrow> fires i s \<Longrightarrow> \<not> latched s"
    and fires_latches: "inv s \<Longrightarrow> fires i s \<Longrightarrow> latched (step i s)"
    and latched_stays: "inv s \<Longrightarrow> latched s \<Longrightarrow> \<not> releases i s \<Longrightarrow> latched (step i s)"
begin

lemma latched_run: "inv s \<Longrightarrow> latched s \<Longrightarrow> never step releases is s \<Longrightarrow> latched (run_steps step is s) \<and> firings step fires is s = 0"
  by (induction "is" arbitrary: s) (auto simp: inv_step latched_stays dest: fires_unlatched)

lemma at_most_once: "inv s \<Longrightarrow> never step releases is s \<Longrightarrow> firings step fires is s \<le> 1"
proof (induction "is" arbitrary: s)
  case Nil
  then show ?case by simp
next
  case (Cons i js)
  note tail = Cons.IH [OF inv_step [OF Cons.prems(1)]]
  show ?case
  proof (cases "fires i s")
    case True
    then have "firings step fires js (step i s) = 0"
      using Cons.prems latched_run [OF inv_step] fires_latches by auto
    then show ?thesis using True by simp
  next
    case False
    then show ?thesis using tail Cons.prems(2) by simp
  qed
qed

end

end
