(* ===== verification/Pve_Engine.thy ===== *)
theory Pve_Engine
  imports Bridge_Prelude Edge_Latch
begin

unbundle bit_operations_syntax

text \<open>
  The decision half of the Proxmox shutdown feature, \<^verbatim>\<open>components/pve_shutdown/pve_engine.c\<close>
  with the types of \<^verbatim>\<open>pve_shutdown.h\<close>: host and guest rules, the engine state with its
  on-battery clock and fire-once latches, one evaluation per observation, and the countdowns the
  status page shows. Times are microseconds of \<^verbatim>\<open>esp_timer_get_time()\<close>, kept as
  \<^typ>\<open>int\<close> (the device would have to run for 290000 years to leave \<^verbatim>\<open>int64_t\<close>).
  Fixed arrays of \<open>PVE_MAX_HOSTS\<close> entries are lists of that length (\<open>wf_engine\<close>), and the
  allocated guest lists are lists; allocation itself is not modelled.
\<close>

section \<open>Data\<close>

abbreviation PVE_MAX_HOSTS :: nat where "PVE_MAX_HOSTS \<equiv> 4"

definition US_PER_S :: int where "US_PER_S = 1000000"
definition US_PER_MIN :: int where "US_PER_MIN = 60 * US_PER_S"

record pve_guest =
  g_id :: int
  g_on_battery_min :: u16
  g_charge_pct :: u8

record pve_host =
  h_enabled :: bool
  h_url :: string
  h_node :: string
  h_token_id :: string
  h_secret :: string
  h_guest_wait_s :: u16
  h_shutdown_node :: bool
  h_fingerprint :: string
  h_on_battery_min :: u16
  h_charge_pct :: u8

record pve_config =
  c_enabled :: bool
  c_armed :: bool
  c_mains_back_min :: u16
  c_hosts :: "pve_host list"

datatype pve_power = PVE_PWR_UNKNOWN | PVE_PWR_LINE | PVE_PWR_BATTERY

record pve_obs =
  obs_power :: pve_power
  obs_soc_pct :: int

record pve_guest_engine =
  ge_id :: int
  ge_fired :: bool
  ge_fired_now :: bool
  ge_reason :: string

record pve_engine =
  e_on_battery :: bool
  e_on_battery_since_us :: int
  e_on_mains :: bool
  e_mains_since_us :: int
  e_fired :: "bool list"
  e_reason :: "string list"
  e_guests :: "pve_guest_engine list list"

section \<open>Operations\<close>

definition pve_engine_sync_guests ::
    "pve_guest_engine list \<Rightarrow> pve_guest list \<Rightarrow> pve_guest_engine list" where
  "pve_engine_sync_guests st_guests cfg_guests =
     map (\<lambda>g. case find (\<lambda>e. ge_id e = g_id g) st_guests of
                None \<Rightarrow> \<lparr>ge_id = g_id g, ge_fired = False, ge_fired_now = False, ge_reason = []\<rparr>
              | Some e \<Rightarrow> \<lparr>ge_id = g_id g, ge_fired = ge_fired e, ge_fired_now = False,
                           ge_reason = strlcpy 96 (ge_reason e)\<rparr>)
         cfg_guests"

definition find_guest_state :: "pve_guest_engine list \<Rightarrow> int \<Rightarrow> pve_guest_engine option" where
  "find_guest_state gs i = find (\<lambda>e. ge_id e = i) gs"

text \<open>
  \<^verbatim>\<open>trigger_met\<close> returns true and fills the caller's reason buffer, or returns false and
  leaves it alone: an option of the text written.
\<close>

definition trigger_met ::
    "u16 \<Rightarrow> u8 \<Rightarrow> pve_engine \<Rightarrow> pve_obs \<Rightarrow> int \<Rightarrow> nat \<Rightarrow> string option" where
  "trigger_met on_battery_min charge_pct st obs now_us reason_sz =
     (if 0 < on_battery_min \<and> e_on_battery st \<and>
         now_us - e_on_battery_since_us st \<ge> uint on_battery_min * US_PER_MIN
      then Some (snprintf_buf reason_sz
             (''on battery for '' @ show_int (uint on_battery_min) @ '' min''))
      else if obs_power obs = PVE_PWR_BATTERY \<and> 0 < charge_pct \<and>
              0 \<le> obs_soc_pct obs \<and> obs_soc_pct obs \<le> uint charge_pct
      then Some (snprintf_buf reason_sz
             (''charge '' @ show_int (obs_soc_pct obs) @ ''% (limit '' @
              show_int (uint charge_pct) @ ''%)''))
      else None)"

text \<open>The \<^verbatim>\<open>switch (obs->power)\<close> of \<^verbatim>\<open>pve_eval\<close>.\<close>

definition observe_power :: "pve_engine \<Rightarrow> pve_obs \<Rightarrow> int \<Rightarrow> pve_engine" where
  "observe_power st obs now_us =
     (case obs_power obs of
        PVE_PWR_BATTERY \<Rightarrow>
          (if e_on_battery st then st
           else st\<lparr>e_on_battery := True, e_on_battery_since_us := now_us\<rparr>)\<lparr>e_on_mains := False\<rparr>
      | PVE_PWR_LINE \<Rightarrow>
          (let st = st\<lparr>e_on_battery := False\<rparr>
           in if e_on_mains st then st
              else st\<lparr>e_on_mains := True, e_mains_since_us := now_us\<rparr>)
      | PVE_PWR_UNKNOWN \<Rightarrow> st\<lparr>e_on_mains := False\<rparr>)"

definition mains_back :: "pve_config \<Rightarrow> pve_engine \<Rightarrow> int \<Rightarrow> bool" where
  "mains_back cfg st now_us \<longleftrightarrow>
     0 < c_mains_back_min cfg \<and> e_on_mains st \<and>
     now_us - e_mains_since_us st \<ge> uint (c_mains_back_min cfg) * US_PER_MIN"

text \<open>
  Both guest loops of \<^verbatim>\<open>pve_eval\<close> have one shape: for every configured rule, find its
  state by id, skip it when there is none or it has fired, otherwise fire it when \<open>why\<close> gives a
  reason.
\<close>

fun fire_guests ::
    "(pve_guest \<Rightarrow> string option) \<Rightarrow> pve_guest list \<Rightarrow> pve_guest_engine list \<Rightarrow> pve_guest_engine list" where
  "fire_guests why [] gst = gst"
| "fire_guests why (gg # ggs) gst =
     fire_guests why ggs
       (case find_guest_state gst (g_id gg) of
          None \<Rightarrow> gst
        | Some gs \<Rightarrow>
            if ge_fired gs then gst
            else (case why gg of
                    None \<Rightarrow> gst
                  | Some r \<Rightarrow> update_first (\<lambda>e. ge_id e = g_id gg)
                               (\<lambda>e. e\<lparr>ge_reason := r, ge_fired := True, ge_fired_now := True\<rparr>) gst))"

definition release_guest :: "pve_guest_engine \<Rightarrow> pve_guest_engine" where
  "release_guest g = (if ge_fired g then g\<lparr>ge_fired := False, ge_reason := []\<rparr> else g)"

text \<open>The body of the host loop of \<^verbatim>\<open>pve_eval\<close>, for host \<open>i\<close>.\<close>

definition pve_eval_host ::
    "pve_config \<Rightarrow> pve_guest list list \<Rightarrow> pve_obs \<Rightarrow> int \<Rightarrow> bool \<Rightarrow> nat \<Rightarrow>
     pve_engine \<times> u32 \<Rightarrow> pve_engine \<times> u32" where
  "pve_eval_host cfg guests obs now_us mback i acc =
     (let (st, out) = acc;
          h = c_hosts cfg ! i;
          gst = map (\<lambda>g. g\<lparr>ge_fired_now := False\<rparr>) (e_guests st ! i);
          gst = (if mback then map release_guest gst else gst);
          st = st\<lparr>e_guests := (e_guests st)[i := gst]\<rparr>
      in if e_fired st ! i then
           (if mback then st\<lparr>e_fired := (e_fired st)[i := False], e_reason := (e_reason st)[i := []]\<rparr>
            else st, out)
         else if \<not> h_enabled h then (st, out)
         else
           let gst = fire_guests
                 (\<lambda>gg. trigger_met (g_on_battery_min gg) (g_charge_pct gg) st obs now_us 96)
                 (guests ! i) gst;
               st = st\<lparr>e_guests := (e_guests st)[i := gst]\<rparr>
           in case trigger_met (h_on_battery_min h) (h_charge_pct h) st obs now_us 64 of
                None \<Rightarrow> (st, out)
              | Some r \<Rightarrow>
                  let st = st\<lparr>e_fired := (e_fired st)[i := True], e_reason := (e_reason st)[i := r]\<rparr>;
                      gst = fire_guests
                        (\<lambda>gg. Some (snprintf_buf 96 (''with the node ('' @ r @ '')'')))
                        (guests ! i) gst
                  in (st\<lparr>e_guests := (e_guests st)[i := gst]\<rparr>, out OR push_bit i 1))"

definition pve_eval ::
    "pve_config \<Rightarrow> pve_guest list list \<Rightarrow> pve_engine \<Rightarrow> pve_obs \<Rightarrow> int \<Rightarrow> pve_engine \<times> u32" where
  "pve_eval cfg guests st obs now_us =
     (if \<not> c_enabled cfg then (st\<lparr>e_on_battery := False, e_on_mains := False\<rparr>, 0)
      else
        let st = observe_power st obs now_us;
            mback = mains_back cfg st now_us
        in fold (pve_eval_host cfg guests obs now_us mback) [0..<PVE_MAX_HOSTS] (st, 0))"

definition pve_countdown_s :: "pve_config \<Rightarrow> pve_engine \<Rightarrow> int \<Rightarrow> int \<Rightarrow> int" where
  "pve_countdown_s cfg st i now_us =
     (if i < 0 \<or> i \<ge> int PVE_MAX_HOSTS then - 1
      else
        let h = c_hosts cfg ! nat i
        in if \<not> c_enabled cfg \<or> \<not> h_enabled h \<or> h_on_battery_min h = 0 \<or>
              \<not> e_on_battery st \<or> e_fired st ! nat i then - 1
           else let due = e_on_battery_since_us st + uint (h_on_battery_min h) * US_PER_MIN;
                    left = due - now_us
                in if left > 0 then left div US_PER_S else 0)"

definition pve_guest_countdown_s ::
    "pve_config \<Rightarrow> pve_engine \<Rightarrow> pve_guest list \<Rightarrow> int \<Rightarrow> int \<Rightarrow> int \<Rightarrow> int" where
  "pve_guest_countdown_s cfg st guests i ident now_us =
     (if i < 0 \<or> i \<ge> int PVE_MAX_HOSTS \<or> \<not> c_enabled cfg \<or> \<not> h_enabled (c_hosts cfg ! nat i) \<or>
         \<not> e_on_battery st then - 1
      else case find (\<lambda>g. g_id g = ident) guests of
             None \<Rightarrow> - 1
           | Some gg \<Rightarrow>
               if g_on_battery_min gg = 0 then - 1
               else if \<exists>e \<in> set (e_guests st ! nat i). ge_id e = ident \<and> ge_fired e then - 1
               else let due = e_on_battery_since_us st + uint (g_on_battery_min gg) * US_PER_MIN;
                        left = due - now_us
                    in if left > 0 then left div US_PER_S else 0)"

section \<open>One host's share of an evaluation\<close>

text \<open>
  The host loop touches index \<open>i\<close> only, and every trigger reads the shared clock only. \<open>slice_step\<close>
  is what one pass does to the three entries of host \<open>i\<close>; \<open>pve_eval_slice\<close> below reduces an
  evaluation to it, and the properties of the engine are then facts about \<open>slice_step\<close>.
\<close>

definition wf_engine :: "pve_engine \<Rightarrow> bool" where
  "wf_engine st \<longleftrightarrow> length (e_fired st) = PVE_MAX_HOSTS \<and> length (e_reason st) = PVE_MAX_HOSTS \<and>
     length (e_guests st) = PVE_MAX_HOSTS"

type_synonym slice = "bool \<times> string \<times> pve_guest_engine list"

definition slice_of :: "pve_engine \<Rightarrow> nat \<Rightarrow> slice" where
  "slice_of st i = (e_fired st ! i, e_reason st ! i, e_guests st ! i)"

definition same_clock :: "pve_engine \<Rightarrow> pve_engine \<Rightarrow> bool" where
  "same_clock a b \<longleftrightarrow> e_on_battery a = e_on_battery b \<and>
     e_on_battery_since_us a = e_on_battery_since_us b \<and>
     e_on_mains a = e_on_mains b \<and> e_mains_since_us a = e_mains_since_us b"

definition slice_step ::
    "pve_host \<Rightarrow> pve_guest list \<Rightarrow> pve_engine \<Rightarrow> pve_obs \<Rightarrow> int \<Rightarrow> bool \<Rightarrow> slice \<Rightarrow> slice \<times> bool" where
  "slice_step h ggs clk obs now_us mback sl =
     (case sl of (f, r, gst0) \<Rightarrow>
        let gst1 = map (\<lambda>g. g\<lparr>ge_fired_now := False\<rparr>) gst0;
            gst2 = (if mback then map release_guest gst1 else gst1)
        in if f then ((\<not> mback, if mback then [] else r, gst2), False)
           else if \<not> h_enabled h then ((False, r, gst2), False)
           else let gst3 = fire_guests
                       (\<lambda>gg. trigger_met (g_on_battery_min gg) (g_charge_pct gg) clk obs now_us 96) ggs gst2
                in case trigger_met (h_on_battery_min h) (h_charge_pct h) clk obs now_us 64 of
                     None \<Rightarrow> ((False, r, gst3), False)
                   | Some r' \<Rightarrow>
                       ((True, r', fire_guests
                          (\<lambda>gg. Some (snprintf_buf 96 (''with the node ('' @ r' @ '')''))) ggs gst3), True))"

lemma same_clock_refl [simp]: "same_clock a a"
  by (simp add: same_clock_def)

lemma same_clock_trans: "same_clock a b \<Longrightarrow> same_clock b c \<Longrightarrow> same_clock a c"
  by (simp add: same_clock_def)

lemma trigger_met_clock: "same_clock a b \<Longrightarrow> trigger_met m p a obs now n = trigger_met m p b obs now n"
  by (simp add: same_clock_def trigger_met_def)

lemma trigger_met_upd [simp]:
  "trigger_met m p (st\<lparr>e_guests := g\<rparr>) obs now n = trigger_met m p st obs now n"
  by (rule trigger_met_clock) (simp add: same_clock_def)

lemma pve_eval_host_self:
  assumes "wf_engine st" and "i < PVE_MAX_HOSTS"
  shows "slice_of (fst (pve_eval_host cfg guests obs now mb i (st, m))) i
       = fst (slice_step (c_hosts cfg ! i) (guests ! i) st obs now mb (slice_of st i))"
    and "snd (pve_eval_host cfg guests obs now mb i (st, m))
       = (if snd (slice_step (c_hosts cfg ! i) (guests ! i) st obs now mb (slice_of st i))
          then m OR push_bit i 1 else m)"
  using assms
  by (simp_all add: pve_eval_host_def slice_step_def slice_of_def wf_engine_def Let_def
      split: option.splits)

lemma pve_eval_host_frame:
  assumes "wf_engine st"
  shows "wf_engine (fst (pve_eval_host cfg guests obs now mb i (st, m)))"
    and "same_clock (fst (pve_eval_host cfg guests obs now mb i (st, m))) st"
    and "j \<noteq> i \<Longrightarrow> slice_of (fst (pve_eval_host cfg guests obs now mb i (st, m))) j = slice_of st j"
  using assms
  by (simp_all add: pve_eval_host_def slice_of_def wf_engine_def same_clock_def Let_def
      split: option.splits)

lemma slice_step_clock:
  assumes "same_clock a b"
  shows "slice_step h ggs a obs now mb sl = slice_step h ggs b obs now mb sl"
  unfolding slice_step_def trigger_met_clock [OF assms] by (rule refl)

lemma fold_eval_hosts:
  fixes m :: u32
  assumes "wf_engine st" and "distinct is" and "set is \<subseteq> {..<PVE_MAX_HOSTS}"
  shows "let res = fold (pve_eval_host cfg guests obs now mb) is (st, m) in
    wf_engine (fst res) \<and> same_clock (fst res) st \<and>
    (\<forall>j < PVE_MAX_HOSTS.
       slice_of (fst res) j =
         (if j \<in> set is then fst (slice_step (c_hosts cfg ! j) (guests ! j) st obs now mb (slice_of st j))
          else slice_of st j) \<and>
       (bit (snd res) j \<longleftrightarrow> bit m j \<or>
          j \<in> set is \<and> snd (slice_step (c_hosts cfg ! j) (guests ! j) st obs now mb (slice_of st j))))"
  using assms unfolding Let_def
proof (induction "is" arbitrary: st m)
  case Nil
  then show ?case by simp
next
  case (Cons i js)
  define st1 where "st1 = fst (pve_eval_host cfg guests obs now mb i (st, m))"
  define m1 where "m1 = snd (pve_eval_host cfg guests obs now mb i (st, m))"
  have i: "i < PVE_MAX_HOSTS" "i \<notin> set js" and js: "distinct js" "set js \<subseteq> {..<PVE_MAX_HOSTS}"
    using Cons.prems by auto
  have wf1: "wf_engine st1" and clk: "same_clock st1 st"
    unfolding st1_def using pve_eval_host_frame [OF Cons.prems(1)] by blast+
  have sl1: "slice_of st1 j = (if j = i
      then fst (slice_step (c_hosts cfg ! i) (guests ! i) st obs now mb (slice_of st i)) else slice_of st j)" for j
    unfolding st1_def using pve_eval_host_frame(3) [OF Cons.prems(1)] pve_eval_host_self(1) [OF Cons.prems(1) i(1)]
    by simp
  have m1: "bit m1 j \<longleftrightarrow> bit m j \<or>
      j = i \<and> snd (slice_step (c_hosts cfg ! i) (guests ! i) st obs now mb (slice_of st i))" if "j < PVE_MAX_HOSTS" for j
    unfolding m1_def using that by (auto simp: pve_eval_host_self(2) [OF Cons.prems(1) i(1)] bit_or_iff bit_exp_iff)
  have stp: "slice_step h g st1 obs now mb s = slice_step h g st obs now mb s" for h g s
    by (rule slice_step_clock [OF clk])
  have fold1: "fold (pve_eval_host cfg guests obs now mb) (i # js) (st, m)
      = fold (pve_eval_host cfg guests obs now mb) js (st1, m1)"
    by (simp add: st1_def m1_def)
  show ?case
    unfolding fold1 using Cons.IH [OF wf1 js, of m1] i sl1 m1 stp same_clock_trans [OF _ clk]
    by auto
qed

lemma observe_power_wf [simp]: "wf_engine (observe_power st obs now) = wf_engine st"
  by (simp add: observe_power_def wf_engine_def Let_def split: pve_power.splits)

lemma observe_power_slice [simp]: "slice_of (observe_power st obs now) i = slice_of st i"
  by (simp add: observe_power_def slice_of_def Let_def split: pve_power.splits)

lemma pve_eval_slice:
  fixes obs now
  assumes "wf_engine st" and "c_enabled cfg" and "i < PVE_MAX_HOSTS"
  defines "clk \<equiv> observe_power st obs now"
  shows "slice_of (fst (pve_eval cfg guests st obs now)) i
       = fst (slice_step (c_hosts cfg ! i) (guests ! i) clk obs now (mains_back cfg clk now) (slice_of st i))"
    and "bit (snd (pve_eval cfg guests st obs now)) i
       \<longleftrightarrow> snd (slice_step (c_hosts cfg ! i) (guests ! i) clk obs now (mains_back cfg clk now) (slice_of st i))"
    and "wf_engine (fst (pve_eval cfg guests st obs now))"
    and "same_clock (fst (pve_eval cfg guests st obs now)) clk"
proof -
  have wf: "wf_engine clk" by (simp add: clk_def assms(1))
  have dist: "distinct [0..<PVE_MAX_HOSTS]" and sub: "set [0..<PVE_MAX_HOSTS] \<subseteq> {..<PVE_MAX_HOSTS}" by auto
  note F = fold_eval_hosts [OF wf dist sub, of cfg guests obs now "mains_back cfg clk now" 0]
  show "slice_of (fst (pve_eval cfg guests st obs now)) i
       = fst (slice_step (c_hosts cfg ! i) (guests ! i) clk obs now (mains_back cfg clk now) (slice_of st i))"
    and "bit (snd (pve_eval cfg guests st obs now)) i
       \<longleftrightarrow> snd (slice_step (c_hosts cfg ! i) (guests ! i) clk obs now (mains_back cfg clk now) (slice_of st i))"
    and "wf_engine (fst (pve_eval cfg guests st obs now))"
    and "same_clock (fst (pve_eval cfg guests st obs now)) clk"
    using F assms(2,3) by (simp_all add: pve_eval_def Let_def clk_def [symmetric] del: upt_conv_Cons)
      (simp_all add: clk_def)
qed

section \<open>When a host fires\<close>

lemma slice_step_fires:
  "snd (slice_step h ggs clk obs now mb (f, r, gst)) \<longleftrightarrow>
     \<not> f \<and> h_enabled h \<and> trigger_met (h_on_battery_min h) (h_charge_pct h) clk obs now 64 \<noteq> None"
  by (simp add: slice_step_def Let_def split: option.splits)

lemma slice_step_latch:
  "fst (fst (slice_step h ggs clk obs now mb (f, r, gst))) \<longleftrightarrow>
     (if f then \<not> mb else snd (slice_step h ggs clk obs now mb (f, r, gst)))"
  by (simp add: slice_step_def Let_def split: option.splits)

text \<open>The two triggers without the text they leave behind.\<close>

definition timer_due :: "u16 \<Rightarrow> pve_engine \<Rightarrow> int \<Rightarrow> bool" where
  "timer_due m st now \<longleftrightarrow> 0 < m \<and> e_on_battery st \<and>
     now - e_on_battery_since_us st \<ge> uint m * US_PER_MIN"

definition charge_low :: "u8 \<Rightarrow> pve_obs \<Rightarrow> bool" where
  "charge_low p obs \<longleftrightarrow> obs_power obs = PVE_PWR_BATTERY \<and> 0 < p \<and>
     0 \<le> obs_soc_pct obs \<and> obs_soc_pct obs \<le> uint p"

lemma trigger_met_iff: "trigger_met m p st obs now n \<noteq> None \<longleftrightarrow> timer_due m st now \<or> charge_low p obs"
  by (auto simp: trigger_met_def timer_due_def charge_low_def)

lemma timer_due_clock: "same_clock a b \<Longrightarrow> timer_due m a now = timer_due m b now"
  by (simp add: same_clock_def timer_due_def)

lemma pve_eval_fires:
  assumes "wf_engine st" and "c_enabled cfg" and "i < PVE_MAX_HOSTS"
  shows "bit (snd (pve_eval cfg guests st obs now)) i \<longleftrightarrow>
     \<not> e_fired st ! i \<and> h_enabled (c_hosts cfg ! i) \<and>
     (timer_due (h_on_battery_min (c_hosts cfg ! i)) (observe_power st obs now) now \<or>
      charge_low (h_charge_pct (c_hosts cfg ! i)) obs)"
  unfolding pve_eval_slice(2) [OF assms] slice_of_def slice_step_fires trigger_met_iff by (rule refl)

lemma pve_eval_fired:
  assumes "wf_engine st" and "c_enabled cfg" and "i < PVE_MAX_HOSTS"
  shows "e_fired (fst (pve_eval cfg guests st obs now)) ! i \<longleftrightarrow>
     (if e_fired st ! i then \<not> mains_back cfg (observe_power st obs now) now
      else bit (snd (pve_eval cfg guests st obs now)) i)"
proof -
  have sel: "e_fired s ! i = fst (slice_of s i)" for s by (simp add: slice_of_def)
  show ?thesis
    unfolding sel pve_eval_slice(1,2) [OF assms] unfolding slice_of_def [of st i] slice_step_latch
    by simp
qed

lemma pve_eval_disabled:
  "\<not> c_enabled cfg \<Longrightarrow> pve_eval cfg guests st obs now = (st\<lparr>e_on_battery := False, e_on_mains := False\<rparr>, 0)"
  by (simp add: pve_eval_def)

lemma pve_eval_wf: "wf_engine st \<Longrightarrow> wf_engine (fst (pve_eval cfg guests st obs now))"
  using pve_eval_slice(3) [of st cfg 0]
  by (cases "c_enabled cfg") (auto simp: pve_eval_disabled wf_engine_def)

lemma pve_eval_clock:
  assumes "wf_engine st" and "c_enabled cfg"
  shows "same_clock (fst (pve_eval cfg guests st obs now)) (observe_power st obs now)"
  using pve_eval_slice(4) [OF assms, of 0] by simp

text \<open>A latch is released only while the engine sees mains, so nothing fires in the same pass.\<close>

lemma mains_back_no_trigger:
  assumes "mains_back cfg (observe_power st obs now) now"
  shows "trigger_met m p (observe_power st obs now) obs now n = None"
proof (cases "obs_power obs")
  case PVE_PWR_LINE
  then show ?thesis by (simp add: observe_power_def trigger_met_def Let_def)
qed (use assms in \<open>simp_all add: mains_back_def observe_power_def\<close>)

section \<open>Guest rules\<close>

lemma fire_guests_ids [simp]: "map ge_id (fire_guests why ggs gst) = map ge_id gst"
  by (induction why ggs gst rule: fire_guests.induct)
    (simp add: map_update_first split: option.splits; simp)+

lemma length_fire_guests [simp]: "length (fire_guests why ggs gst) = length gst"
  by (metis fire_guests_ids length_map)

text \<open>What the two guest loops do to the entry found for an id: a fired entry stays as it is, and
  an unfired one is fired by the first rule of that id that has a reason.\<close>

lemma find_fire_update:
  "find_guest_state (update_first (\<lambda>e. ge_id e = k)
      (\<lambda>e. e\<lparr>ge_reason := r, ge_fired := True, ge_fired_now := True\<rparr>) gst) j
   = (if j = k then map_option (\<lambda>e. e\<lparr>ge_reason := r, ge_fired := True, ge_fired_now := True\<rparr>)
        (find_guest_state gst j) else find_guest_state gst j)"
  unfolding find_guest_state_def by (induction gst) auto

lemma fire_guests_fired:
  "find_guest_state gst j = Some e \<Longrightarrow> ge_fired e \<Longrightarrow> find_guest_state (fire_guests why ggs gst) j = Some e"
proof (induction ggs arbitrary: gst)
  case (Cons gg ggs)
  then show ?case
    by (cases "j = g_id gg") (auto simp: find_fire_update split: option.splits)
qed simp

lemma fire_guests_find:
  assumes "find_guest_state gst j = Some e" and "\<not> ge_fired e"
  shows "find_guest_state (fire_guests why ggs gst) j =
    Some (case find (\<lambda>gg. g_id gg = j \<and> why gg \<noteq> None) ggs of
            None \<Rightarrow> e
          | Some gg \<Rightarrow> e\<lparr>ge_reason := the (why gg), ge_fired := True, ge_fired_now := True\<rparr>)"
  using assms(1)
proof (induction ggs arbitrary: gst)
  case Nil
  then show ?case by simp
next
  case (Cons gg ggs)
  show ?case
  proof (cases "g_id gg = j \<and> why gg \<noteq> None")
    case True
    then obtain r where r: "why gg = Some r" by auto
    have "find_guest_state (update_first (\<lambda>e. ge_id e = j)
        (\<lambda>e. e\<lparr>ge_reason := r, ge_fired := True, ge_fired_now := True\<rparr>) gst) j
      = Some (e\<lparr>ge_reason := r, ge_fired := True, ge_fired_now := True\<rparr>)"
      using Cons.prems by (simp add: find_fire_update)
    from fire_guests_fired [OF this] show ?thesis
      using True r Cons.prems assms(2) by simp
  next
    case False
    then show ?thesis
      using Cons.prems assms(2) by (auto simp: Cons.IH find_fire_update split: option.splits)
  qed
qed

lemma fire_guests_absent:
  "find_guest_state gst j = None \<Longrightarrow> find_guest_state (fire_guests why ggs gst) j = None"
proof (induction ggs arbitrary: gst)
  case (Cons gg ggs)
  then show ?case
    by (cases "j = g_id gg") (auto simp: find_fire_update split: option.splits)
qed simp

lemma find_guest_state_map:
  "(\<And>e. ge_id (f e) = ge_id e) \<Longrightarrow> find_guest_state (map f gst) j = map_option f (find_guest_state gst j)"
  unfolding find_guest_state_def by (induction gst) auto

lemma release_guest_id [simp]: "ge_id (release_guest e) = ge_id e"
  by (simp add: release_guest_def)

lemma release_guest_unfired [simp]: "\<not> ge_fired (release_guest e)"
  by (simp add: release_guest_def)

lemma release_guest_now [simp]: "ge_fired_now (release_guest e) = ge_fired_now e"
  by (simp add: release_guest_def)

text \<open>One rule's guest loop, and then the sweep, over the entry of one id.\<close>

definition guest_fires :: "(pve_guest \<Rightarrow> bool) \<Rightarrow> pve_guest list \<Rightarrow> int \<Rightarrow> bool" where
  "guest_fires due ggs j \<longleftrightarrow> (\<exists>gg \<in> set ggs. g_id gg = j \<and> due gg)"

lemma find_guest_fires:
  "(\<exists>gg. find (\<lambda>gg. g_id gg = j \<and> why gg \<noteq> None) ggs = Some gg) \<longleftrightarrow> guest_fires (\<lambda>gg. why gg \<noteq> None) ggs j"
  unfolding guest_fires_def by (induction ggs) auto

lemma fire_guests_entry:
  assumes "find_guest_state gst j = Some e"
  obtains e' where "find_guest_state (fire_guests why ggs gst) j = Some e'"
    and "ge_fired e' \<longleftrightarrow> ge_fired e \<or> guest_fires (\<lambda>gg. why gg \<noteq> None) ggs j"
    and "ge_fired_now e' \<longleftrightarrow> ge_fired_now e \<or> \<not> ge_fired e \<and> guest_fires (\<lambda>gg. why gg \<noteq> None) ggs j"
proof (cases "ge_fired e")
  case True
  then show ?thesis using that [of e] fire_guests_fired [OF assms] by simp
next
  case False
  show ?thesis
    using that [OF fire_guests_find [OF assms False]] False find_guest_fires [of j why ggs, symmetric]
    by (auto split: option.splits)
qed

definition fresh_guests :: "bool \<Rightarrow> pve_guest_engine list \<Rightarrow> pve_guest_engine list" where
  "fresh_guests mb gst = (if mb then map release_guest (map (\<lambda>g. g\<lparr>ge_fired_now := False\<rparr>) gst)
     else map (\<lambda>g. g\<lparr>ge_fired_now := False\<rparr>) gst)"

lemma slice_step_guests:
  "f \<or> \<not> h_enabled h \<Longrightarrow>
     snd (snd (fst (slice_step h ggs clk obs now mb (f, r, gst)))) = fresh_guests mb gst"
  "\<not> f \<Longrightarrow> h_enabled h \<Longrightarrow> trigger_met (h_on_battery_min h) (h_charge_pct h) clk obs now 64 = None \<Longrightarrow>
     snd (snd (fst (slice_step h ggs clk obs now mb (f, r, gst)))) =
       fire_guests (\<lambda>gg. trigger_met (g_on_battery_min gg) (g_charge_pct gg) clk obs now 96) ggs (fresh_guests mb gst)"
  "\<not> f \<Longrightarrow> h_enabled h \<Longrightarrow> trigger_met (h_on_battery_min h) (h_charge_pct h) clk obs now 64 = Some r' \<Longrightarrow>
     snd (snd (fst (slice_step h ggs clk obs now mb (f, r, gst)))) =
       fire_guests (\<lambda>gg. Some (snprintf_buf 96 (''with the node ('' @ r' @ '')''))) ggs
        (fire_guests (\<lambda>gg. trigger_met (g_on_battery_min gg) (g_charge_pct gg) clk obs now 96) ggs (fresh_guests mb gst))"
  by (auto simp: slice_step_def fresh_guests_def Let_def)

lemma slice_step_guest:
  assumes "find_guest_state gst j = Some e"
    and rel: "mb \<Longrightarrow> (\<And>m p n. trigger_met m p clk obs now n = None)"
  obtains e' where
    "find_guest_state (snd (snd (fst (slice_step h ggs clk obs now mb (f, r, gst))))) j = Some e'"
    and "ge_fired_now e' \<longleftrightarrow> \<not> ge_fired e \<and> \<not> f \<and> h_enabled h \<and>
      (guest_fires (\<lambda>gg. trigger_met (g_on_battery_min gg) (g_charge_pct gg) clk obs now 96 \<noteq> None) ggs j \<or>
       guest_fires (\<lambda>_. True) ggs j \<and> trigger_met (h_on_battery_min h) (h_charge_pct h) clk obs now 64 \<noteq> None)"
    and "ge_fired e' \<longleftrightarrow> ge_fired e \<and> \<not> mb \<or> ge_fired_now e'"
proof -
  define e0 where "e0 = (if mb then release_guest (e\<lparr>ge_fired_now := False\<rparr>) else e\<lparr>ge_fired_now := False\<rparr>)"
  define gst0 where "gst0 = fresh_guests mb gst"
  have e0: "find_guest_state gst0 j = Some e0" "\<not> ge_fired_now e0" "ge_fired e0 \<longleftrightarrow> ge_fired e \<and> \<not> mb"
    using assms(1) by (simp_all add: e0_def gst0_def fresh_guests_def find_guest_state_map)
  let ?own = "\<lambda>gg. trigger_met (g_on_battery_min gg) (g_charge_pct gg) clk obs now 96"
  obtain e1 where e1: "find_guest_state (fire_guests ?own ggs gst0) j = Some e1"
    "ge_fired e1 \<longleftrightarrow> ge_fired e0 \<or> guest_fires (\<lambda>gg. ?own gg \<noteq> None) ggs j"
    "ge_fired_now e1 \<longleftrightarrow> ge_fired_now e0 \<or> \<not> ge_fired e0 \<and> guest_fires (\<lambda>gg. ?own gg \<noteq> None) ggs j"
    by (rule fire_guests_entry [OF e0(1)])
  have quiet: "mb \<Longrightarrow> \<not> guest_fires (\<lambda>gg. ?own gg \<noteq> None) ggs j"
    using rel by (simp add: guest_fires_def)
  consider "f \<or> \<not> h_enabled h"
    | (own) "\<not> f" "h_enabled h" "trigger_met (h_on_battery_min h) (h_charge_pct h) clk obs now 64 = None"
    | (node) r' where "\<not> f" "h_enabled h" "trigger_met (h_on_battery_min h) (h_charge_pct h) clk obs now 64 = Some r'"
    by (cases "trigger_met (h_on_battery_min h) (h_charge_pct h) clk obs now 64") auto
  then show ?thesis
  proof cases
    case 1
    show ?thesis
      by (rule that [of e0], unfold slice_step_guests(1) [OF 1], fold gst0_def) (use 1 e0 in auto)
  next
    case own
    show ?thesis
      by (rule that [of e1], unfold slice_step_guests(2) [OF own], fold gst0_def) (use own e0 e1 quiet in auto)
  next
    case (node r')
    obtain e2 where e2: "find_guest_state (fire_guests (\<lambda>gg. Some (snprintf_buf 96 (''with the node ('' @ r' @ '')''))) ggs
        (fire_guests ?own ggs gst0)) j = Some e2"
      "ge_fired e2 \<longleftrightarrow> ge_fired e1 \<or> guest_fires (\<lambda>_. True) ggs j"
      "ge_fired_now e2 \<longleftrightarrow> ge_fired_now e1 \<or> \<not> ge_fired e1 \<and> guest_fires (\<lambda>_. True) ggs j"
      by (rule fire_guests_entry [OF e1(1), of "\<lambda>gg. Some (snprintf_buf 96 (''with the node ('' @ r' @ '')''))" ggs]) simp
    have "\<not> mb" using node(3) rel by fastforce
    show ?thesis
      by (rule that [of e2], unfold slice_step_guests(3) [OF node], fold gst0_def)
        (use \<open>\<not> mb\<close> node e0 e1 e2 in auto)
  qed
qed

section \<open>Runs of the engine\<close>

text \<open>
  What happens to an engine over time: an evaluation per poll, with whatever configuration is in
  force then, and a re-synchronisation of one host's guest list after an edit.
\<close>

datatype engine_event =
    Eval pve_config "pve_guest list list" pve_obs int
  | Sync nat "pve_guest list"

fun engine_step :: "engine_event \<Rightarrow> pve_engine \<Rightarrow> pve_engine" where
  "engine_step (Eval cfg guests obs now) st = fst (pve_eval cfg guests st obs now)"
| "engine_step (Sync i ggs) st =
     st\<lparr>e_guests := (e_guests st)[i := pve_engine_sync_guests (e_guests st ! i) ggs]\<rparr>"

fun host_fires :: "nat \<Rightarrow> engine_event \<Rightarrow> pve_engine \<Rightarrow> bool" where
  "host_fires i (Eval cfg guests obs now) st \<longleftrightarrow>
     i < PVE_MAX_HOSTS \<and> bit (snd (pve_eval cfg guests st obs now)) i"
| "host_fires i (Sync j ggs) st \<longleftrightarrow> False"

text \<open>An enabled evaluation that finds mains back for the configured time releases every latch.\<close>

fun releases :: "engine_event \<Rightarrow> pve_engine \<Rightarrow> bool" where
  "releases (Eval cfg guests obs now) st \<longleftrightarrow> c_enabled cfg \<and> mains_back cfg (observe_power st obs now) now"
| "releases (Sync j ggs) st \<longleftrightarrow> False"

definition guest_latched :: "nat \<Rightarrow> int \<Rightarrow> pve_engine \<Rightarrow> bool" where
  "guest_latched i k st \<longleftrightarrow> i < PVE_MAX_HOSTS \<and>
     (case find_guest_state (e_guests st ! i) k of None \<Rightarrow> False | Some e \<Rightarrow> ge_fired e)"

definition guest_fired_now :: "nat \<Rightarrow> int \<Rightarrow> pve_engine \<Rightarrow> bool" where
  "guest_fired_now i k st \<longleftrightarrow> i < PVE_MAX_HOSTS \<and>
     (case find_guest_state (e_guests st ! i) k of None \<Rightarrow> False | Some e \<Rightarrow> ge_fired_now e)"

fun guest_fires_on :: "nat \<Rightarrow> int \<Rightarrow> engine_event \<Rightarrow> pve_engine \<Rightarrow> bool" where
  "guest_fires_on i k (Eval cfg guests obs now) st \<longleftrightarrow>
     c_enabled cfg \<and> guest_fired_now i k (fst (pve_eval cfg guests st obs now))"
| "guest_fires_on i k (Sync j ggs) st \<longleftrightarrow> False"

text \<open>A guest's latch also goes when an edit drops the guest from its host's list.\<close>

fun guest_released :: "nat \<Rightarrow> int \<Rightarrow> engine_event \<Rightarrow> pve_engine \<Rightarrow> bool" where
  "guest_released i k (Sync j ggs) st \<longleftrightarrow> i = j \<and> k \<notin> g_id ` set ggs"
| "guest_released i k ev st \<longleftrightarrow> releases ev st"

lemma engine_step_wf: "wf_engine st \<Longrightarrow> wf_engine (engine_step ev st)"
  by (cases ev) (simp_all add: pve_eval_wf, simp add: wf_engine_def)

lemma find_sync:
  "find_guest_state (pve_engine_sync_guests st_guests ggs) k =
     (if k \<in> g_id ` set ggs
      then Some (case find_guest_state st_guests k of
                   None \<Rightarrow> \<lparr>ge_id = k, ge_fired = False, ge_fired_now = False, ge_reason = []\<rparr>
                 | Some e \<Rightarrow> \<lparr>ge_id = k, ge_fired = ge_fired e, ge_fired_now = False,
                              ge_reason = strlcpy 96 (ge_reason e)\<rparr>)
      else None)"
  unfolding find_guest_state_def pve_engine_sync_guests_def
  by (induction ggs) (auto split: option.splits)

lemma pve_eval_guest_entry:
  assumes "wf_engine st" and "c_enabled cfg" and "i < PVE_MAX_HOSTS"
    and "find_guest_state (e_guests st ! i) k = Some e"
  obtains e' where "find_guest_state (e_guests (fst (pve_eval cfg guests st obs now)) ! i) k = Some e'"
    and "ge_fired_now e' \<longleftrightarrow> \<not> ge_fired e \<and> \<not> e_fired st ! i \<and> h_enabled (c_hosts cfg ! i) \<and>
      (guest_fires (\<lambda>gg. timer_due (g_on_battery_min gg) (observe_power st obs now) now \<or>
                         charge_low (g_charge_pct gg) obs) (guests ! i) k \<or>
       guest_fires (\<lambda>_. True) (guests ! i) k \<and> bit (snd (pve_eval cfg guests st obs now)) i)"
    and "ge_fired e' \<longleftrightarrow> ge_fired e \<and> \<not> mains_back cfg (observe_power st obs now) now \<or> ge_fired_now e'"
proof -
  have sel: "e_guests s ! i = snd (snd (slice_of s i))" for s by (simp add: slice_of_def)
  obtain e' where e': "find_guest_state (e_guests (fst (pve_eval cfg guests st obs now)) ! i) k = Some e'"
    "ge_fired_now e' \<longleftrightarrow> \<not> ge_fired e \<and> \<not> e_fired st ! i \<and> h_enabled (c_hosts cfg ! i) \<and>
      (guest_fires (\<lambda>gg. timer_due (g_on_battery_min gg) (observe_power st obs now) now \<or>
                         charge_low (g_charge_pct gg) obs) (guests ! i) k \<or>
       guest_fires (\<lambda>_. True) (guests ! i) k \<and>
         (timer_due (h_on_battery_min (c_hosts cfg ! i)) (observe_power st obs now) now \<or>
          charge_low (h_charge_pct (c_hosts cfg ! i)) obs))"
    "ge_fired e' \<longleftrightarrow> ge_fired e \<and> \<not> mains_back cfg (observe_power st obs now) now \<or> ge_fired_now e'"
    unfolding sel [of "fst _"] pve_eval_slice(1) [OF assms(1-3)] unfolding slice_of_def [of st i]
    by (rule slice_step_guest [OF assms(4) mains_back_no_trigger, unfolded trigger_met_iff])
  then show ?thesis
    using that [of e'] pve_eval_fires [OF assms(1-3), of guests obs now] by blast
qed

lemma pve_eval_guest_absent:
  assumes "wf_engine st" and "c_enabled cfg" and "i < PVE_MAX_HOSTS"
    and "find_guest_state (e_guests st ! i) k = None"
  shows "find_guest_state (e_guests (fst (pve_eval cfg guests st obs now)) ! i) k = None"
proof -
  have sel: "e_guests s ! i = snd (snd (slice_of s i))" for s by (simp add: slice_of_def)
  show ?thesis
    unfolding sel [of "fst _"] pve_eval_slice(1) [OF assms(1-3)] unfolding slice_of_def [of st i]
    using assms(4)
    by (auto simp: slice_step_def Let_def find_guest_state_map intro!: fire_guests_absent split: option.splits)
qed

lemma host_fires_wf_step:
  assumes "wf_engine st"
  shows "host_fires i ev st \<Longrightarrow> \<not> e_fired st ! i"
    and "host_fires i ev st \<Longrightarrow> e_fired (engine_step ev st) ! i"
    and "e_fired st ! i \<Longrightarrow> i < PVE_MAX_HOSTS \<Longrightarrow> \<not> releases ev st \<Longrightarrow> e_fired (engine_step ev st) ! i"
proof -
  show "\<not> e_fired st ! i" and "e_fired (engine_step ev st) ! i" if fire: "host_fires i ev st"
  proof -
    obtain cfg guests obs now where ev: "ev = Eval cfg guests obs now" "i < PVE_MAX_HOSTS"
      "bit (snd (pve_eval cfg guests st obs now)) i"
      using fire by (cases ev) auto
    have en: "c_enabled cfg" using ev(3) by (rule contrapos_pp) (simp add: pve_eval_disabled)
    show "\<not> e_fired st ! i" using pve_eval_fires [OF assms en ev(2)] ev(3) by blast
    then show "e_fired (engine_step ev st) ! i"
      using pve_eval_fired [OF assms en ev(2)] ev by simp
  qed
next
  assume "e_fired st ! i" "i < PVE_MAX_HOSTS" "\<not> releases ev st"
  then show "e_fired (engine_step ev st) ! i"
  proof (cases ev)
    case (Eval cfg guests obs now)
    with \<open>e_fired st ! i\<close> \<open>i < PVE_MAX_HOSTS\<close> \<open>\<not> releases ev st\<close> show ?thesis
      by (cases "c_enabled cfg") (simp_all add: pve_eval_fired [OF assms] pve_eval_disabled)
  qed simp
qed

interpretation host_latch: edge_latch wf_engine engine_step "host_fires i"
    "\<lambda>st. i < PVE_MAX_HOSTS \<and> e_fired st ! i" releases for i
proof
  show "\<And>s ev. wf_engine s \<Longrightarrow> host_fires i ev s \<Longrightarrow> i < PVE_MAX_HOSTS \<and> e_fired (engine_step ev s) ! i"
    using host_fires_wf_step(2) by (metis engine_event.exhaust host_fires.simps)
qed (use engine_step_wf host_fires_wf_step in blast)+

lemma guest_fires_wf_step:
  assumes "wf_engine st"
  shows "guest_fires_on i k ev st \<Longrightarrow> \<not> guest_latched i k st \<and> guest_latched i k (engine_step ev st)"
    and "guest_latched i k st \<Longrightarrow> \<not> guest_released i k ev st \<Longrightarrow> guest_latched i k (engine_step ev st)"
proof -
  assume "guest_fires_on i k ev st"
  then obtain cfg guests obs now where ev: "ev = Eval cfg guests obs now" "c_enabled cfg" "i < PVE_MAX_HOSTS"
    and now: "guest_fired_now i k (fst (pve_eval cfg guests st obs now))"
    by (cases ev) (auto simp: guest_fired_now_def)
  then obtain e where e: "find_guest_state (e_guests st ! i) k = Some e"
    using pve_eval_guest_absent [OF assms ev(2,3)] by (fastforce simp: guest_fired_now_def split: option.splits)
  show "\<not> guest_latched i k st \<and> guest_latched i k (engine_step ev st)"
    by (rule pve_eval_guest_entry [OF assms ev(2,3) e, of guests obs now])
      (use now ev e in \<open>auto simp: guest_fired_now_def guest_latched_def\<close>)
next
  assume l: "guest_latched i k st" and r: "\<not> guest_released i k ev st"
  then obtain e where i: "i < PVE_MAX_HOSTS" and e: "find_guest_state (e_guests st ! i) k = Some e" "ge_fired e"
    by (auto simp: guest_latched_def split: option.splits)
  show "guest_latched i k (engine_step ev st)"
  proof (cases ev)
    case (Eval cfg guests obs now)
    show ?thesis
    proof (cases "c_enabled cfg")
      case True
      then show ?thesis
        by (rule pve_eval_guest_entry [OF assms _ i e(1), of cfg guests obs now])
          (use Eval r e i True in \<open>auto simp: guest_latched_def\<close>)
    next
      case False
      then show ?thesis using l Eval by (simp add: pve_eval_disabled guest_latched_def)
    qed
  next
    case (Sync j ggs)
    then show ?thesis
      using l r assms e by (cases "j = i") (auto simp: guest_latched_def find_sync wf_engine_def)
  qed
qed

interpretation guest_latch: edge_latch wf_engine engine_step "guest_fires_on i k" "guest_latched i k"
    "guest_released i k" for i k
  by unfold_locales (use engine_step_wf guest_fires_wf_step in blast)+

section \<open>The clock against the history of observations\<close>

text \<open>
  The specification of the two clocks reads the whole history of observations, oldest first: an
  outage is counted from the first battery reading after the last mains reading, and mains is
  counted from the start of the unbroken run of mains readings that ends the history.
\<close>

type_synonym sample = "pve_obs \<times> int"

abbreviation sample_power :: "sample \<Rightarrow> pve_power" where
  "sample_power s \<equiv> obs_power (fst s)"

definition outage_since :: "sample list \<Rightarrow> int option" where
  "outage_since hist = map_option snd
     (find (\<lambda>s. sample_power s = PVE_PWR_BATTERY)
        (rev (takeWhile (\<lambda>s. sample_power s \<noteq> PVE_PWR_LINE) (rev hist))))"

definition mains_since :: "sample list \<Rightarrow> int option" where
  "mains_since hist =
     (let run = takeWhile (\<lambda>s. sample_power s = PVE_PWR_LINE) (rev hist)
      in if run = [] then None else Some (snd (last run)))"

definition clock_is :: "pve_engine \<Rightarrow> sample list \<Rightarrow> bool" where
  "clock_is st hist \<longleftrightarrow>
     outage_since hist = (if e_on_battery st then Some (e_on_battery_since_us st) else None) \<and>
     mains_since hist = (if e_on_mains st then Some (e_mains_since_us st) else None)"

definition engine_init :: pve_engine where
  "engine_init = \<lparr>e_on_battery = False, e_on_battery_since_us = 0, e_on_mains = False, e_mains_since_us = 0,
     e_fired = replicate PVE_MAX_HOSTS False, e_reason = replicate PVE_MAX_HOSTS [],
     e_guests = replicate PVE_MAX_HOSTS []\<rparr>"

lemma find_append_one: "find P (xs @ [x]) = (case find P xs of None \<Rightarrow> if P x then Some x else None | Some y \<Rightarrow> Some y)"
  by (induction xs) auto

lemma outage_since_snoc:
  "outage_since (hist @ [s]) =
     (case sample_power s of
        PVE_PWR_LINE \<Rightarrow> None
      | PVE_PWR_BATTERY \<Rightarrow> (case outage_since hist of None \<Rightarrow> Some (snd s) | Some t \<Rightarrow> Some t)
      | PVE_PWR_UNKNOWN \<Rightarrow> outage_since hist)"
  by (auto simp: outage_since_def find_append_one split: pve_power.splits option.splits)

lemma mains_since_snoc:
  "mains_since (hist @ [s]) =
     (if sample_power s = PVE_PWR_LINE
      then (case mains_since hist of None \<Rightarrow> Some (snd s) | Some t \<Rightarrow> Some t) else None)"
  by (auto simp: mains_since_def Let_def)

lemma observe_power_clock:
  assumes "clock_is st hist"
  shows "clock_is (observe_power st obs now) (hist @ [(obs, now)])"
  using assms
  by (auto simp: clock_is_def observe_power_def outage_since_snoc mains_since_snoc Let_def
      split: pve_power.splits option.splits)

lemma clock_is_same: "same_clock a b \<Longrightarrow> clock_is a hist = clock_is b hist"
  by (simp add: same_clock_def clock_is_def)

fun eval_samples :: "engine_event list \<Rightarrow> sample list" where
  "eval_samples [] = []"
| "eval_samples (Eval cfg guests obs now # evs) = (obs, now) # eval_samples evs"
| "eval_samples (Sync i ggs # evs) = eval_samples evs"

fun enabled_event :: "engine_event \<Rightarrow> bool" where
  "enabled_event (Eval cfg guests obs now) = c_enabled cfg"
| "enabled_event (Sync i ggs) = True"

lemma engine_init_wf [simp]: "wf_engine engine_init"
  by (simp add: engine_init_def wf_engine_def)

lemma engine_init_clock [simp]: "clock_is engine_init []"
  by (simp add: engine_init_def clock_is_def outage_since_def mains_since_def)

lemma run_wf: "wf_engine st \<Longrightarrow> wf_engine (run_steps engine_step evs st)"
  by (rule run_steps_invariant) (auto simp: engine_step_wf)

lemma run_clock:
  assumes "wf_engine st" and "clock_is st hist" and "list_all enabled_event evs"
  shows "clock_is (run_steps engine_step evs st) (hist @ eval_samples evs)"
  using assms
proof (induction evs arbitrary: st hist)
  case (Cons ev evs)
  show ?case
  proof (cases ev)
    case (Eval cfg guests obs now)
    have "clock_is (engine_step ev st) (hist @ [(obs, now)])"
      using Cons.prems Eval clock_is_same [OF pve_eval_clock] observe_power_clock by simp
    from Cons.IH [OF engine_step_wf [OF Cons.prems(1)] this] show ?thesis
      using Cons.prems Eval by simp
  next
    case (Sync i ggs)
    have "clock_is (engine_step ev st) hist"
      using Cons.prems Sync by (simp add: clock_is_def)
    from Cons.IH [OF engine_step_wf [OF Cons.prems(1)] this] show ?thesis
      using Cons.prems Sync by simp
  qed
qed simp

section \<open>Properties\<close>

text \<open>A two-host configuration and an outage for the witnesses: host 0 goes after ten minutes on
  battery or at 20 % charge and has two guest rules, host 1 is off.\<close>

definition ex_host :: pve_host where
  "ex_host = \<lparr>h_enabled = True, h_url = ''https://10.0.0.2:8006'', h_node = ''pve'', h_token_id = ''t'', h_secret = ''s'',
     h_guest_wait_s = 0, h_shutdown_node = True, h_fingerprint = ''aa'', h_on_battery_min = 10, h_charge_pct = 20\<rparr>"

definition ex_cfg :: pve_config where
  "ex_cfg = \<lparr>c_enabled = True, c_armed = True, c_mains_back_min = 5,
     c_hosts = [ex_host, ex_host\<lparr>h_enabled := False\<rparr>, ex_host\<lparr>h_enabled := False\<rparr>, ex_host\<lparr>h_enabled := False\<rparr>]\<rparr>"

definition ex_guests :: "pve_guest list list" where
  "ex_guests = [[\<lparr>g_id = 100, g_on_battery_min = 2, g_charge_pct = 0\<rparr>,
                 \<lparr>g_id = 101, g_on_battery_min = 0, g_charge_pct = 0\<rparr>], [], [], []]"

definition ex_sample :: "pve_power \<Rightarrow> int \<Rightarrow> int \<Rightarrow> engine_event" where
  "ex_sample pw soc minute = Eval ex_cfg ex_guests \<lparr>obs_power = pw, obs_soc_pct = soc\<rparr> (minute * US_PER_MIN)"

definition ex_outage :: "engine_event list" where
  "ex_outage = [Sync 0 (ex_guests ! 0), ex_sample PVE_PWR_LINE 90 0, ex_sample PVE_PWR_BATTERY 88 1,
     ex_sample PVE_PWR_UNKNOWN (- 1) 5]"

text \<open>C1: From a fresh start, and over any sequence of enabled evaluations and guest-list edits, the
  next evaluation fires host \<open>i\<close> exactly when the host is enabled, has not fired already, and either
  its time limit has passed since the first battery reading after the last mains reading of the
  whole history (unknown readings in between do not matter), or the present reading is a battery
  reading with a valid charge at or below its limit.\<close>

theorem host_fires_by_history:
  assumes "list_all enabled_event evs" and "c_enabled cfg" and "i < PVE_MAX_HOSTS"
  shows "let st = run_steps engine_step evs engine_init; h = c_hosts cfg ! i;
             hist = eval_samples evs @ [(obs, now)] in
     bit (snd (pve_eval cfg guests st obs now)) i \<longleftrightarrow>
       \<not> e_fired st ! i \<and> h_enabled h \<and>
       (h_on_battery_min h > 0 \<and>
          (case outage_since hist of None \<Rightarrow> False | Some t \<Rightarrow> now - t \<ge> uint (h_on_battery_min h) * US_PER_MIN) \<or>
        obs_power obs = PVE_PWR_BATTERY \<and> h_charge_pct h > 0 \<and>
          0 \<le> obs_soc_pct obs \<and> obs_soc_pct obs \<le> uint (h_charge_pct h))"
proof -
  define st where "st = run_steps engine_step evs engine_init"
  have wf: "wf_engine st" by (simp add: st_def run_wf)
  have "clock_is (observe_power st obs now) (eval_samples evs @ [(obs, now)])"
    using run_clock [of engine_init "[]" evs] assms(1) observe_power_clock by (simp add: st_def)
  then have due: "timer_due m (observe_power st obs now) now \<longleftrightarrow> m > 0 \<and>
      (case outage_since (eval_samples evs @ [(obs, now)]) of None \<Rightarrow> False
       | Some t \<Rightarrow> now - t \<ge> uint m * US_PER_MIN)" for m
    by (simp add: clock_is_def timer_due_def)
  show ?thesis
    unfolding Let_def st_def [symmetric] pve_eval_fires [OF wf assms(2,3)] due charge_low_def by (rule refl)
qed

lemma ex_outage_enabled: "list_all enabled_event ex_outage"
  by (simp add: ex_outage_def ex_sample_def ex_cfg_def)

theorem host_fires_by_history_witness:
  "bit (snd (pve_eval ex_cfg ex_guests (run_steps engine_step ex_outage engine_init)
      \<lparr>obs_power = PVE_PWR_UNKNOWN, obs_soc_pct = - 1\<rparr> (11 * US_PER_MIN))) 0"
proof -
  have nf: "\<not> e_fired (run_steps engine_step ex_outage engine_init) ! 0" by code_simp
  show ?thesis
    using host_fires_by_history [OF ex_outage_enabled, of ex_cfg 0 "\<lparr>obs_power = PVE_PWR_UNKNOWN, obs_soc_pct = - 1\<rparr>" "11 * US_PER_MIN" ex_guests] nf
    by (simp add: Let_def ex_outage_def ex_sample_def ex_cfg_def ex_host_def outage_since_def)
qed



text \<open>One host's rule over a stretch of a confirmed outage: enabled, the same time limit, and no
  mains reading; edits of guest lists may happen in between.\<close>

fun rides_outage :: "nat \<Rightarrow> u16 \<Rightarrow> engine_event \<Rightarrow> bool" where
  "rides_outage i m (Eval cfg guests obs now) \<longleftrightarrow>
     c_enabled cfg \<and> obs_power obs \<noteq> PVE_PWR_LINE \<and>
     h_enabled (c_hosts cfg ! i) \<and> h_on_battery_min (c_hosts cfg ! i) = m"
| "rides_outage i m (Sync j ggs) \<longleftrightarrow> True"

lemma observe_power_riding:
  assumes "e_on_battery st" and "obs_power obs \<noteq> PVE_PWR_LINE"
  shows "e_on_battery (observe_power st obs now)"
    and "e_on_battery_since_us (observe_power st obs now) = e_on_battery_since_us st"
    and "\<not> mains_back cfg (observe_power st obs now) now"
  using assms by (auto simp: observe_power_def mains_back_def split: pve_power.splits)

lemma rides_outage_step:
  assumes "wf_engine st" and "e_on_battery st" and "rides_outage i m ev"
  shows "e_on_battery (engine_step ev st)"
    and "e_on_battery_since_us (engine_step ev st) = e_on_battery_since_us st"
    and "\<not> releases ev st"
proof -
  have "e_on_battery (engine_step ev st) \<and> e_on_battery_since_us (engine_step ev st) = e_on_battery_since_us st
      \<and> \<not> releases ev st"
  proof (cases ev)
    case (Eval cfg guests obs now)
    then have "c_enabled cfg" "obs_power obs \<noteq> PVE_PWR_LINE" using assms(3) by auto
    then show ?thesis
      using Eval pve_eval_clock [OF assms(1)] observe_power_riding [OF assms(2)]
      by (simp add: same_clock_def)
  qed (use assms in auto)
  then show "e_on_battery (engine_step ev st)"
    and "e_on_battery_since_us (engine_step ev st) = e_on_battery_since_us st"
    and "\<not> releases ev st" by auto
qed

lemma rides_outage_run:
  assumes "wf_engine st" and "e_on_battery st" and "list_all (rides_outage i m) evs"
  shows "e_on_battery (run_steps engine_step evs st) \<and>
     e_on_battery_since_us (run_steps engine_step evs st) = e_on_battery_since_us st \<and>
     never engine_step releases evs st"
  using assms by (induction evs arbitrary: st) (auto simp: engine_step_wf rides_outage_step)

lemma unfired_run:
  assumes "wf_engine st" and "i < PVE_MAX_HOSTS" and "\<not> e_fired st ! i"
    and "firings engine_step (host_fires i) evs st = 0"
  shows "\<not> e_fired (run_steps engine_step evs st) ! i"
  using assms
proof (induction evs arbitrary: st)
  case (Cons ev evs)
  have "\<not> e_fired (engine_step ev st) ! i"
  proof (cases ev)
    case (Eval cfg guests obs now)
    then show ?thesis
      using Cons.prems by (cases "c_enabled cfg") (auto simp: pve_eval_fired pve_eval_disabled split: if_splits)
  qed (use Cons.prems in simp)
  then show ?case
    using Cons.IH [OF engine_step_wf] Cons.prems by (simp split: if_splits)
qed simp

text \<open>C6: A confirmed outage takes an armed host down exactly once, even when the link to the power
  station dies in it: from any state whose outage clock runs and in which the host has not fired,
  any run of enabled evaluations without a mains reading whose last one is at least the host's time
  limit after the start of the outage fires the host exactly once, and leaves it latched.\<close>

theorem outage_fires_host_once:
  assumes "wf_engine st" and "e_on_battery st" and "i < PVE_MAX_HOSTS" and "\<not> e_fired st ! i"
    and "list_all (rides_outage i m) (evs @ [Eval cfg guests obs now])" and "0 < m"
    and "now \<ge> e_on_battery_since_us st + uint m * US_PER_MIN"
  shows "firings engine_step (host_fires i) (evs @ [Eval cfg guests obs now]) st = 1 \<and>
         e_fired (run_steps engine_step (evs @ [Eval cfg guests obs now]) st) ! i"
proof -
  let ?st = "run_steps engine_step evs st" and ?evs = "evs @ [Eval cfg guests obs now]"
  have ride: "list_all (rides_outage i m) evs" and
    last: "c_enabled cfg" "obs_power obs \<noteq> PVE_PWR_LINE" "h_enabled (c_hosts cfg ! i)" "h_on_battery_min (c_hosts cfg ! i) = m"
    using assms(5) by auto
  note clk = rides_outage_run [OF assms(1,2) ride] and wf = run_wf [OF assms(1), of evs]
  have "timer_due m (observe_power ?st obs now) now"
    using clk observe_power_riding(1,2) [of ?st obs] last(2) assms(6,7) by (simp add: timer_due_def)
  then have "e_fired (fst (pve_eval cfg guests ?st obs now)) ! i"
    using pve_eval_fired [OF wf last(1) assms(3), of guests obs now] pve_eval_fires [OF wf last(1) assms(3), of guests obs now]
      last observe_power_riding(3) [of ?st obs cfg now] clk by auto
  then have end_fired: "e_fired (run_steps engine_step ?evs st) ! i" by simp
  moreover have "firings engine_step (host_fires i) ?evs st \<noteq> 0"
    using unfired_run [OF assms(1,3,4)] end_fired by blast
  moreover have "firings engine_step (host_fires i) ?evs st \<le> 1"
    using host_latch.at_most_once [OF assms(1)] rides_outage_run [OF assms(1,2,5)] by blast
  ultimately show ?thesis by linarith
qed

theorem outage_fires_host_once_witness:
  "e_fired (run_steps engine_step [ex_sample PVE_PWR_UNKNOWN (- 1) 6, ex_sample PVE_PWR_UNKNOWN (- 1) 12]
      (run_steps engine_step ex_outage engine_init)) ! 0"
proof -
  let ?st = "run_steps engine_step ex_outage engine_init"
  have "e_on_battery ?st" "\<not> e_fired ?st ! 0" "e_on_battery_since_us ?st = US_PER_MIN" by code_simp+
  then show ?thesis
    using outage_fires_host_once [of ?st 0 10 "[ex_sample PVE_PWR_UNKNOWN (- 1) 6]" ex_cfg ex_guests
        "\<lparr>obs_power = PVE_PWR_UNKNOWN, obs_soc_pct = - 1\<rparr>" "12 * US_PER_MIN"]
    by (simp add: run_wf ex_sample_def ex_cfg_def ex_host_def US_PER_MIN_def US_PER_S_def)
qed

text \<open>An event of a run in which nothing is ever seen on battery.\<close>

fun not_on_battery :: "engine_event \<Rightarrow> bool" where
  "not_on_battery (Eval cfg guests obs now) \<longleftrightarrow> obs_power obs \<noteq> PVE_PWR_BATTERY"
| "not_on_battery (Sync j ggs) \<longleftrightarrow> True"

lemma not_on_battery_step:
  assumes "wf_engine st" and "\<not> e_on_battery st" and "not_on_battery ev"
  shows "\<not> e_on_battery (engine_step ev st) \<and> \<not> host_fires i ev st \<and> \<not> guest_fires_on i k ev st"
proof (cases ev)
  case (Eval cfg guests obs now)
  have clk: "\<not> e_on_battery (observe_power st obs now)"
    using assms Eval by (auto simp: observe_power_def Let_def split: pve_power.splits)
  then have none: "\<not> timer_due m (observe_power st obs now) now" "\<not> charge_low p obs" for m p
    using assms Eval by (auto simp: timer_due_def charge_low_def)
  have bits: "i < PVE_MAX_HOSTS \<Longrightarrow> c_enabled cfg \<Longrightarrow> \<not> bit (snd (pve_eval cfg guests st obs now)) i"
    using pve_eval_fires [OF assms(1)] none by blast
  have "\<not> guest_fired_now i k (fst (pve_eval cfg guests st obs now))" if en: "c_enabled cfg"
  proof (cases "i < PVE_MAX_HOSTS \<and> find_guest_state (e_guests st ! i) k \<noteq> None")
    case True
    then obtain e where i: "i < PVE_MAX_HOSTS" and e: "find_guest_state (e_guests st ! i) k = Some e" by auto
    show ?thesis
      by (rule pve_eval_guest_entry [OF assms(1) en i e, of guests obs now])
        (use bits en i none in \<open>auto simp: guest_fired_now_def guest_fires_def\<close>)
  next
    case False
    then show ?thesis using pve_eval_guest_absent [OF assms(1) en] by (auto simp: guest_fired_now_def)
  qed
  then show ?thesis
    using Eval bits clk pve_eval_clock [OF assms(1)]
    by (cases "c_enabled cfg") (auto simp: same_clock_def pve_eval_disabled)
qed (use assms in auto)

text \<open>Fail-safe. While no reading says the station is on battery, nothing is ever shut down: from
  any state whose outage clock is not running, over any run of mains and unknown readings, under
  any configurations and with edits in between, no host and no guest fires.\<close>

theorem unknown_never_fires:
  assumes "wf_engine st" and "\<not> e_on_battery st" and "list_all not_on_battery evs"
  shows "firings engine_step (host_fires i) evs st = 0 \<and> firings engine_step (guest_fires_on i k) evs st = 0"
  using assms
proof (induction evs arbitrary: st)
  case (Cons ev evs)
  then show ?case
    using not_on_battery_step [OF Cons.prems(1,2), of ev] engine_step_wf by simp
qed simp

theorem unknown_never_fires_witness:
  "firings engine_step (host_fires 0) [ex_sample PVE_PWR_UNKNOWN 5 0, ex_sample PVE_PWR_LINE 5 50, ex_sample PVE_PWR_UNKNOWN 5 100] engine_init = 0"
  by (rule unknown_never_fires [OF engine_init_wf, THEN conjunct1]) (simp_all add: engine_init_def ex_sample_def)

text \<open>In one enabled evaluation a tracked guest fires exactly when it has not fired before, its
  host is enabled and was not latched, the guest is configured, and either a rule of its own is due
  or its host fires in this evaluation, whatever the guest's own limits: no configured guest is left
  running when its node goes down. Afterwards it is marked fired unless mains came back.\<close>

theorem guest_fires_own_or_swept:
  assumes "wf_engine st" and "c_enabled cfg" and "i < PVE_MAX_HOSTS"
    and "find_guest_state (e_guests st ! i) k = Some e"
  shows "\<exists>e'. find_guest_state (e_guests (fst (pve_eval cfg guests st obs now)) ! i) k = Some e' \<and>
     (ge_fired_now e' \<longleftrightarrow> \<not> ge_fired e \<and> \<not> e_fired st ! i \<and> h_enabled (c_hosts cfg ! i) \<and>
        (\<exists>gg \<in> set (guests ! i). g_id gg = k \<and>
          (trigger_met (g_on_battery_min gg) (g_charge_pct gg) (observe_power st obs now) obs now 96 \<noteq> None \<or>
           bit (snd (pve_eval cfg guests st obs now)) i))) \<and>
     (ge_fired e' \<longleftrightarrow> ge_fired e \<and> \<not> mains_back cfg (observe_power st obs now) now \<or> ge_fired_now e')"
  unfolding trigger_met_iff
  by (rule pve_eval_guest_entry [OF assms, of guests obs now]) (auto simp: guest_fires_def)

theorem guest_fires_own_or_swept_witness:
  "\<exists>e'. find_guest_state (e_guests (fst (pve_eval ex_cfg ex_guests (run_steps engine_step ex_outage engine_init)
      \<lparr>obs_power = PVE_PWR_BATTERY, obs_soc_pct = 20\<rparr> (6 * US_PER_MIN))) ! 0) 101 = Some e' \<and> ge_fired_now e'"
proof -
  let ?st = "run_steps engine_step ex_outage engine_init"
  have st: "find_guest_state (e_guests ?st ! 0) 101 = Some \<lparr>ge_id = 101, ge_fired = False, ge_fired_now = False, ge_reason = []\<rparr>"
    "bit (snd (pve_eval ex_cfg ex_guests ?st \<lparr>obs_power = PVE_PWR_BATTERY, obs_soc_pct = 20\<rparr> (6 * US_PER_MIN))) 0"
    "\<not> e_fired ?st ! 0" "h_enabled (c_hosts ex_cfg ! 0)"
    by code_simp+
  show ?thesis
    using guest_fires_own_or_swept [OF run_wf [OF engine_init_wf] _ _ st(1), of ex_cfg ex_guests
        "\<lparr>obs_power = PVE_PWR_BATTERY, obs_soc_pct = 20\<rparr>" "6 * US_PER_MIN"] st(2-4)
    by (auto simp: ex_guests_def ex_cfg_def)
qed

text \<open>The countdown shown for a host is the truth about its timer: \<open>- 1\<close> exactly when no timer is
  pending, and when it shows \<open>c\<close> seconds, an evaluation without a live reading fires the host if
  it comes at least \<open>c + 1\<close> seconds later and, for a positive \<open>c\<close>, does not before \<open>c\<close> seconds have passed.\<close>

theorem countdown_matches_firing:
  assumes "wf_engine st" and "c_enabled cfg" and "i < PVE_MAX_HOSTS"
    and "pve_countdown_s cfg st (int i) now = c" and "obs_power obs = PVE_PWR_UNKNOWN"
  shows "(c = - 1 \<longrightarrow> \<not> bit (snd (pve_eval cfg guests st obs later)) i) \<and>
     - 1 \<le> c \<and>
     (0 \<le> c \<and> later \<ge> now + (c + 1) * US_PER_S \<longrightarrow> bit (snd (pve_eval cfg guests st obs later)) i) \<and>
     (0 < c \<and> later < now + c * US_PER_S \<longrightarrow> \<not> bit (snd (pve_eval cfg guests st obs later)) i)"
proof -
  define h where "h = c_hosts cfg ! i"
  define due where "due = e_on_battery_since_us st + uint (h_on_battery_min h) * US_PER_MIN"
  define pending where "pending \<longleftrightarrow> h_enabled h \<and> h_on_battery_min h \<noteq> 0 \<and> e_on_battery st \<and> \<not> e_fired st ! i"
  have c: "c = (if pending then if due - now > 0 then (due - now) div US_PER_S else 0 else - 1)"
    using assms(2,3,4) by (auto simp: pve_countdown_s_def pending_def due_def h_def Let_def)
  have "e_on_battery (observe_power st obs later) = e_on_battery st"
    "e_on_battery_since_us (observe_power st obs later) = e_on_battery_since_us st"
    using assms(5) by (simp_all add: observe_power_def)
  then have fire: "bit (snd (pve_eval cfg guests st obs later)) i \<longleftrightarrow> pending \<and> due \<le> later"
    using pve_eval_fires [OF assms(1-3), of guests obs later] assms(5)
    by (auto simp: timer_due_def charge_low_def pending_def due_def h_def word_gt_0)
  have us: "US_PER_S = 1000000" by (simp add: US_PER_S_def)
  have q: "(due - now) div 1000000 * 1000000 \<le> due - now" "due - now < ((due - now) div 1000000 + 1) * 1000000"
    by (simp_all add: algebra_simps)
  show ?thesis
    unfolding fire using c q unfolding us by (auto split: if_splits)
qed

theorem countdown_matches_firing_witness:
  "pve_countdown_s ex_cfg (run_steps engine_step ex_outage engine_init) (int 0) (5 * US_PER_MIN) = 360 \<and>
   bit (snd (pve_eval ex_cfg ex_guests (run_steps engine_step ex_outage engine_init)
      \<lparr>obs_power = PVE_PWR_UNKNOWN, obs_soc_pct = - 1\<rparr> (5 * US_PER_MIN + 361 * US_PER_S))) 0"
proof -
  let ?st = "run_steps engine_step ex_outage engine_init"
  have cd: "pve_countdown_s ex_cfg ?st (int 0) (5 * US_PER_MIN) = 360" by code_simp
  show ?thesis
    using countdown_matches_firing [OF run_wf [OF engine_init_wf] _ _ cd, of "\<lparr>obs_power = PVE_PWR_UNKNOWN, obs_soc_pct = - 1\<rparr>" ex_guests "5 * US_PER_MIN + 361 * US_PER_S"] cd
    by (simp add: ex_cfg_def)
qed

end
