(* ===== verification/Pve_Shutdown.thy ===== *)
theory Pve_Shutdown
  imports Pve_Engine
begin

unbundle bit_operations_syntax

text \<open>
  The runtime half of the Proxmox shutdown, \<^verbatim>\<open>components/pve_shutdown/pve_shutdown.c\<close>: requests over
  TLS with a pinned certificate, the shutdown sequence of a host, the worker that drains the queue of
  fired hosts and guests, and the glue that feeds observations into the engine of \<^verbatim>\<open>Pve_Engine\<close>. The
  record \<open>pve_runtime\<close> is the file's static state \<^verbatim>\<open>P\<close>. The TLS library, the network, the JSON
  parser and the allocator are parameters: \<open>tls_env\<close> gives what request number \<open>k\<close> meets and
  \<open>A n\<close> is whether an array of \<open>n\<close> elements can be allocated. What is written to the network is
  logged in \<open>ts_sent\<close>, the events raised are logged in \<open>p_events\<close>. Task creation and the mutex appear only through
  their results; one definition covers what runs under one hold of the lock.
\<close>

section \<open>Data\<close>

abbreviation NODE_ATTEMPTS :: nat where "NODE_ATTEMPTS \<equiv> 3"
abbreviation RESP_MAX :: nat where "RESP_MAX \<equiv> 2048"
abbreviation PVE_GUEST_RESP_MAX :: nat where "PVE_GUEST_RESP_MAX \<equiv> 8192"

record pending_guest =
  pg_host :: nat
  pg_id :: int
  pg_reason :: string

record guest_last =
  gl_id :: int
  gl_text :: string
  gl_ok :: bool

datatype pve_event_kind = PVE_EVENT_HOST | PVE_EVENT_GUEST

record pve_runtime =
  p_cfg :: pve_config
  p_selftest_hours :: u16
  p_guests :: "pve_guest list list"
  p_eng :: pve_engine
  p_started :: bool
  p_running :: bool
  p_pending_hosts :: u32
  p_pending_guests :: "pending_guest list"
  p_host_last :: "(string \<times> bool) list"
  p_host_last_test_us :: "int list"
  p_guest_last :: "guest_last list list"
  p_events :: "(pve_event_kind \<times> string) list"

section \<open>Results kept for the status page\<close>

definition note_host :: "nat \<Rightarrow> bool \<Rightarrow> string \<Rightarrow> pve_runtime \<Rightarrow> pve_runtime" where
  "note_host i ok text p =
     (if i \<ge> PVE_MAX_HOSTS then p else p\<lparr>p_host_last := (p_host_last p)[i := (strlcpy 128 text, ok)]\<rparr>)"

definition upsert_last :: "(nat \<Rightarrow> bool) \<Rightarrow> int \<Rightarrow> bool \<Rightarrow> string \<Rightarrow> guest_last list \<Rightarrow> guest_last list" where
  "upsert_last A ident ok text ls =
     (if \<exists>l \<in> set ls. gl_id l = ident
      then update_first (\<lambda>l. gl_id l = ident) (\<lambda>l. l\<lparr>gl_ok := ok, gl_text := strlcpy 64 text\<rparr>) ls
      else if \<not> A (length ls + 1) then ls
      else ls @ [\<lparr>gl_id = ident, gl_text = strlcpy 64 text, gl_ok = ok\<rparr>])"

definition note_guest :: "(nat \<Rightarrow> bool) \<Rightarrow> nat \<Rightarrow> int \<Rightarrow> bool \<Rightarrow> string \<Rightarrow> pve_runtime \<Rightarrow> pve_runtime" where
  "note_guest A i ident ok text p =
     (if i \<ge> PVE_MAX_HOSTS then p
      else p\<lparr>p_guest_last := (p_guest_last p)[i := upsert_last A ident ok text (p_guest_last p ! i)]\<rparr>)"

definition prune_guest_last :: "nat \<Rightarrow> pve_runtime \<Rightarrow> pve_runtime" where
  "prune_guest_last i p =
     p\<lparr>p_guest_last := (p_guest_last p)[i := filter (\<lambda>l. \<exists>g \<in> set (p_guests p ! i). g_id g = gl_id l) (p_guest_last p ! i)]\<rparr>"

definition pve_shutdown_note_test :: "nat \<Rightarrow> bool \<Rightarrow> string \<Rightarrow> int \<Rightarrow> pve_runtime \<Rightarrow> pve_runtime" where
  "pve_shutdown_note_test i ok msg now p =
     (if \<not> p_started p then p
      else
        let p = note_host i ok msg p
        in if i \<ge> PVE_MAX_HOSTS then p else p\<lparr>p_host_last_test_us := (p_host_last_test_us p)[i := now]\<rparr>)"

section \<open>Fingerprints\<close>

definition is_xdigit :: "char \<Rightarrow> bool" where
  "is_xdigit c \<longleftrightarrow> is_digit c \<or> (65 \<le> ord c \<and> ord c \<le> 70) \<or> (97 \<le> ord c \<and> ord c \<le> 102)"

fun fp_scan :: "string \<Rightarrow> string \<Rightarrow> string option" where
  "fp_scan [] out = (if length out = 64 then Some out else None)"
| "fp_scan (c # cs) out =
     (if c = CHR '':'' \<or> c = CHR '' '' then fp_scan cs out
      else if \<not> is_xdigit c \<or> length out \<ge> 64 then None
      else fp_scan cs (out @ [toupper c]))"

definition pve_fingerprint_normalise :: "string \<Rightarrow> string option" where
  "pve_fingerprint_normalise s = fp_scan s []"

text \<open>The loop takes the digits in pairs and stops at the end of the string.\<close>

fun fp_pairs :: "string \<Rightarrow> string \<Rightarrow> string" where
  "fp_pairs (a # b # cs) out = fp_pairs cs (out @ (if out \<noteq> [] then '':'' else []) @ [a, b])"
| "fp_pairs _ out = out"

definition fp_pretty :: "string \<Rightarrow> string" where
  "fp_pretty hex = fp_pairs (take 64 hex) []"

section \<open>Requests\<close>

definition split_url :: "string \<Rightarrow> nat \<Rightarrow> nat \<Rightarrow> (string \<times> string) option" where
  "split_url url hsz psz =
     (if \<not> has_prefix ''https://'' url then None
      else
        let p = drop 8 url;
            host = takeWhile (\<lambda>c. c \<noteq> CHR '':'' \<and> c \<noteq> CHR ''/'') p;
            rest = dropWhile (\<lambda>c. c \<noteq> CHR '':'' \<and> c \<noteq> CHR ''/'') p
        in if host = [] \<or> length host \<ge> hsz then None
           else if rest \<noteq> [] \<and> hd rest = CHR '':'' then
             let port = takeWhile (\<lambda>c. c \<noteq> CHR ''/'') (tl rest)
             in if port = [] \<or> length port \<ge> psz then None else Some (host, port)
           else Some (host, strlcpy psz ''8006''))"

text \<open>What the TLS library and the network make of one request: where it failed with which code, or
  the certificate the server presented (\<^const>\<open>None\<close>: none); the result that ends the writing of the
  request, its retries and partial writes folded in; and what reading to the end of the stream gives.
  A request whose writing has begun counts as sent.\<close>

datatype tls_handshake =
    RngFail int | ConnectFail int | ConfigFail int | SetupFail int | HandshakeFail int
  | PeerCert "byte list option"

record tls_answer =
  ta_handshake :: tls_handshake
  ta_write_rc :: int
  ta_malloc_ok :: bool
  ta_read :: "int + string"

record tls_env =
  te_answer :: "nat \<Rightarrow> tls_answer"
  te_sha256 :: "byte list \<Rightarrow> byte list"

record tls_state =
  ts_k :: nat
  ts_sent :: "(string \<times> string) list"

record req_result =
  rq_status :: int
  rq_seen_fp :: string

fun show_hex :: "nat \<Rightarrow> string" where
  "show_hex n = (if n < 16 then [''0123456789abcdef'' ! n] else show_hex (n div 16) @ [''0123456789abcdef'' ! (n mod 16)])"

declare show_hex.simps [simp del]

text \<open>\<^verbatim>\<open>-0x%04x\<close> of \<open>- rc\<close>.\<close>

definition rc_hex :: "int \<Rightarrow> string" where
  "rc_hex rc = (let h = show_hex (nat ((- rc) mod 2 ^ 32)) in ''-0x'' @ replicate (4 - length h) (CHR ''0'') @ h)"

definition hex2_upper :: "byte \<Rightarrow> string" where
  "hex2_upper v = [''0123456789ABCDEF'' ! (unat v div 16), ''0123456789ABCDEF'' ! (unat v mod 16)]"

definition cert_fp :: "tls_env \<Rightarrow> byte list \<Rightarrow> string" where
  "cert_fp T raw = concat (map hex2_upper (take 32 (te_sha256 T raw)))"

abbreviation CRLF :: string where "CRLF \<equiv> [CHR 0x0D, CHR 0x0A]"

definition request_text :: "pve_host \<Rightarrow> string \<Rightarrow> string \<Rightarrow> string option \<Rightarrow> string" where
  "request_text h host path body =
     (case body of Some _ \<Rightarrow> ''POST'' | None \<Rightarrow> ''GET'') @ '' /api2/json'' @ path @ '' HTTP/1.0'' @ CRLF @
     ''Host: '' @ host @ CRLF @
     ''Authorization: PVEAPIToken='' @ h_token_id h @ ''='' @ h_secret h @ CRLF @
     ''Connection: close'' @ CRLF @
     (case body of Some _ \<Rightarrow> ''Content-Type: application/x-www-form-urlencoded'' @ CRLF | None \<Rightarrow> []) @
     ''Content-Length: '' @ show_nat (case body of Some b \<Rightarrow> length b | None \<Rightarrow> 0) @ CRLF @ CRLF @
     (case body of Some b \<Rightarrow> b | None \<Rightarrow> [])"

text \<open>\<^verbatim>\<open>sscanf(buf, "HTTP/%*d.%*d %d", &status) == 1\<close>\<close>

definition scan_d :: "string \<Rightarrow> (int \<times> string) option" where
  "scan_d s = (case strtol s of (v, r) \<Rightarrow> if r = s then None else Some (v, r))"

definition scan_status :: "string \<Rightarrow> int option" where
  "scan_status s =
     (if \<not> has_prefix ''HTTP/'' s then None
      else case scan_d (drop 5 s) of None \<Rightarrow> None
        | Some (_, r) \<Rightarrow>
            if r = [] \<or> hd r \<noteq> CHR ''.'' then None
            else case scan_d (tl r) of None \<Rightarrow> None
              | Some (_, r) \<Rightarrow> map_option fst (scan_d r))"

fun after_blank_line :: "string \<Rightarrow> string option" where
  "after_blank_line [] = None"
| "after_blank_line (c # cs) = (if has_prefix (CRLF @ CRLF) (c # cs) then Some (drop 4 (c # cs)) else after_blank_line cs)"

text \<open>One request: the result, the error buffer (kept when nothing is written to it) and the body
  buffer of \<open>resp_sz\<close> bytes (0: the caller wants no body).\<close>

definition tls_fail_text :: "string \<Rightarrow> string \<Rightarrow> tls_handshake \<Rightarrow> string option" where
  "tls_fail_text host port hs =
     (case hs of
        RngFail rc \<Rightarrow> Some (''rng: '' @ rc_hex rc)
      | ConnectFail rc \<Rightarrow> Some (''connect '' @ host @ '':'' @ port @ '' failed ('' @ rc_hex rc @ '')'')
      | ConfigFail rc \<Rightarrow> Some (''ssl config: '' @ rc_hex rc)
      | SetupFail rc \<Rightarrow> Some (''ssl setup: '' @ rc_hex rc)
      | HandshakeFail rc \<Rightarrow> Some (''TLS handshake failed ('' @ rc_hex rc @ '')'')
      | PeerCert None \<Rightarrow> Some ''server sent no certificate''
      | PeerCert (Some raw) \<Rightarrow> None)"

definition reply_result ::
    "tls_answer \<Rightarrow> nat \<Rightarrow> nat \<Rightarrow> string \<Rightarrow> string \<Rightarrow> string \<Rightarrow> req_result \<times> string \<times> string" where
  "reply_result a resp_sz err_sz fp err resp =
     (let fail = (\<lambda>text. (\<lparr>rq_status = - 1, rq_seen_fp = fp\<rparr>, snprintf_buf err_sz text, resp))
      in if \<not> ta_malloc_ok a then fail ''out of memory''
         else case ta_read a of
           Inl rc \<Rightarrow> fail (''read failed ('' @ rc_hex rc @ '')'')
         | Inr bytes \<Rightarrow>
             let buf = take (resp_sz + 1023) bytes
             in case scan_status buf of
                  None \<Rightarrow> fail ''not an HTTP reply''
                | Some st \<Rightarrow> (\<lparr>rq_status = st, rq_seen_fp = fp\<rparr>, err,
                             if resp_sz = 0 then resp
                             else strlcpy resp_sz (case after_blank_line buf of Some b \<Rightarrow> b | None \<Rightarrow> [])))"

definition tls_request ::
    "tls_env \<Rightarrow> pve_host \<Rightarrow> string \<Rightarrow> string option \<Rightarrow> nat \<Rightarrow> string \<Rightarrow> nat \<Rightarrow> string \<Rightarrow> tls_state \<Rightarrow>
     (req_result \<times> string \<times> string) \<times> tls_state" where
  "tls_request T h path body resp_sz resp err_sz err ts =
     (let fail = (\<lambda>fp text. (\<lparr>rq_status = - 1, rq_seen_fp = fp\<rparr>, snprintf_buf err_sz text, resp))
      in case split_url (h_url h) 64 8 of
           None \<Rightarrow> (fail [] ''URL must be https://host[:port]'', ts)
         | Some (host, port) \<Rightarrow>
             let a = te_answer T (ts_k ts); ts = ts\<lparr>ts_k := Suc (ts_k ts)\<rparr>
             in case ta_handshake a of
                  PeerCert (Some raw) \<Rightarrow>
                    let fp = cert_fp T raw
                    in if h_fingerprint h = [] then ((\<lparr>rq_status = 0, rq_seen_fp = fp\<rparr>, err, resp), ts)
                       else if fp \<noteq> h_fingerprint h
                       then (fail fp ''certificate fingerprint does not match the pinned one'', ts)
                       else
                         let req = request_text h host path body
                         in if length req \<ge> 512 then (fail fp ''request too long'', ts)
                            else
                              let ts = ts\<lparr>ts_sent := ts_sent ts @ [(fp, req)]\<rparr>
                              in if ta_write_rc a \<le> 0
                                 then (fail fp (''write failed ('' @ rc_hex (ta_write_rc a) @ '')''), ts)
                                 else (reply_result a resp_sz err_sz fp err resp, ts)
                | hs \<Rightarrow> (fail [] (case tls_fail_text host port hs of Some t \<Rightarrow> t | None \<Rightarrow> []), ts))"

definition status_text :: "int \<Rightarrow> string option" where
  "status_text st =
     (if st = 401 then Some ''401 authentication failed (token invalid?)''
      else if st = 403 then Some ''403 permission denied (privilege missing?)''
      else if st = 500 then Some ''500 (node name wrong?)''
      else if st = 501 then Some ''501 (a Backup Server? only PVE is supported)''
      else None)"

definition describe :: "int \<Rightarrow> string \<Rightarrow> nat \<Rightarrow> string" where
  "describe st err sz =
     snprintf_buf sz
       (if st < 0 then (if err \<noteq> [] then err else ''connection failed'')
        else if st = 0 then ''certificate not pinned''
        else case status_text st of Some t \<Rightarrow> t | None \<Rightarrow> ''HTTP '' @ show_int st)"

section \<open>The sequence\<close>

definition pve_emit :: "pve_event_kind \<Rightarrow> string \<Rightarrow> pve_runtime \<Rightarrow> pve_runtime" where
  "pve_emit kind text p = p\<lparr>p_events := p_events p @ [(kind, text)]\<rparr>"

text \<open>The kinds still to try, the last result and the error buffer; \<^const>\<open>None\<close> is success.\<close>

fun guest_kinds ::
    "tls_env \<Rightarrow> pve_host \<Rightarrow> int \<Rightarrow> string list \<Rightarrow> int \<Rightarrow> string \<Rightarrow> tls_state \<Rightarrow> (int \<times> string) option \<times> tls_state" where
  "guest_kinds T h ident [] st err ts = (Some (st, err), ts)"
| "guest_kinds T h ident (kind # kinds) st err ts =
     (let path = snprintf_buf 96 (''/nodes/'' @ h_node h @ ''/'' @ kind @ ''/'' @ show_int ident @ ''/status/shutdown'')
      in case tls_request T h path (Some []) 0 [] 64 err ts of ((r, err, _), ts) \<Rightarrow>
        if rq_status r = 200 then (None, ts)
        else if rq_status r \<le> 0 \<or> rq_status r = 401 \<or> rq_status r = 403 then (Some (rq_status r, err), ts)
        else guest_kinds T h ident kinds (rq_status r) err ts)"

definition shutdown_guest :: "tls_env \<Rightarrow> pve_host \<Rightarrow> int \<Rightarrow> tls_state \<Rightarrow> string option \<times> tls_state" where
  "shutdown_guest T h ident ts =
     (case guest_kinds T h ident [''qemu'', ''lxc''] (- 1) [] ts of
        (None, ts) \<Rightarrow> (None, ts)
      | (Some (st, err), ts) \<Rightarrow> (Some (snprintf_buf 96 (''guest '' @ show_int ident @ '': '' @ describe st err 80)), ts))"

fun node_names ::
    "tls_env \<Rightarrow> pve_host \<Rightarrow> string list \<Rightarrow> int \<Rightarrow> string \<Rightarrow> tls_state \<Rightarrow> (int \<times> string) option \<times> tls_state" where
  "node_names T h [] st err ts = (Some (st, err), ts)"
| "node_names T h (name # names) st err ts =
     (case tls_request T h (snprintf_buf 64 (''/nodes/'' @ name @ ''/status'')) (Some ''command=shutdown'') 0 [] 64 err ts of
        ((r, err, _), ts) \<Rightarrow>
          if rq_status r = 200 then (None, ts)
          else if rq_status r \<le> 0 then (Some (rq_status r, err), ts)
          else node_names T h names (rq_status r) err ts)"

fun node_attempts ::
    "tls_env \<Rightarrow> pve_host \<Rightarrow> nat \<Rightarrow> int \<Rightarrow> string \<Rightarrow> tls_state \<Rightarrow> (int \<times> string) option \<times> tls_state" where
  "node_attempts T h 0 st err ts = (Some (st, err), ts)"
| "node_attempts T h (Suc n) st err ts =
     (case node_names T h (h_node h # (if h_node h = ''localhost'' then [] else [''localhost''])) st err ts of
        (None, ts) \<Rightarrow> (None, ts)
      | (Some (st, err), ts) \<Rightarrow> node_attempts T h n st err ts)"

definition shutdown_node :: "tls_env \<Rightarrow> pve_host \<Rightarrow> tls_state \<Rightarrow> string option \<times> tls_state" where
  "shutdown_node T h ts =
     (case node_attempts T h NODE_ATTEMPTS (- 1) [] ts of
        (None, ts) \<Rightarrow> (None, ts)
      | (Some (st, err), ts) \<Rightarrow> (Some (snprintf_buf 96 (''node: '' @ describe st err 80)), ts))"

text \<open>The texts as the source has them: an em dash, a downward triangle and a cross are UTF-8 bytes.\<close>

abbreviation DASH :: string where "DASH \<equiv> [CHR 0xE2, CHR 0x80, CHR 0x94]"
abbreviation DOWN :: string where "DOWN \<equiv> [CHR 0xF0, CHR 0x9F, CHR 0x94, CHR 0xBB]"
abbreviation CROSS :: string where "CROSS \<equiv> [CHR 0xE2, CHR 0x9D, CHR 0x8C]"

text \<open>The runtime beside the network, threaded through a host's sequence.\<close>

type_synonym seq_state = "pve_runtime \<times> tls_state"

definition on_runtime :: "(pve_runtime \<Rightarrow> pve_runtime) \<Rightarrow> seq_state \<Rightarrow> seq_state" where
  "on_runtime f s = (f (fst s), snd s)"

definition dry_guest :: "(nat \<Rightarrow> bool) \<Rightarrow> nat \<Rightarrow> pve_host \<Rightarrow> pending_guest \<Rightarrow> pve_runtime \<Rightarrow> pve_runtime" where
  "dry_guest A i h b p =
     note_guest A i (pg_id b) True ''dry run: would shut down''
       (pve_emit PVE_EVENT_GUEST
          (snprintf_buf 240 (''DRY RUN '' @ DASH @ '' would shut down guest '' @ show_int (pg_id b) @ '' on '' @ h_node h @
             '' ('' @ pg_reason b @ '')'')) p)"

definition dry_node :: "nat \<Rightarrow> pve_host \<Rightarrow> string \<Rightarrow> pve_runtime \<Rightarrow> pve_runtime" where
  "dry_node i h reason p =
     note_host i True ''dry run: would shut down''
       (pve_emit PVE_EVENT_HOST
          (snprintf_buf 240 (''DRY RUN '' @ DASH @ '' would shut down '' @ h_node h @ '' ('' @ reason @ '')'')) p)"

definition untrusted_node :: "nat \<Rightarrow> pve_host \<Rightarrow> pve_runtime \<Rightarrow> pve_runtime" where
  "untrusted_node i h p =
     note_host i False (''not trusted '' @ DASH @ '' skipped'')
       (pve_emit PVE_EVENT_HOST
          (snprintf_buf 240 (CROSS @ '' Proxmox '' @ h_node h @ '' NOT shut down: certificate not trusted yet '' @
             ''(use Test connection on the Proxmox tab)'')) p)"

definition skip_guest :: "(nat \<Rightarrow> bool) \<Rightarrow> nat \<Rightarrow> pending_guest \<Rightarrow> pve_runtime \<Rightarrow> pve_runtime" where
  "skip_guest A i b p = note_guest A i (pg_id b) False (''not trusted '' @ DASH @ '' skipped'') p"

definition run_guest :: "(nat \<Rightarrow> bool) \<Rightarrow> tls_env \<Rightarrow> nat \<Rightarrow> pve_host \<Rightarrow> pending_guest \<Rightarrow> seq_state \<Rightarrow> seq_state" where
  "run_guest A T i h b s =
     (let (p, ts) = s; n = show_int (pg_id b)
      in case shutdown_guest T h (pg_id b) ts of
           (None, ts) \<Rightarrow>
             (pve_emit PVE_EVENT_GUEST
                (snprintf_buf 240 (DOWN @ '' Shutting down guest '' @ n @ '' on '' @ h_node h @ '' ('' @ pg_reason b @ '')''))
                (note_guest A i (pg_id b) True ''shutdown sent'' p), ts)
         | (Some why, ts) \<Rightarrow>
             (pve_emit PVE_EVENT_GUEST
                (snprintf_buf 240 (CROSS @ '' Guest '' @ n @ '' on '' @ h_node h @ '' shutdown FAILED '' @ DASH @ '' '' @ why))
                (note_guest A i (pg_id b) False why p), ts))"

definition run_node :: "tls_env \<Rightarrow> nat \<Rightarrow> pve_host \<Rightarrow> string \<Rightarrow> seq_state \<Rightarrow> seq_state" where
  "run_node T i h reason s =
     (let (p, ts) = s
      in case (if h_shutdown_node h then shutdown_node T h ts else (None, ts)) of
           (None, ts) \<Rightarrow>
             (pve_emit PVE_EVENT_HOST
                (snprintf_buf 240 (DOWN @ '' Shutting down Proxmox '' @ h_node h @ '' ('' @ reason @ '')''))
                (note_host i True ''shutdown sent'' p), ts)
         | (Some why, ts) \<Rightarrow>
             (pve_emit PVE_EVENT_HOST
                (snprintf_buf 240 (CROSS @ '' Proxmox '' @ h_node h @ '' shutdown FAILED '' @ DASH @ '' '' @ why))
                (note_host i False why p), ts))"

definition run_host ::
    "(nat \<Rightarrow> bool) \<Rightarrow> tls_env \<Rightarrow> nat \<Rightarrow> pve_config \<Rightarrow> bool \<Rightarrow> pending_guest list \<Rightarrow> string \<Rightarrow> seq_state \<Rightarrow> seq_state" where
  "run_host A T i cfg node_pending batch node_reason s =
     (let h = c_hosts cfg ! i
      in if \<not> h_enabled h \<or> h_url h = [] then s
         else if \<not> c_armed cfg then
           let s = fold (\<lambda>b. on_runtime (dry_guest A i h b)) batch s
           in if node_pending then on_runtime (dry_node i h node_reason) s else s
         else if h_fingerprint h = [] then
           let s = (if node_pending then on_runtime (untrusted_node i h) s else s)
           in fold (\<lambda>b. on_runtime (skip_guest A i b)) batch s
         else
           let s = fold (run_guest A T i h) batch s
           in if node_pending then run_node T i h node_reason s else s)"

section \<open>The worker\<close>

text \<open>What one hold of the lock takes out of the queues: the host, whether its node is due and why,
  the guests of that host in order, and the configuration at that moment. \<^const>\<open>None\<close>: nothing is
  left and the worker ends.\<close>

record work =
  w_host :: nat
  w_node_pending :: bool
  w_batch :: "pending_guest list"
  w_reason :: string
  w_cfg :: pve_config

fun take_batch :: "(nat \<Rightarrow> bool) \<Rightarrow> nat \<Rightarrow> pending_guest list \<Rightarrow> pending_guest list \<Rightarrow> pending_guest list" where
  "take_batch A i [] batch = batch"
| "take_batch A i (g # gs) batch =
     take_batch A i gs (if pg_host g = i \<and> A (length batch + 1) then batch @ [g] else batch)"

definition next_host :: "pve_runtime \<Rightarrow> nat option" where
  "next_host p =
     (case find (\<lambda>k. bit (p_pending_hosts p) k) [0..<PVE_MAX_HOSTS] of
        Some k \<Rightarrow> Some k
      | None \<Rightarrow> (case p_pending_guests p of [] \<Rightarrow> None | g # gs \<Rightarrow> Some (pg_host g)))"

definition worker_pick :: "(nat \<Rightarrow> bool) \<Rightarrow> pve_runtime \<Rightarrow> work option \<times> pve_runtime" where
  "worker_pick A p =
     (case next_host p of
        None \<Rightarrow> (None, p\<lparr>p_running := False\<rparr>)
      | Some i \<Rightarrow>
          let node_pending = bit (p_pending_hosts p) i;
              w = \<lparr>w_host = i, w_node_pending = node_pending, w_batch = take_batch A i (p_pending_guests p) [],
                   w_reason = (if node_pending then strlcpy 64 (e_reason (p_eng p) ! i) else []), w_cfg = p_cfg p\<rparr>
          in (Some w, p\<lparr>p_pending_hosts := p_pending_hosts p AND NOT (push_bit i 1),
                       p_pending_guests := filter (\<lambda>g. pg_host g \<noteq> i) (p_pending_guests p)\<rparr>))"

definition run_work :: "(nat \<Rightarrow> bool) \<Rightarrow> tls_env \<Rightarrow> work \<Rightarrow> seq_state \<Rightarrow> seq_state" where
  "run_work A T w s = run_host A T (w_host w) (w_cfg w) (w_node_pending w) (w_batch w) (w_reason w) s"

section \<open>Public interface\<close>

definition sync_host :: "pve_guest list list \<Rightarrow> nat \<Rightarrow> pve_runtime \<Rightarrow> pve_runtime" where
  "sync_host guests i p =
     (let p = p\<lparr>p_guests := (p_guests p)[i := guests ! i]\<rparr>
      in p\<lparr>p_eng := (p_eng p)\<lparr>e_guests := (e_guests (p_eng p))[i := pve_engine_sync_guests (e_guests (p_eng p) ! i) (guests ! i)]\<rparr>\<rparr>)"

definition pve_shutdown_start ::
    "pve_runtime \<Rightarrow> pve_config \<Rightarrow> u16 \<Rightarrow> pve_guest list list \<Rightarrow> bool \<Rightarrow> int \<times> pve_runtime" where
  "pve_shutdown_start p cfg selftest_hours guests mutex_ok =
     (if p_started p then (0, p)
      else if \<not> mutex_ok then (- 1, p)
      else
        let p = p\<lparr>p_cfg := cfg, p_selftest_hours := selftest_hours, p_eng := engine_init\<rparr>;
            p = fold (sync_host guests) [0..<PVE_MAX_HOSTS] p
        in (0, p\<lparr>p_started := True\<rparr>))"

definition pve_shutdown_reconfigure :: "pve_runtime \<Rightarrow> pve_config \<Rightarrow> u16 \<Rightarrow> pve_guest list list \<Rightarrow> pve_runtime" where
  "pve_shutdown_reconfigure p cfg selftest_hours guests =
     (if \<not> p_started p then p
      else fold (\<lambda>i p. prune_guest_last i (sync_host guests i p)) [0..<PVE_MAX_HOSTS]
             (p\<lparr>p_cfg := cfg, p_selftest_hours := selftest_hours\<rparr>))"

text \<open>The inner loop of \<^verbatim>\<open>pve_shutdown_observe\<close> over one host's guests: what is appended to the queue.\<close>

fun queue_fired :: "(nat \<Rightarrow> bool) \<Rightarrow> nat \<Rightarrow> pve_guest_engine list \<Rightarrow> pending_guest list \<Rightarrow> pending_guest list" where
  "queue_fired A i [] q = q"
| "queue_fired A i (gs # rest) q =
     queue_fired A i rest
       (if ge_fired_now gs \<and> A (length q + 1)
        then q @ [\<lparr>pg_host = i, pg_id = ge_id gs, pg_reason = strlcpy 96 (ge_reason gs)\<rparr>] else q)"

definition to_obs :: "bool \<Rightarrow> bool \<Rightarrow> int \<Rightarrow> pve_obs" where
  "to_obs known on_mains soc =
     \<lparr>obs_power = (if \<not> known then PVE_PWR_UNKNOWN else if on_mains then PVE_PWR_LINE else PVE_PWR_BATTERY),
      obs_soc_pct = (if known then soc else - 1)\<rparr>"

text \<open>\<open>task_ok\<close> is whether a worker can be created; the second result is whether one was.\<close>

definition pve_shutdown_observe ::
    "(nat \<Rightarrow> bool) \<Rightarrow> bool \<Rightarrow> pve_runtime \<Rightarrow> bool \<Rightarrow> bool \<Rightarrow> int \<Rightarrow> int \<Rightarrow> pve_runtime \<times> bool" where
  "pve_shutdown_observe A task_ok p known on_mains soc now =
     (if \<not> p_started p then (p, False)
      else
        let (eng, hosts) = pve_eval (p_cfg p) (p_guests p) (p_eng p) (to_obs known on_mains soc) now;
            any = (hosts \<noteq> 0 \<or> (\<exists>i \<in> set [0..<PVE_MAX_HOSTS]. \<exists>g \<in> set (e_guests eng ! i). ge_fired_now g));
            p = p\<lparr>p_eng := eng,
                  p_pending_guests := fold (\<lambda>i. queue_fired A i (e_guests eng ! i)) [0..<PVE_MAX_HOSTS] (p_pending_guests p)\<rparr>
        in if \<not> any then (p, False)
           else
             let start = \<not> p_running p;
                 p = p\<lparr>p_pending_hosts := p_pending_hosts p OR hosts, p_running := True\<rparr>
             in if \<not> start then (p, False)
                else if task_ok then (p, True) else (p\<lparr>p_running := False\<rparr>, False))"

record pve_host_status =
  hs_node :: string
  hs_enabled :: bool
  hs_pinned :: bool
  hs_fired :: bool
  hs_countdown_s :: int
  hs_last :: string
  hs_last_ok :: bool
  hs_last_checked_s :: int

record pve_status =
  st_enabled :: bool
  st_armed :: bool
  st_on_battery_s :: int
  st_hosts :: "pve_host_status list"

definition host_status :: "pve_runtime \<Rightarrow> int \<Rightarrow> nat \<Rightarrow> pve_host_status" where
  "host_status p now i =
     (let h = c_hosts (p_cfg p) ! i
      in \<lparr>hs_node = strlcpy 32 (h_node h), hs_enabled = h_enabled h \<and> h_url h \<noteq> [], hs_pinned = h_fingerprint h \<noteq> [],
          hs_fired = e_fired (p_eng p) ! i, hs_countdown_s = pve_countdown_s (p_cfg p) (p_eng p) (int i) now,
          hs_last = strlcpy 128 (fst (p_host_last p ! i)), hs_last_ok = snd (p_host_last p ! i),
          hs_last_checked_s = (if p_host_last_test_us p ! i \<noteq> 0 then (now - p_host_last_test_us p ! i) div 1000000 else - 1)\<rparr>)"

definition pve_shutdown_status :: "pve_runtime \<Rightarrow> int \<Rightarrow> pve_status" where
  "pve_shutdown_status p now =
     (if \<not> p_started p
      then \<lparr>st_enabled = False, st_armed = False, st_on_battery_s = - 1,
            st_hosts = replicate PVE_MAX_HOSTS \<lparr>hs_node = [], hs_enabled = False, hs_pinned = False, hs_fired = False,
              hs_countdown_s = - 1, hs_last = [], hs_last_ok = False, hs_last_checked_s = 0\<rparr>\<rparr>
      else \<lparr>st_enabled = c_enabled (p_cfg p), st_armed = c_armed (p_cfg p),
            st_on_battery_s = (if e_on_battery (p_eng p) then (now - e_on_battery_since_us (p_eng p)) div 1000000 else - 1),
            st_hosts = map (host_status p now) [0..<PVE_MAX_HOSTS]\<rparr>)"

record pve_guest_status =
  gs_id :: int
  gs_fired :: bool
  gs_countdown_s :: int
  gs_last :: string
  gs_last_ok :: bool

definition guest_status_of :: "pve_runtime \<Rightarrow> int \<Rightarrow> nat \<Rightarrow> pve_guest \<Rightarrow> pve_guest_status" where
  "guest_status_of p now i g =
     \<lparr>gs_id = g_id g,
      gs_fired = (case find_guest_state (e_guests (p_eng p) ! i) (g_id g) of Some e \<Rightarrow> ge_fired e | None \<Rightarrow> False),
      gs_countdown_s = pve_guest_countdown_s (p_cfg p) (p_eng p) (p_guests p ! i) (int i) (g_id g) now,
      gs_last = (case find (\<lambda>l. gl_id l = g_id g) (p_guest_last p ! i) of Some l \<Rightarrow> strlcpy 64 (gl_text l) | None \<Rightarrow> []),
      gs_last_ok = (case find (\<lambda>l. gl_id l = g_id g) (p_guest_last p ! i) of Some l \<Rightarrow> gl_ok l | None \<Rightarrow> True)\<rparr>"

definition pve_shutdown_guest_status :: "(nat \<Rightarrow> bool) \<Rightarrow> pve_runtime \<Rightarrow> int \<Rightarrow> int \<Rightarrow> pve_guest_status list" where
  "pve_shutdown_guest_status A p i now =
     (if i < 0 \<or> i \<ge> int PVE_MAX_HOSTS \<or> \<not> p_started p then []
      else if p_guests p ! nat i \<noteq> [] \<and> \<not> A (length (p_guests p ! nat i)) then []
      else map (guest_status_of p now (nat i)) (p_guests p ! nat i))"

section \<open>Connection test and guest list\<close>

text \<open>Values of the JSON library as its callers see them; \<open>J\<close> is its parser. Members are looked up
  without regard to case, as \<^verbatim>\<open>cJSON_GetObjectItem\<close> does.\<close>

datatype json = JNull | JTrue | JFalse | JNum int | JStr string | JArr "json list" | JObj "(string \<times> json) list"

fun json_get :: "json \<Rightarrow> string \<Rightarrow> json option" where
  "json_get (JObj ms) name = map_option snd (find (\<lambda>m. strcaseeq (fst m) name) ms)"
| "json_get _ name = None"

definition has_priv :: "json \<Rightarrow> string \<Rightarrow> string \<Rightarrow> bool" where
  "has_priv data path priv =
     (case json_get data path of None \<Rightarrow> False
      | Some p \<Rightarrow>
          (case json_get p priv of None \<Rightarrow> False
           | Some v \<Rightarrow> (case v of JNum n \<Rightarrow> n \<noteq> 0 | JTrue \<Rightarrow> True | _ \<Rightarrow> False)))"

definition version_text :: "(string \<Rightarrow> json option) \<Rightarrow> string \<Rightarrow> string" where
  "version_text J resp =
     (case J resp of None \<Rightarrow> ''?''
      | Some j \<Rightarrow>
          (case json_get j ''data'' of None \<Rightarrow> ''?''
           | Some d \<Rightarrow> (case json_get d ''version'' of Some (JStr v) \<Rightarrow> strlcpy 24 v | _ \<Rightarrow> ''?'')))"

definition test_privileges :: "nat \<Rightarrow> pve_host \<Rightarrow> pve_guest list \<Rightarrow> string \<Rightarrow> bool \<Rightarrow> json \<Rightarrow> int \<times> string" where
  "test_privileges msg_sz h guests ver trusted_now d =
     (let node_ok = (\<not> h_shutdown_node h \<or> has_priv d ''/'' ''Sys.PowerMgmt'' \<or> has_priv d ''/nodes'' ''Sys.PowerMgmt'' \<or>
                     has_priv d (snprintf_buf 48 (''/nodes/'' @ h_node h)) ''Sys.PowerMgmt'');
          missing = length (filter (\<lambda>g. \<not> has_priv d ''/'' ''VM.PowerMgmt'' \<and> \<not> has_priv d ''/vms'' ''VM.PowerMgmt'' \<and>
                     \<not> has_priv d (snprintf_buf 24 (''/vms/'' @ show_int (g_id g))) ''VM.PowerMgmt'') guests)
      in if node_ok \<and> missing = 0
         then (0, snprintf_buf msg_sz (''PVE '' @ ver @ '': Sys.PowerMgmt ok'' @
                (if guests \<noteq> [] then '', VM.PowerMgmt ok for the guests'' else [])))
         else (1, snprintf_buf msg_sz
                ((if trusted_now then ''Certificate trusted. '' else []) @ ''PVE '' @ ver @ '' reachable, but '' @
                 (if node_ok then [] else ''Sys.PowerMgmt not confirmed on /nodes'') @
                 (if \<not> node_ok \<and> missing \<noteq> 0 then ''; '' else []) @
                 (if missing \<noteq> 0 then ''VM.PowerMgmt missing for some guests'' else []))))"

text \<open>The first request, and the second one when the first only reported the certificate: whether the
  certificate was trusted just now, the host, the fingerprint to show and the answer.\<close>

definition test_connect ::
    "tls_env \<Rightarrow> pve_host \<Rightarrow> tls_state \<Rightarrow> bool \<times> pve_host \<times> string \<times> (req_result \<times> string \<times> string) \<times> tls_state" where
  "test_connect T h ts =
     (case tls_request T h ''/version'' None RESP_MAX [] 80 [] ts of ((r, err, resp), ts) \<Rightarrow>
        if rq_status r = 0 then
          let h = h\<lparr>h_fingerprint := strlcpy 65 (rq_seen_fp r)\<rparr>
          in case tls_request T h ''/version'' None RESP_MAX resp 80 err ts of (a, ts) \<Rightarrow> (True, h, fp_pretty (rq_seen_fp r), a, ts)
        else (False, h, [], (r, err, resp), ts))"

definition test_permissions ::
    "(string \<Rightarrow> json option) \<Rightarrow> tls_env \<Rightarrow> nat \<Rightarrow> pve_host \<Rightarrow> pve_guest list \<Rightarrow> string \<Rightarrow> bool \<Rightarrow> string \<Rightarrow> string \<Rightarrow>
     tls_state \<Rightarrow> (int \<times> string) \<times> tls_state" where
  "test_permissions J T msg_sz h guests ver trusted_now resp err ts =
     (case tls_request T h ''/access/permissions'' None RESP_MAX resp 80 err ts of ((r, err, resp), ts) \<Rightarrow>
        if rq_status r \<noteq> 200
        then ((1, snprintf_buf msg_sz (''PVE '' @ ver @ '' reachable, but /access/permissions: HTTP '' @ show_int (rq_status r))), ts)
        else
          case (case J resp of None \<Rightarrow> None | Some j \<Rightarrow> json_get j ''data'') of
            None \<Rightarrow> ((1, snprintf_buf msg_sz (''PVE '' @ ver @ '' reachable, permissions reply unreadable '' @
                      ''(too long? the token should carry one role)'')), ts)
          | Some d \<Rightarrow> (test_privileges msg_sz h guests ver trusted_now d, ts))"

text \<open>The result, the message, the fingerprint shown to the user and the host, whose fingerprint the
  first test fills in.\<close>

definition pve_shutdown_test ::
    "(string \<Rightarrow> json option) \<Rightarrow> tls_env \<Rightarrow> bool \<Rightarrow> nat \<Rightarrow> pve_host \<Rightarrow> pve_guest list \<Rightarrow> tls_state \<Rightarrow>
     (int \<times> string \<times> string \<times> pve_host) \<times> tls_state" where
  "pve_shutdown_test J T malloc_ok msg_sz h guests ts =
     (if \<not> malloc_ok then ((- 1, snprintf_buf msg_sz ''out of memory'', [], h), ts)
      else
        case test_connect T h ts of (trusted_now, h, seen_fp, (r, err, resp), ts) \<Rightarrow>
          if rq_status r \<noteq> 200
          then ((- 1, snprintf_buf msg_sz ((if trusted_now then ''Certificate trusted. '' else []) @ ''GET /version: '' @
                  describe (rq_status r) err 80), seen_fp, h), ts)
          else
            case test_permissions J T msg_sz h guests (version_text J resp) trusted_now resp err ts of ((ret, msg), ts) \<Rightarrow>
              ((ret, msg, seen_fp, h), ts))"

definition selftest_idle :: "pve_runtime \<Rightarrow> bool" where
  "selftest_idle p \<longleftrightarrow> \<not> c_enabled (p_cfg p) \<or> p_selftest_hours p = 0 \<or> e_on_battery (p_eng p)"

text \<open>One host of a self-test round; \<open>cfg\<close>, \<open>hours\<close> and \<open>now\<close> are from the start of the round. The
  second result is whether the round ends.\<close>

definition selftest_host ::
    "(nat \<Rightarrow> bool) \<Rightarrow> (string \<Rightarrow> json option) \<Rightarrow> tls_env \<Rightarrow> bool \<Rightarrow> pve_config \<Rightarrow> u16 \<Rightarrow> int \<Rightarrow> int \<Rightarrow> nat \<Rightarrow>
     seq_state \<Rightarrow> seq_state \<times> bool" where
  "selftest_host A J T malloc_ok cfg hours now done_us i s =
     (let (p, ts) = s; hc = c_hosts cfg ! i; last_us = p_host_last_test_us p ! i
      in if \<not> h_enabled hc \<or> h_url hc = [] \<or> h_fingerprint hc = [] then (s, False)
         else if e_on_battery (p_eng p) then (s, True)
         else if last_us \<noteq> 0 \<and> now - last_us < uint hours * 3600 * 1000000 then (s, False)
         else
           let guests = (if A (length (p_guests p ! i)) then p_guests p ! i else [])
           in case pve_shutdown_test J T malloc_ok 200 hc guests ts of ((ret, msg, _, _), ts) \<Rightarrow>
                ((pve_shutdown_note_test i (ret = 0) msg done_us p, ts), False))"

definition clean_name :: "string \<Rightarrow> string" where
  "clean_name s = map (\<lambda>c. if c = CHR 0x22 \<or> c = CHR 0x5C \<or> ord c < 32 then CHR ''_'' else c) (take 38 s)"

definition guest_item :: "string \<Rightarrow> bool \<Rightarrow> int \<Rightarrow> json \<Rightarrow> string" where
  "guest_item kind first ident g =
     (let q = [CHR 0x22]
      in (if first then [] else '','') @ ''{'' @ q @ ''id'' @ q @ '':'' @ show_int ident @ '','' @ q @ ''name'' @ q @ '':'' @ q @
         (case json_get g ''name'' of Some (JStr n) \<Rightarrow> clean_name n | _ \<Rightarrow> []) @ q @ '','' @ q @ ''type'' @ q @ '':'' @ q @ kind @ q @
         '','' @ q @ ''status'' @ q @ '':'' @ q @ (case json_get g ''status'' of Some (JStr t) \<Rightarrow> t | _ \<Rightarrow> []) @ q @ ''}'')"

text \<open>The text so far, whether the next item is the first, and the count; an item that does not fit ends
  the loop.\<close>

fun list_items :: "string \<Rightarrow> nat \<Rightarrow> json list \<Rightarrow> string \<times> bool \<times> nat \<Rightarrow> string \<times> bool \<times> nat" where
  "list_items kind out_sz [] acc = acc"
| "list_items kind out_sz (g # gs) (out, first, n) =
     (case json_get g ''vmid'' of
        Some (JNum ident) \<Rightarrow>
          (let w = guest_item kind first ident g
           in if length w \<ge> out_sz - length out then (out, first, n)
              else list_items kind out_sz gs (out @ w, False, Suc n))
      | _ \<Rightarrow> list_items kind out_sz gs (out, first, n))"

definition list_kind ::
    "(string \<Rightarrow> json option) \<Rightarrow> tls_env \<Rightarrow> bool \<Rightarrow> pve_host \<Rightarrow> string \<Rightarrow> nat \<Rightarrow> string \<Rightarrow> bool \<Rightarrow> string \<Rightarrow> nat \<Rightarrow> tls_state \<Rightarrow>
     (string + string \<times> bool \<times> nat) \<times> tls_state" where
  "list_kind J T malloc_ok h kind out_sz out first err esz ts =
     (let path = snprintf_buf 64 (''/nodes/'' @ h_node h @ ''/'' @ kind)
      in if \<not> malloc_ok then (Inl (snprintf_buf esz ''out of memory''), ts)
         else case tls_request T h path None PVE_GUEST_RESP_MAX [] esz err ts of ((r, err, resp), ts) \<Rightarrow>
           if rq_status r \<noteq> 200
           then (Inl (snprintf_buf esz (''GET '' @ path @ '': '' @ describe (rq_status r) err 80)), ts)
           else case (case J resp of None \<Rightarrow> None | Some j \<Rightarrow> json_get j ''data'') of
                  Some (JArr items) \<Rightarrow> (Inr (list_items kind out_sz items (out, first, 0)), ts)
                | _ \<Rightarrow> (Inl (snprintf_buf esz (''GET '' @ path @ '': reply unreadable (too many guests for this buffer?)'')), ts))"

text \<open>The error text, or the JSON and the number of guests.\<close>

definition pve_shutdown_list_guests ::
    "(string \<Rightarrow> json option) \<Rightarrow> tls_env \<Rightarrow> bool \<Rightarrow> pve_host \<Rightarrow> nat \<Rightarrow> nat \<Rightarrow> tls_state \<Rightarrow> (string + string \<times> nat) \<times> tls_state" where
  "pve_shutdown_list_guests J T malloc_ok h json_sz esz ts =
     (if h_fingerprint h = [] then (Inl (snprintf_buf esz ''pin the certificate first (Test)''), ts)
      else
        case list_kind J T malloc_ok h ''qemu'' (json_sz - 2) ''['' True [] esz ts of
          (Inl e, ts) \<Rightarrow> (Inl e, ts)
        | (Inr (out, first, a), ts) \<Rightarrow>
            (case list_kind J T malloc_ok h ''lxc'' (json_sz - 2) out first [] esz ts of
               (Inl e, ts) \<Rightarrow> (Inl e, ts)
             | (Inr (out, first, b), ts) \<Rightarrow> (Inr (out @ '']'', a + b), ts)))"

section \<open>What goes out on the network\<close>

text \<open>From \<open>ts\<close> to \<open>ts'\<close> only requests to a server that presented the certificate pinned as \<open>fp\<close>
  were written, and at most \<open>n\<close> connections were made.\<close>

definition sent_with :: "string \<Rightarrow> nat \<Rightarrow> tls_state \<Rightarrow> tls_state \<Rightarrow> bool" where
  "sent_with fp n ts ts' \<longleftrightarrow>
     (\<exists>xs. ts_sent ts' = ts_sent ts @ xs \<and> (\<forall>x \<in> set xs. fst x = fp \<and> fp \<noteq> [])) \<and> ts_k ts' \<le> ts_k ts + n"

lemma sent_with_refl [simp, intro]: "sent_with fp n ts ts"
  by (auto simp: sent_with_def)

lemma sent_with_trans: "sent_with fp m a b \<Longrightarrow> sent_with fp n b c \<Longrightarrow> m + n \<le> r \<Longrightarrow> sent_with fp r a c"
  by (fastforce simp: sent_with_def)

lemma sent_with_mono: "sent_with fp m a b \<Longrightarrow> m \<le> n \<Longrightarrow> sent_with fp n a b"
  by (auto simp: sent_with_def)

lemma tls_request_sent: "sent_with (h_fingerprint h) 1 ts (snd (tls_request T h path body rsz resp esz err ts))"
  by (auto simp: tls_request_def sent_with_def Let_def split: option.split tls_handshake.split prod.split)

lemma guest_kinds_sent: "sent_with (h_fingerprint h) (length ks) ts (snd (guest_kinds T h ident ks st err ts))"
proof (induction ks arbitrary: st err ts)
  case (Cons k ks)
  let ?path = "snprintf_buf 96 (''/nodes/'' @ h_node h @ ''/'' @ k @ ''/'' @ show_int ident @ ''/status/shutdown'')"
  obtain r e b t where rq: "tls_request T h ?path (Some []) 0 [] 64 err ts = ((r, e, b), t)" by (metis prod.exhaust)
  have s: "sent_with (h_fingerprint h) 1 ts t" using tls_request_sent [of h ts T ?path "Some []" 0 "[]" 64 err] rq by simp
  show ?case
    unfolding guest_kinds.simps Let_def rq prod.case
    using Cons [of t "rq_status r" e] s by (auto intro: sent_with_trans sent_with_mono)
qed simp

lemma node_names_sent: "sent_with (h_fingerprint h) (length ks) ts (snd (node_names T h ks st err ts))"
proof (induction ks arbitrary: st err ts)
  case (Cons k ks)
  let ?path = "snprintf_buf 64 (''/nodes/'' @ k @ ''/status'')"
  obtain r e b t where rq: "tls_request T h ?path (Some ''command=shutdown'') 0 [] 64 err ts = ((r, e, b), t)" by (metis prod.exhaust)
  have s: "sent_with (h_fingerprint h) 1 ts t"
    using tls_request_sent [of h ts T ?path "Some ''command=shutdown''" 0 "[]" 64 err] rq by simp
  show ?case
    unfolding node_names.simps rq prod.case
    using Cons [of t "rq_status r" e] s by (auto intro: sent_with_trans sent_with_mono)
qed simp

lemma node_attempts_sent: "sent_with (h_fingerprint h) (2 * n) ts (snd (node_attempts T h n st err ts))"
proof (induction n arbitrary: st err ts)
  case (Suc n)
  let ?ks = "h_node h # (if h_node h = ''localhost'' then [] else [''localhost''])"
  obtain o1 t where nn: "node_names T h ?ks st err ts = (o1, t)" by fastforce
  have s: "sent_with (h_fingerprint h) 2 ts t"
    using node_names_sent [of h ?ks ts T st err] nn by (auto intro: sent_with_mono split: if_splits)
  show ?case
  proof (cases o1)
    case None
    show ?thesis unfolding node_attempts.simps nn prod.case None option.case using s by (auto intro: sent_with_mono)
  next
    case (Some x)
    obtain st' err' where x: "x = (st', err')" by fastforce
    show ?thesis unfolding node_attempts.simps nn prod.case Some x option.case
      by (rule sent_with_trans [OF s Suc]) simp
  qed
qed simp

lemma shutdown_guest_sent: "sent_with (h_fingerprint h) 2 ts (snd (shutdown_guest T h ident ts))"
  using guest_kinds_sent [of h "[''qemu'', ''lxc'']" ts T ident "- 1" "[]"]
  by (auto simp del: guest_kinds.simps simp: numeral_2_eq_2 shutdown_guest_def split: prod.splits option.splits)

lemma shutdown_node_sent: "sent_with (h_fingerprint h) 6 ts (snd (shutdown_node T h ts))"
  using node_attempts_sent [of h NODE_ATTEMPTS ts T "- 1" "[]"]
  by (auto simp del: node_attempts.simps simp: shutdown_node_def split: prod.splits option.splits)

lemma run_guest_sent: "sent_with (h_fingerprint h) 2 (snd s) (snd (run_guest A T i h b s))"
  using shutdown_guest_sent [of h "snd s" T "pg_id b"]
  by (auto simp: run_guest_def Let_def split: prod.splits option.splits)

lemma run_node_sent: "sent_with (h_fingerprint h) 6 (snd s) (snd (run_node T i h r s))"
  using shutdown_node_sent [of h "snd s" T]
  by (auto simp: run_node_def Let_def split: prod.splits option.splits)

lemma fold_runtime_net [simp]: "snd (fold (\<lambda>b. on_runtime (f b)) bs s) = snd s"
  by (induction bs arbitrary: s) (auto simp: on_runtime_def)

lemma fold_guests_sent: "sent_with (h_fingerprint h) (2 * length bs) (snd s) (snd (fold (run_guest A T i h) bs s))"
proof (induction bs arbitrary: s)
  case (Cons b bs)
  show ?case using sent_with_trans [OF run_guest_sent Cons] by simp
qed simp

lemma run_host_sent:
  "sent_with (h_fingerprint (c_hosts cfg ! i)) (2 * length batch + 6) (snd s) (snd (run_host A T i cfg np batch r s))"
  "\<not> (h_enabled (c_hosts cfg ! i) \<and> h_url (c_hosts cfg ! i) \<noteq> [] \<and> c_armed cfg \<and> h_fingerprint (c_hosts cfg ! i) \<noteq> []) \<Longrightarrow>
     snd (run_host A T i cfg np batch r s) = snd s"
proof -
  let ?h = "c_hosts cfg ! i"
  have g: "sent_with (h_fingerprint ?h) (2 * length batch) (snd s) (snd (fold (run_guest A T i ?h) batch s))"
    by (rule fold_guests_sent)
  show "sent_with (h_fingerprint ?h) (2 * length batch + 6) (snd s) (snd (run_host A T i cfg np batch r s))"
    using g sent_with_trans [OF g run_node_sent, of "2 * length batch + 6"]
    by (auto simp: run_host_def Let_def on_runtime_def intro: sent_with_mono)
qed (auto simp: run_host_def Let_def on_runtime_def)

text \<open>C3: However the network and the servers behave, a host's shutdown sequence writes requests, and
  with them the API token, only to a server whose certificate has the fingerprint pinned for the host;
  nothing at all is opened for a host that is off, has no address or no pinned certificate, or while
  the feature is in dry run; and the sequence makes at most two connections per guest and six for the
  node.\<close>

theorem shutdown_only_to_pinned_host:
  shows "(\<exists>xs. ts_sent (snd (run_host A T i cfg np batch r s)) = ts_sent (snd s) @ xs \<and>
      (\<forall>x \<in> set xs. fst x = h_fingerprint (c_hosts cfg ! i) \<and> h_fingerprint (c_hosts cfg ! i) \<noteq> [])) \<and>
    ts_k (snd (run_host A T i cfg np batch r s)) \<le> ts_k (snd s) + 2 * length batch + 6 \<and>
    (\<not> (h_enabled (c_hosts cfg ! i) \<and> h_url (c_hosts cfg ! i) \<noteq> [] \<and> c_armed cfg \<and> h_fingerprint (c_hosts cfg ! i) \<noteq> []) \<longrightarrow>
       snd (run_host A T i cfg np batch r s) = snd s)"
  using run_host_sent(1) [where cfg = cfg and i = i and batch = batch and s = s and A = A and T = T and np = np and r = r]
    run_host_sent(2) [where cfg = cfg and i = i and batch = batch and s = s and A = A and T = T and np = np and r = r]
  unfolding sent_with_def add.assoc by blast

definition ex_tls :: tls_env where
  "ex_tls = \<lparr>te_answer = (\<lambda>k. \<lparr>ta_handshake = PeerCert (Some [1]), ta_write_rc = 100, ta_malloc_ok = True,
     ta_read = Inr ''HTTP/1.1 200 OK''\<rparr>), te_sha256 = (\<lambda>x. replicate 32 0xAB)\<rparr>"

definition ex_pve :: pve_runtime where
  "ex_pve = \<lparr>p_cfg = ex_cfg, p_selftest_hours = 0, p_guests = replicate PVE_MAX_HOSTS [], p_eng = engine_init, p_started = False,
     p_running = False, p_pending_hosts = 0, p_pending_guests = [], p_host_last = replicate PVE_MAX_HOSTS ([], False),
     p_host_last_test_us = replicate PVE_MAX_HOSTS 0, p_guest_last = replicate PVE_MAX_HOSTS [], p_events = []\<rparr>"

theorem shutdown_only_to_pinned_host_witness:
  "snd (run_host (\<lambda>_. True) ex_tls 0 (ex_cfg\<lparr>c_armed := False\<rparr>) True [] ''x'' (ex_pve, \<lparr>ts_k = 0, ts_sent = []\<rparr>)) =
     \<lparr>ts_k = 0, ts_sent = []\<rparr>"
  using shutdown_only_to_pinned_host [of "\<lambda>_. True" ex_tls 0 "ex_cfg\<lparr>c_armed := False\<rparr>" True "[]" "''x''"
      "(ex_pve, \<lparr>ts_k = 0, ts_sent = []\<rparr>)"] by simp

lemma cert_fp_length: "length (cert_fp T raw) \<le> 64"
proof -
  have "length (concat (map hex2_upper xs)) = 2 * length xs" for xs by (induction xs) (auto simp: hex2_upper_def)
  then show ?thesis by (simp add: cert_fp_def)
qed

lemma reply_result_fp: "rq_seen_fp (fst (reply_result a n esz fp err resp)) = fp"
  by (auto simp: reply_result_def Let_def split: sum.split option.split)

lemma tls_request_shown:
  assumes "tls_request T h path body rsz resp esz err ts = ((r, err', resp'), ts')" "rq_status r = 0"
  shows "length (rq_seen_fp r) \<le> 64" "h_fingerprint h = [] \<and> ts_sent ts' = ts_sent ts \<or> h_fingerprint h = rq_seen_fp r"
proof -
  have "(\<exists>raw. rq_seen_fp r = cert_fp T raw) \<and> (h_fingerprint h = [] \<and> ts_sent ts' = ts_sent ts \<or> h_fingerprint h = rq_seen_fp r)"
    using assms reply_result_fp [where n = rsz and esz = esz and err = err and resp = resp]
    by (auto simp: tls_request_def Let_def split: option.splits tls_handshake.splits if_splits) (metis fst_conv)+
  then show "length (rq_seen_fp r) \<le> 64" "h_fingerprint h = [] \<and> ts_sent ts' = ts_sent ts \<or> h_fingerprint h = rq_seen_fp r"
    using cert_fp_length by (metis, blast)
qed

lemma test_permissions_sent:
  "sent_with (h_fingerprint h) 1 ts (snd (test_permissions J T msz h guests ver tn resp err ts))"
proof -
  obtain r e b t where q: "tls_request T h ''/access/permissions'' None RESP_MAX resp 80 err ts = ((r, e, b), t)"
    by (metis prod.exhaust)
  then have "snd (test_permissions J T msz h guests ver tn resp err ts) = t"
    by (simp add: test_permissions_def split: option.split)
  then show ?thesis
    using tls_request_sent [of h ts T "''/access/permissions''" None RESP_MAX resp 80 err] q by simp
qed

lemma test_connect_sent:
  assumes "test_connect T h ts = (tn, h', seen, a, t)"
  shows "sent_with (h_fingerprint h') 2 ts t" "h_fingerprint h \<noteq> [] \<Longrightarrow> h_fingerprint h' = h_fingerprint h"
proof -
  obtain r e b t1 where q: "tls_request T h ''/version'' None RESP_MAX [] 80 [] ts = ((r, e, b), t1)" by (metis prod.exhaust)
  have s1: "sent_with (h_fingerprint h) 1 ts t1"
    using tls_request_sent [of h ts T "''/version''" None RESP_MAX "[]" 80 "[]"] q by simp
  have "sent_with (h_fingerprint h') 2 ts t \<and> (h_fingerprint h \<noteq> [] \<longrightarrow> h_fingerprint h' = h_fingerprint h)"
  proof (cases "rq_status r = 0")
    case False
    then show ?thesis using assms s1 by (auto simp: test_connect_def q intro: sent_with_mono)
  next
    case True
    let ?h = "h\<lparr>h_fingerprint := strlcpy 65 (rq_seen_fp r)\<rparr>"
    have h': "h' = ?h" and t: "t = snd (tls_request T ?h ''/version'' None RESP_MAX b 80 e t1)"
      using assms True by (auto simp: test_connect_def q Let_def)
    note shown = tls_request_shown [OF q True]
    have keep: "h_fingerprint h \<noteq> [] \<longrightarrow> h_fingerprint ?h = h_fingerprint h" using shown by (auto simp: strlcpy_fits)
    have "sent_with (h_fingerprint ?h) 1 ts t1" using s1 shown(2) keep by (cases "h_fingerprint h = []") (auto simp: sent_with_def)
    moreover have "sent_with (h_fingerprint ?h) 1 t1 t" unfolding t using tls_request_sent [of ?h] by blast
    ultimately show ?thesis using sent_with_trans [of "h_fingerprint ?h" 1 ts t1 1 t 2] keep h' by simp
  qed
  then show "sent_with (h_fingerprint h') 2 ts t" "h_fingerprint h \<noteq> [] \<Longrightarrow> h_fingerprint h' = h_fingerprint h" by blast+
qed

text \<open>A connection test writes requests only to a server that presents one certificate, the one the
  host has pinned when it returns. If the host had a pin it keeps it; if not, the certificate of the
  first connection becomes the pin before anything is written, so a server that shows another
  certificate on a later connection of the same test gets nothing.\<close>

theorem test_pins_before_sending:
  assumes "pve_shutdown_test J T ok msz h guests ts = ((ret, msg, seen, h'), ts')"
  shows "(\<exists>xs. ts_sent ts' = ts_sent ts @ xs \<and> (\<forall>x \<in> set xs. fst x = h_fingerprint h' \<and> h_fingerprint h' \<noteq> [])) \<and>
    (h_fingerprint h \<noteq> [] \<longrightarrow> h_fingerprint h' = h_fingerprint h)"
proof (cases ok)
  case False
  then show ?thesis using assms by (auto simp: pve_shutdown_test_def)
next
  case True
  obtain tn hp sn r e b t where c: "test_connect T h ts = (tn, hp, sn, (r, e, b), t)" by (metis prod.exhaust)
  have "h' = hp \<and> (ts' = t \<or> ts' = snd (test_permissions J T msz hp guests (version_text J b) tn b e t))"
    using assms True by (auto simp: pve_shutdown_test_def c split: prod.splits if_splits)
  then have "sent_with (h_fingerprint h') 3 ts ts'"
    using test_connect_sent(1) [OF c] sent_with_trans [OF test_connect_sent(1) [OF c] test_permissions_sent, of 3]
    by (auto intro: sent_with_mono)
  then show ?thesis using test_connect_sent(2) [OF c] \<open>h' = hp \<and> _\<close> unfolding sent_with_def by blast
qed

theorem test_pins_before_sending_witness:
  "\<exists>ret msg seen h' ts'. pve_shutdown_test (\<lambda>_. None) ex_tls True 200 (ex_host\<lparr>h_fingerprint := [], h_url := ''https://10.0.0.1''\<rparr>) []
      \<lparr>ts_k = 0, ts_sent = []\<rparr> = ((ret, msg, seen, h'), ts') \<and> ts_sent ts' \<noteq> [] \<and>
    (\<exists>xs. ts_sent ts' = xs \<and> (\<forall>x \<in> set xs. fst x = h_fingerprint h'))"
proof -
  let ?t = "pve_shutdown_test (\<lambda>_. None) ex_tls True 200 (ex_host\<lparr>h_fingerprint := [], h_url := ''https://10.0.0.1''\<rparr>) []
      \<lparr>ts_k = 0, ts_sent = []\<rparr>"
  obtain ret msg seen h' ts' where t: "?t = ((ret, msg, seen, h'), ts')" by (metis prod.exhaust)
  have "ts_sent (snd ?t) \<noteq> []" by code_simp
  then show ?thesis using test_pins_before_sending [OF t] t by auto
qed

section \<open>The queues\<close>

definition pending_left :: "pve_runtime \<Rightarrow> nat" where
  "pending_left p = length (filter (bit (p_pending_hosts p)) [0..<PVE_MAX_HOSTS]) + length (p_pending_guests p)"

lemma note_frame [simp]:
  "p_pending_hosts (note_host i ok t p) = p_pending_hosts p" "p_pending_guests (note_host i ok t p) = p_pending_guests p"
  "p_pending_hosts (note_guest A i g ok t p) = p_pending_hosts p" "p_pending_guests (note_guest A i g ok t p) = p_pending_guests p"
  "p_pending_hosts (pve_emit k t p) = p_pending_hosts p" "p_pending_guests (pve_emit k t p) = p_pending_guests p"
  "p_cfg (note_host i ok t p) = p_cfg p" "p_eng (note_host i ok t p) = p_eng p"
  "p_cfg (note_guest A i g ok t p) = p_cfg p" "p_eng (note_guest A i g ok t p) = p_eng p"
  "p_cfg (pve_emit k t p) = p_cfg p" "p_eng (pve_emit k t p) = p_eng p"
  "p_running (note_host i ok t p) = p_running p" "p_running (note_guest A i g ok t p) = p_running p"
  "p_running (pve_emit k t p) = p_running p" "p_started (note_host i ok t p) = p_started p"
  "p_started (note_guest A i g ok t p) = p_started p" "p_started (pve_emit k t p) = p_started p"
  "p_guests (note_host i ok t p) = p_guests p" "p_guests (note_guest A i g ok t p) = p_guests p" "p_guests (pve_emit k t p) = p_guests p"
  by (simp_all add: note_host_def note_guest_def pve_emit_def)

text \<open>The part of the runtime a host's sequence does not touch.\<close>

definition core :: "pve_runtime \<Rightarrow> pve_config \<times> pve_engine \<times> pve_guest list list \<times> bool \<times> bool \<times> u32 \<times> pending_guest list" where
  "core p = (p_cfg p, p_eng p, p_guests p, p_started p, p_running p, p_pending_hosts p, p_pending_guests p)"

lemma core_frame [simp]:
  "core (note_host i ok t p) = core p" "core (note_guest A i g ok t p) = core p" "core (pve_emit k t p) = core p"
  "core (dry_guest A i h b p) = core p" "core (dry_node i h r p) = core p" "core (untrusted_node i h p) = core p"
  by (simp_all add: core_def dry_guest_def dry_node_def untrusted_node_def)

lemma fold_core: "(\<And>b s. core (fst (f b s)) = core (fst s)) \<Longrightarrow> core (fst (fold f bs s)) = core (fst s)"
  by (induction bs arbitrary: s) auto

lemma run_host_core [simp]: "core (fst (run_host A T i cfg np batch r s)) = core (fst s)"
proof -
  have "core (fst (run_guest A T i h b s)) = core (fst s)" for h b s
    by (auto simp: run_guest_def Let_def split: prod.splits option.splits)
  moreover have "core (fst (run_node T i h r s)) = core (fst s)" for h r s
    by (auto simp: run_node_def Let_def split: prod.splits option.splits)
  moreover have "core (fst (fold (\<lambda>b. on_runtime (dry_guest A i h b)) bs s)) = core (fst s)" for h bs s
    by (rule fold_core) (simp add: on_runtime_def)
  moreover have "core (fst (fold (\<lambda>b. on_runtime (skip_guest A i b)) bs s)) = core (fst s)" for bs s
    by (rule fold_core) (simp add: on_runtime_def skip_guest_def)
  ultimately show ?thesis
    using fold_core [of "run_guest A T i (c_hosts cfg ! i)"] by (auto simp: run_host_def Let_def on_runtime_def)
qed

lemma run_work_core [simp]: "core (fst (run_work A T w s)) = core (fst s)"
  by (simp add: run_work_def)

lemma pending_left_core: "core p = core q \<Longrightarrow> pending_left p = pending_left q"
  by (simp add: core_def pending_left_def)

lemma bit_clear [simp]: "bit (x AND NOT (2 ^ i) :: u32) j \<longleftrightarrow> bit x j \<and> j \<noteq> i"
proof (cases "j < 32")
  case True
  then show ?thesis by (auto simp: bit_and_iff bit_not_iff bit_exp_iff)
next
  case False
  then have "\<not> bit x j" by (intro notI) (auto dest: bit_imp_le_length)
  then show ?thesis by (simp add: bit_and_iff)
qed

lemma next_host_cases:
  assumes "next_host p = Some i"
  shows "(bit (p_pending_hosts p) i \<and> i < PVE_MAX_HOSTS) \<or> (\<exists>g \<in> set (p_pending_guests p). pg_host g = i)"
  using assms by (auto simp: next_host_def dest!: find_Some_mem split: option.splits list.splits)

lemma worker_pick_less:
  assumes "worker_pick A p = (Some w, p')"
  shows "pending_left p' < pending_left p"
proof -
  obtain i where i: "next_host p = Some i" using assms by (auto simp: worker_pick_def split: option.splits)
  have p': "p' = p\<lparr>p_pending_hosts := p_pending_hosts p AND NOT (push_bit i 1),
      p_pending_guests := filter (\<lambda>g. pg_host g \<noteq> i) (p_pending_guests p)\<rparr>"
    using assms i by (auto simp: worker_pick_def Let_def)
  have hosts: "filter (bit (p_pending_hosts p')) [0..<4] = filter (\<lambda>j. j \<noteq> i) (filter (bit (p_pending_hosts p)) [0..<4])"
    by (auto simp: p' intro!: filter_cong)
  consider "i \<in> set (filter (bit (p_pending_hosts p)) [0..<4])" | "\<exists>g \<in> set (p_pending_guests p). \<not> pg_host g \<noteq> i"
    using next_host_cases [OF i] by auto
  then show ?thesis
  proof cases
    case 1
    then have "length (filter (\<lambda>j. j \<noteq> i) (filter (bit (p_pending_hosts p)) [0..<4])) < length (filter (bit (p_pending_hosts p)) [0..<4])"
      by (intro length_filter_less) auto
    then show ?thesis unfolding pending_left_def hosts by (simp add: p' add_less_le_mono)
  next
    case 2
    then have "length (filter (\<lambda>g. pg_host g \<noteq> i) (p_pending_guests p)) < length (p_pending_guests p)"
      by (auto intro: length_filter_less)
    moreover have "length (filter (bit (p_pending_hosts p')) [0..<4]) \<le> length (filter (bit (p_pending_hosts p)) [0..<4])"
      unfolding hosts by (rule length_filter_le)
    ultimately show ?thesis by (simp add: pending_left_def p')
  qed
qed

text \<open>The worker on its own: it takes work out and runs it until nothing is left.\<close>

function worker_task :: "(nat \<Rightarrow> bool) \<Rightarrow> tls_env \<Rightarrow> seq_state \<Rightarrow> work list \<times> seq_state" where
  "worker_task A T s =
     (case worker_pick A (fst s) of
        (None, p) \<Rightarrow> ([], (p, snd s))
      | (Some w, p) \<Rightarrow> (case worker_task A T (run_work A T w (p, snd s)) of (ws, s) \<Rightarrow> (w # ws, s)))"
  by pat_completeness auto
termination
proof (relation "measure (\<lambda>(_, _, s). pending_left (fst s))", goal_cases)
  case (2 A T s o1 p w)
  then have "worker_pick A (fst s) = (Some w, p)" by simp
  from worker_pick_less [OF this] show ?case
    using pending_left_core [OF run_work_core [of A T w "(p, snd s)"]] by simp
qed simp

declare worker_task.simps [simp del]

lemma take_batch_all: "take_batch (\<lambda>_. True) i gs b = b @ filter (\<lambda>g. pg_host g = i) gs"
  by (induction gs arbitrary: b) auto

lemma worker_pick_work:
  assumes "worker_pick (\<lambda>_. True) p = (Some w, p')"
  shows "w_node_pending w = bit (p_pending_hosts p) (w_host w)"
    "w_batch w = filter (\<lambda>g. pg_host g = w_host w) (p_pending_guests p)"
    "\<And>k. bit (p_pending_hosts p') k \<longleftrightarrow> bit (p_pending_hosts p) k \<and> k \<noteq> w_host w"
    "p_pending_guests p' = filter (\<lambda>g. pg_host g \<noteq> w_host w) (p_pending_guests p)"
  using assms by (auto simp: worker_pick_def Let_def take_batch_all split: option.splits)

lemma worker_pick_none:
  assumes "worker_pick A p = (None, p')"
  shows "\<forall>k < PVE_MAX_HOSTS. \<not> bit (p_pending_hosts p) k" "p_pending_guests p = []" "p' = p\<lparr>p_running := False\<rparr>"
  using assms
  by (auto simp: worker_pick_def Let_def next_host_def find_None_iff split: option.splits list.splits)

lemma worker_task_drains:
  assumes "k < PVE_MAX_HOSTS"
  shows "(case worker_task (\<lambda>_. True) T s of (ws, s') \<Rightarrow>
    \<not> p_running (fst s') \<and> p_pending_guests (fst s') = [] \<and> \<not> bit (p_pending_hosts (fst s')) k \<and>
    length (filter (\<lambda>w. w_host w = k \<and> w_node_pending w) ws) = (if bit (p_pending_hosts (fst s)) k then 1 else 0) \<and>
    concat (map w_batch (filter (\<lambda>w. w_host w = k) ws)) = filter (\<lambda>g. pg_host g = k) (p_pending_guests (fst s)))"
proof (induction "\<lambda>_ :: nat. True" T s rule: worker_task.induct)
  case (1 T s)
  obtain o1 p where pk: "worker_pick (\<lambda>_. True) (fst s) = (o1, p)" by fastforce
  show ?case
  proof (cases o1)
    case None
    then show ?thesis using worker_pick_none [OF pk [unfolded None]] assms pk by (simp add: worker_task.simps [of _ T s])
  next
    case (Some w)
    obtain ws s' where wt: "worker_task (\<lambda>_. True) T (run_work (\<lambda>_. True) T w (p, snd s)) = (ws, s')"
      by (metis prod.exhaust)
    note wk = worker_pick_work [OF pk [unfolded Some]]
    have fr: "p_pending_hosts (fst (run_work (\<lambda>_. True) T w (p, snd s))) = p_pending_hosts p"
      "p_pending_guests (fst (run_work (\<lambda>_. True) T w (p, snd s))) = p_pending_guests p"
      using run_work_core [of "\<lambda>_. True" T w "(p, snd s)"] by (simp_all add: core_def)
    have res: "worker_task (\<lambda>_. True) T s = (w # ws, s')" by (simp add: worker_task.simps [of _ T s] pk Some wt)
    have ih: "\<not> p_running (fst s')" "p_pending_guests (fst s') = []" "\<not> bit (p_pending_hosts (fst s')) k"
      "length (filter (\<lambda>w. w_host w = k \<and> w_node_pending w) ws) = (if bit (p_pending_hosts p) k then 1 else 0)"
      "concat (map w_batch (filter (\<lambda>w. w_host w = k) ws)) = filter (\<lambda>g. pg_host g = k) (p_pending_guests p)"
      using "1.hyps" [OF pk [symmetric] Some] unfolding wt fr prod.case by blast+
    have "length (filter (\<lambda>w. w_host w = k \<and> w_node_pending w) (w # ws)) = (if bit (p_pending_hosts (fst s)) k then 1 else 0)"
      using ih(4) wk(1) wk(3) [of k] by (auto split: if_splits)
    moreover have "concat (map w_batch (filter (\<lambda>w. w_host w = k) (w # ws))) = filter (\<lambda>g. pg_host g = k) (p_pending_guests (fst s))"
    proof (cases "w_host w = k")
      case True
      then show ?thesis using ih(5) wk(2,4) by simp
    next
      case False
      then have "filter (\<lambda>g. pg_host g = k) (p_pending_guests p) = filter (\<lambda>g. pg_host g = k) (p_pending_guests (fst s))"
        unfolding wk(4) filter_filter by (intro filter_cong) auto
      then show ?thesis using False ih(5) by simp
    qed
    ultimately show ?thesis unfolding res prod.case using ih(1-3) by blast
  qed
qed

section \<open>Reachable runtimes\<close>

text \<open>Everything that touches the runtime, one hold of the lock at a time, when every worker can be
  created. \<open>Running\<close> work is the part between taking it out and the next hold; it changes nothing the
  invariant is about.\<close>

inductive pve_reachable :: "(nat \<Rightarrow> bool) \<Rightarrow> tls_env \<Rightarrow> pve_runtime \<Rightarrow> bool" for A T where
  start: "pve_reachable A T (snd (pve_shutdown_start p0 cfg hours guests True))"
    if "\<not> p_started p0" and "\<not> p_running p0" and "p_pending_hosts p0 = 0" and "p_pending_guests p0 = []"
      and "length (p_guests p0) = PVE_MAX_HOSTS"
| reconfigure: "pve_reachable A T p \<Longrightarrow> pve_reachable A T (pve_shutdown_reconfigure p cfg hours guests)"
| observe: "pve_reachable A T p \<Longrightarrow> pve_reachable A T (fst (pve_shutdown_observe A True p known on_mains soc now))"
| pick: "pve_reachable A T p \<Longrightarrow> p_running p \<Longrightarrow> pve_reachable A T (snd (worker_pick A p))"
| run: "pve_reachable A T p \<Longrightarrow> pve_reachable A T (fst (run_work A T w (p, ts)))"
| tested: "pve_reachable A T p \<Longrightarrow> pve_reachable A T (pve_shutdown_note_test i ok msg now p)"

definition runtime_inv :: "pve_runtime \<Rightarrow> bool" where
  "runtime_inv p \<longleftrightarrow>
     p_started p \<and> length (p_guests p) = PVE_MAX_HOSTS \<and> wf_engine (p_eng p) \<and>
     (\<not> c_enabled (p_cfg p) \<longrightarrow> (\<forall>gs \<in> set (e_guests (p_eng p)). \<forall>g \<in> set gs. \<not> ge_fired_now g)) \<and>
     (\<not> p_running p \<longrightarrow> p_pending_guests p = [] \<and> (\<forall>k < PVE_MAX_HOSTS. \<not> bit (p_pending_hosts p) k))"

lemma sync_none_now: "g \<in> set (pve_engine_sync_guests st ggs) \<Longrightarrow> \<not> ge_fired_now g"
  by (auto simp: pve_engine_sync_guests_def split: option.splits)

text \<open>After the loop over the hosts every guest list is a synced one.\<close>

lemma sync_host_frame [simp]:
  "p_cfg (sync_host gl i p) = p_cfg p" "p_started (sync_host gl i p) = p_started p" "p_running (sync_host gl i p) = p_running p"
  "p_pending_hosts (sync_host gl i p) = p_pending_hosts p" "p_pending_guests (sync_host gl i p) = p_pending_guests p"
  "length (p_guests (sync_host gl i p)) = length (p_guests p)" "wf_engine (p_eng (sync_host gl i p)) = wf_engine (p_eng p)"
  by (simp_all add: sync_host_def Let_def wf_engine_def)

lemma prune_frame [simp]:
  "p_cfg (prune_guest_last i p) = p_cfg p" "p_started (prune_guest_last i p) = p_started p"
  "p_running (prune_guest_last i p) = p_running p" "p_pending_hosts (prune_guest_last i p) = p_pending_hosts p"
  "p_pending_guests (prune_guest_last i p) = p_pending_guests p" "p_guests (prune_guest_last i p) = p_guests p"
  "p_eng (prune_guest_last i p) = p_eng p"
  by (simp_all add: prune_guest_last_def)

lemma four_hosts: "[0..<PVE_MAX_HOSTS] = [0, 1, 2, 3]"
  by (simp add: upt_rec)

lemma synced_guests:
  assumes "length (e_guests (p_eng p)) = 4" "\<And>i p. p_eng (f i p) = p_eng p" "\<And>i p. p_guests (f i p) = p_guests p"
  shows "\<forall>gs \<in> set (e_guests (p_eng (fold (\<lambda>i p. f i (sync_host gl i p)) [0..<PVE_MAX_HOSTS] p))). \<forall>g \<in> set gs. \<not> ge_fired_now g"
proof -
  obtain a b c d where "e_guests (p_eng p) = [a, b, c, d]"
    using assms(1) by (auto simp: numeral_eq_Suc length_Suc_conv)
  then show ?thesis unfolding four_hosts
    by (simp add: sync_host_def Let_def assms(2,3)) (auto dest: sync_none_now)
qed

lemma queue_fired_none: "(\<And>g. g \<in> set gs \<Longrightarrow> \<not> ge_fired_now g) \<Longrightarrow> queue_fired A i gs q = q"
  by (induction gs arbitrary: q) auto

lemma queue_all_none:
  "(\<And>i g. i \<in> set is \<Longrightarrow> g \<in> set (gss ! i) \<Longrightarrow> \<not> ge_fired_now g) \<Longrightarrow> fold (\<lambda>i. queue_fired A i (gss ! i)) is q = q"
proof (induction "is" arbitrary: q)
  case (Cons i "is")
  have "queue_fired A i (gss ! i) q = q" using Cons.prems by (intro queue_fired_none) auto
  moreover have "fold (\<lambda>i. queue_fired A i (gss ! i)) is q = q" by (rule Cons.IH) (use Cons.prems in auto)
  ultimately show ?case by simp
qed simp

text \<open>An observation that fires nothing leaves both queues and the running flag as they are.\<close>

lemma observe_cases:
  fixes A
  assumes "p_started p" "pve_eval (p_cfg p) (p_guests p) (p_eng p) (to_obs known m soc) now = (eng, hosts)"
  defines "fired \<equiv> hosts \<noteq> 0 \<or> (\<exists>i \<in> set [0..<PVE_MAX_HOSTS]. \<exists>g \<in> set (e_guests eng ! i). ge_fired_now g)"
  defines "q \<equiv> fold (\<lambda>i. queue_fired A i (e_guests eng ! i)) [0..<PVE_MAX_HOSTS] (p_pending_guests p)"
  shows "fst (pve_shutdown_observe A True p known m soc now) =
    (if fired then p\<lparr>p_eng := eng, p_pending_guests := q, p_pending_hosts := p_pending_hosts p OR hosts, p_running := True\<rparr>
     else p\<lparr>p_eng := eng\<rparr>)"
proof (cases fired)
  case True
  then show ?thesis using assms by (simp add: pve_shutdown_observe_def Let_def)
next
  case False
  then have "q = p_pending_guests p" unfolding q_def fired_def by (intro queue_all_none) blast
  then show ?thesis using False assms by (simp add: pve_shutdown_observe_def Let_def)
qed

lemma observe_inv:
  assumes "runtime_inv p"
  shows "runtime_inv (fst (pve_shutdown_observe A True p known m soc now))"
proof -
  obtain eng hosts where e: "pve_eval (p_cfg p) (p_guests p) (p_eng p) (to_obs known m soc) now = (eng, hosts)" by fastforce
  have wf: "wf_engine eng" using pve_eval_wf [of "p_eng p"] e assms by (metis fst_conv runtime_inv_def)
  have off: "\<not> c_enabled (p_cfg p) \<Longrightarrow> e_guests eng = e_guests (p_eng p)"
    using e by (auto simp: pve_eval_disabled)
  have st: "p_started p" using assms by (simp add: runtime_inv_def)
  show ?thesis
    using assms wf off unfolding observe_cases [OF st e] runtime_inv_def by (auto split: if_splits)
qed

lemma sync_hosts_frame:
  "p_cfg (fold (sync_host gl) is p) = p_cfg p \<and> p_started (fold (sync_host gl) is p) = p_started p \<and>
    p_running (fold (sync_host gl) is p) = p_running p \<and> p_pending_hosts (fold (sync_host gl) is p) = p_pending_hosts p \<and>
    p_pending_guests (fold (sync_host gl) is p) = p_pending_guests p \<and>
    length (p_guests (fold (sync_host gl) is p)) = length (p_guests p) \<and>
    wf_engine (p_eng (fold (sync_host gl) is p)) = wf_engine (p_eng p)"
  by (induction "is" arbitrary: p) auto

lemma sync_prune_frame:
  fixes gl
  defines "f \<equiv> \<lambda>i p. prune_guest_last i (sync_host gl i p)"
  shows "p_cfg (fold f is p) = p_cfg p \<and> p_started (fold f is p) = p_started p \<and> p_running (fold f is p) = p_running p \<and>
    p_pending_hosts (fold f is p) = p_pending_hosts p \<and> p_pending_guests (fold f is p) = p_pending_guests p \<and>
    length (p_guests (fold f is p)) = length (p_guests p) \<and> wf_engine (p_eng (fold f is p)) = wf_engine (p_eng p)"
  by (induction "is" arbitrary: p) (auto simp: f_def)

lemma reachable_runtime: "pve_reachable A T p \<Longrightarrow> runtime_inv p"
proof (induction rule: pve_reachable.induct)
  case (start p0 cfg hours guests)
  let ?p = "p0\<lparr>p_cfg := cfg, p_selftest_hours := hours, p_eng := engine_init\<rparr>"
  have "length (e_guests (p_eng ?p)) = 4" by (simp add: engine_init_def)
  from synced_guests [OF this, of "\<lambda>i p. p" guests]
  have off: "\<forall>gs \<in> set (e_guests (p_eng (fold (sync_host guests) [0..<PVE_MAX_HOSTS] ?p))). \<forall>g \<in> set gs. \<not> ge_fired_now g"
    by simp
  then show ?case
    using start by (simp add: pve_shutdown_start_def Let_def runtime_inv_def sync_hosts_frame)
next
  case (reconfigure p cfg hours guests)
  let ?p = "p\<lparr>p_cfg := cfg, p_selftest_hours := hours\<rparr>"
  have inv: "runtime_inv p" by (rule reconfigure.IH)
  then have "length (e_guests (p_eng ?p)) = 4" by (simp add: runtime_inv_def wf_engine_def)
  from synced_guests [OF this, of prune_guest_last guests]
  have off: "\<forall>gs \<in> set (e_guests (p_eng (fold (\<lambda>i p. prune_guest_last i (sync_host guests i p)) [0..<PVE_MAX_HOSTS] ?p))).
      \<forall>g \<in> set gs. \<not> ge_fired_now g" by simp
  then show ?case
    using inv by (simp add: pve_shutdown_reconfigure_def runtime_inv_def sync_prune_frame)
next
  case (pick p)
  show ?case
  proof (cases "worker_pick A p")
    case (Pair o1 p')
    show ?thesis
    proof (cases o1)
      case None
      note none = worker_pick_none [OF Pair [unfolded None]]
      show ?thesis using none(1,2) pick.IH by (simp add: Pair none(3) runtime_inv_def)
    next
      case (Some w)
      then have "p_running p' = p_running p \<and> p_started p' = p_started p \<and> p_guests p' = p_guests p \<and> p_eng p' = p_eng p \<and> p_cfg p' = p_cfg p"
        using Pair by (auto simp: worker_pick_def Let_def split: option.splits)
      then show ?thesis using Pair pick by (simp add: runtime_inv_def)
    qed
  qed
next
  case (observe p known on_mains soc now)
  then show ?case by (blast intro: observe_inv)
next
  case (run p w ts)
  then show ?case using run_work_core [of A T w "(p, ts)"] by (simp add: core_def runtime_inv_def)
next
  case (tested p i ok msg now)
  then show ?case by (simp add: pve_shutdown_note_test_def runtime_inv_def Let_def)
qed

section \<open>Properties of the runtime\<close>

text \<open>C39: As long as a worker can be created, work is never stranded: on every reachable runtime,
  whenever no worker runs both queues are empty. While the feature is off no guest is marked as just
  fired, so an observation then queues nothing, even right after an evaluation that fired and a
  configuration change, although the engine does not clear those marks itself when it is off.\<close>

theorem runtime_strands_nothing:
  assumes "pve_reachable A T p"
  shows "(\<not> p_running p \<longrightarrow> p_pending_guests p = [] \<and> (\<forall>k < PVE_MAX_HOSTS. \<not> bit (p_pending_hosts p) k)) \<and>
    (\<not> c_enabled (p_cfg p) \<longrightarrow>
       p_pending_guests (fst (pve_shutdown_observe A True p known m soc now)) = p_pending_guests p \<and>
       p_pending_hosts (fst (pve_shutdown_observe A True p known m soc now)) = p_pending_hosts p \<and>
       p_running (fst (pve_shutdown_observe A True p known m soc now)) = p_running p)"
proof -
  have inv: "runtime_inv p" by (rule reachable_runtime [OF assms])
  then have st: "p_started p" by (simp add: runtime_inv_def)
  have "fst (pve_shutdown_observe A True p known m soc now) = p\<lparr>p_eng := (p_eng p)\<lparr>e_on_battery := False, e_on_mains := False\<rparr>\<rparr>"
    if off: "\<not> c_enabled (p_cfg p)"
  proof -
    have "g \<in> set (e_guests (p_eng p) ! i) \<Longrightarrow> \<not> ge_fired_now g" if "i \<in> set [0..<PVE_MAX_HOSTS]" for i g
      using inv off that by (auto simp: runtime_inv_def wf_engine_def)
    then show ?thesis
      unfolding observe_cases [OF st pve_eval_disabled [OF off]] by auto
  qed
  then show ?thesis using inv by (auto simp: runtime_inv_def)
qed

theorem runtime_strands_nothing_witness:
  "p_pending_guests (snd (pve_shutdown_start ex_pve ex_cfg 0 [[], [], [], []] True)) = []"
proof -
  have r: "pve_reachable (\<lambda>_. True) ex_tls (snd (pve_shutdown_start ex_pve ex_cfg 0 [[], [], [], []] True))"
    by (rule pve_reachable.start) (simp_all add: ex_pve_def)
  have "\<not> p_running (snd (pve_shutdown_start ex_pve ex_cfg 0 [[], [], [], []] True))"
    by (simp add: pve_shutdown_start_def ex_pve_def Let_def sync_hosts_frame)
  then show ?thesis using runtime_strands_nothing [OF r] by blast
qed



lemma queue_fired_all:
  "queue_fired (\<lambda>_. True) i gs q =
    q @ map (\<lambda>g. \<lparr>pg_host = i, pg_id = ge_id g, pg_reason = strlcpy 96 (ge_reason g)\<rparr>) (filter ge_fired_now gs)"
  by (induction gs arbitrary: q) auto

lemma queued_guest:
  "i \<in> set is \<Longrightarrow> g \<in> set (gss ! i) \<Longrightarrow> ge_fired_now g \<Longrightarrow>
    \<lparr>pg_host = i, pg_id = ge_id g, pg_reason = strlcpy 96 (ge_reason g)\<rparr> \<in>
      set (fold (\<lambda>i. queue_fired (\<lambda>_. True) i (gss ! i)) is q)"
proof -
  have keep: "x \<in> set q \<Longrightarrow> x \<in> set (fold (\<lambda>i. queue_fired (\<lambda>_. True) i (gss ! i)) is q)" for x "is" q
    by (induction "is" arbitrary: q) (auto simp: queue_fired_all)
  show "i \<in> set is \<Longrightarrow> g \<in> set (gss ! i) \<Longrightarrow> ge_fired_now g \<Longrightarrow>
    \<lparr>pg_host = i, pg_id = ge_id g, pg_reason = strlcpy 96 (ge_reason g)\<rparr> \<in>
      set (fold (\<lambda>i. queue_fired (\<lambda>_. True) i (gss ! i)) is q)"
    by (induction "is" arbitrary: q) (auto simp: queue_fired_all intro: keep)
qed



subsection \<open>Fingerprints\<close>

definition upper_hex :: "char \<Rightarrow> bool" where
  "upper_hex c \<longleftrightarrow> is_xdigit c \<and> toupper c = c"

fun fp_tail :: "string \<Rightarrow> string" where
  "fp_tail (a # b # cs) = '':'' @ [a, b] @ fp_tail cs"
| "fp_tail _ = []"

lemma fp_pairs_tail: "out \<noteq> [] \<Longrightarrow> fp_pairs cs out = out @ fp_tail cs"
  by (induction cs arbitrary: out rule: fp_tail.induct) auto

lemma upper_hex_scan:
  "upper_hex c \<Longrightarrow> length out < 64 \<Longrightarrow> fp_scan (c # cs) out = fp_scan cs (out @ [c])"
  by (auto simp: upper_hex_def is_xdigit_def is_digit_def)

lemma fp_scan_tail:
  "even (length cs) \<Longrightarrow> \<forall>c \<in> set cs. upper_hex c \<Longrightarrow> length out + length cs = 64 \<Longrightarrow> fp_scan (fp_tail cs) out = Some (out @ cs)"
proof (induction cs arbitrary: out rule: fp_tail.induct)
  case (1 a b cs)
  then show ?case using upper_hex_scan by simp
qed auto

text \<open>The fingerprint shown to the user after a first connection, with its colons, is accepted when
  it is entered again and gives back the stored fingerprint.\<close>

theorem fingerprint_round_trip:
  assumes "length h = 64" "\<forall>c \<in> set h. upper_hex c"
  shows "pve_fingerprint_normalise (fp_pretty h) = Some h"
proof -
  obtain a b cs where h: "h = a # b # cs" "length cs = 62" "upper_hex a" "upper_hex b"
    using assms by (auto simp: numeral_eq_Suc length_Suc_conv)
  have "fp_pretty h = [a, b] @ fp_tail cs" using h by (simp add: fp_pretty_def fp_pairs_tail)
  moreover have "fp_scan (fp_tail cs) [a, b] = Some ([a, b] @ cs)"
    by (rule fp_scan_tail) (use h assms in auto)
  ultimately show ?thesis
    using h by (simp add: pve_fingerprint_normalise_def upper_hex_scan del: fp_scan.simps)
qed

theorem fingerprint_round_trip_witness:
  "pve_fingerprint_normalise (fp_pretty (replicate 64 (CHR ''A''))) = Some (replicate 64 (CHR ''A''))"
  by (rule fingerprint_round_trip) (auto simp: upper_hex_def is_xdigit_def toupper_def)

end
