(* ===== verification/Bt_Crypto.thy ===== *)
theory Bt_Crypto
  imports Bridge_Prelude
begin

unbundle bit_operations_syntax

text \<open>
  The crypto layer of the BLUETTI link, \<^verbatim>\<open>components/bluetti_ble/bt_crypto.c\<close>. The CRC
  is modelled bit for bit. The primitives come from mbedtls and the hardware random generator, which
  are not part of the repository: they are the fields of \<open>mbedtls\<close>, one per library call the file
  makes, and an argument \<open>M\<close> of every definition that uses them. A return code is an
  \<^typ>\<open>int\<close>, 0 for success; an output buffer is the second component. Calls that take the random
  callback carry a number, the count of such calls so far, so that two calls may differ. What the
  code relies on is stated as predicates on \<open>M\<close>.
\<close>

datatype aes_mode = MBEDTLS_AES_ENCRYPT | MBEDTLS_AES_DECRYPT

record 'pt mbedtls =
  mb_md5 :: "byte list \<Rightarrow> byte list"
  mb_sha256 :: "byte list \<Rightarrow> byte list"
  mb_aes_setkey_enc :: "byte list \<Rightarrow> nat \<Rightarrow> int"
  mb_aes_setkey_dec :: "byte list \<Rightarrow> nat \<Rightarrow> int"
  mb_aes_crypt_cbc :: "aes_mode \<Rightarrow> byte list \<Rightarrow> byte list \<Rightarrow> byte list \<Rightarrow> int \<times> byte list"
  mb_ecp_group_load :: int
  mb_ecp_point_read_binary :: "byte list \<Rightarrow> int \<times> 'pt"
  mb_ecp_point_write_binary :: "'pt \<Rightarrow> int \<times> byte list"
  mb_ecp_check_pubkey :: "'pt \<Rightarrow> int"
  mb_mpi_read_binary :: "byte list \<Rightarrow> int \<times> nat"
  mb_mpi_write_binary :: "nat \<Rightarrow> nat \<Rightarrow> int \<times> byte list"
  mb_ecdsa_verify :: "byte list \<Rightarrow> 'pt \<Rightarrow> nat \<Rightarrow> nat \<Rightarrow> int"
  mb_ecdsa_sign :: "nat \<Rightarrow> nat \<Rightarrow> byte list \<Rightarrow> int \<times> nat \<times> nat"
  mb_ecp_gen_keypair :: "nat \<Rightarrow> int \<times> nat \<times> 'pt"
  mb_ecdh_compute_shared :: "nat \<Rightarrow> 'pt \<Rightarrow> nat \<Rightarrow> int \<times> nat"
  esp_fill_random :: "nat \<Rightarrow> nat \<Rightarrow> byte list"
  calloc_ok :: "nat \<Rightarrow> bool"

abbreviation BT_AES_BLOCK :: nat where "BT_AES_BLOCK \<equiv> 16"
abbreviation BT_P256_COORD :: nat where "BT_P256_COORD \<equiv> 32"
abbreviation BT_P256_PUBLEN :: nat where "BT_P256_PUBLEN \<equiv> 64"
abbreviation BT_P256_SIGLEN :: nat where "BT_P256_SIGLEN \<equiv> 64"

definition PRIVATE_KEY_L1 :: "byte list" where
  "PRIVATE_KEY_L1 =
    [0x4F,0x19,0xA1,0x6E,0x3E,0x87,0xBD,0xD9,0xBD,0x24,0xD3,0xE5,0x49,0x5B,0x88,0x04,
     0x15,0x11,0x94,0x3C,0xBC,0x8B,0x96,0x9A,0xDE,0x96,0x41,0xD0,0xF5,0x6A,0xF3,0x37]"

definition PUBLIC_KEY_K2 :: "byte list" where
  "PUBLIC_KEY_K2 =
    [0xA7,0x3A,0xBF,0x5D,0x22,0x32,0xC8,0xC1,0xC7,0x2E,0x68,0x30,0x43,0x43,0xC2,0x72,
     0x49,0x5E,0x3A,0x8F,0xD6,0xF3,0x0E,0xA9,0x6D,0xE2,0xF4,0xB3,0xCE,0x60,0xB2,0x51,
     0xEE,0x21,0xAC,0x66,0x7C,0xF8,0xA7,0x1E,0x18,0xB4,0x6B,0x66,0x4E,0xAE,0xFF,0xE3,
     0xC4,0x89,0xF2,0x4F,0x69,0x5B,0x64,0x11,0xDB,0x7E,0x22,0xCC,0xC8,0x5A,0x85,0x94]"

record 'pt bt_keypair =
  kp_d :: nat
  kp_Q :: 'pt

section \<open>CRC-16/Modbus\<close>

definition crc_bit :: "u16 \<Rightarrow> u16" where
  "crc_bit crc = (if crc AND 1 \<noteq> 0 then drop_bit 1 crc XOR 0xA001 else drop_bit 1 crc)"

definition crc_byte :: "byte \<Rightarrow> u16 \<Rightarrow> u16" where
  "crc_byte d crc = (crc_bit ^^ 8) (crc XOR ucast d)"

definition bt_crc16_modbus :: "byte list \<Rightarrow> u16" where
  "bt_crc16_modbus data = fold crc_byte data 0xFFFF"

section \<open>The wrappers around mbedtls\<close>

definition bt_random :: "'pt mbedtls \<Rightarrow> nat \<Rightarrow> nat \<Rightarrow> byte list" where
  "bt_random M k len = esp_fill_random M k len"

definition bt_md5 :: "'pt mbedtls \<Rightarrow> byte list \<Rightarrow> byte list" where
  "bt_md5 M data = mb_md5 M data"

definition sha256 :: "'pt mbedtls \<Rightarrow> byte list \<Rightarrow> byte list" where
  "sha256 M msg = mb_sha256 M msg"

definition aes_cbc :: "'pt mbedtls \<Rightarrow> byte list \<Rightarrow> byte list \<Rightarrow> byte list \<Rightarrow> aes_mode \<Rightarrow> int \<times> byte list" where
  "aes_cbc M key iv inp mode =
     (if length inp mod BT_AES_BLOCK \<noteq> 0 then (- 1, [])
      else let rc = (if mode = MBEDTLS_AES_ENCRYPT then mb_aes_setkey_enc M key (length key * 8)
                     else mb_aes_setkey_dec M key (length key * 8))
           in if rc = 0 then mb_aes_crypt_cbc M mode key iv inp else (rc, []))"

definition bt_aes_cbc_encrypt :: "'pt mbedtls \<Rightarrow> byte list \<Rightarrow> byte list \<Rightarrow> byte list \<Rightarrow> int \<times> byte list" where
  "bt_aes_cbc_encrypt M key iv inp = aes_cbc M key iv inp MBEDTLS_AES_ENCRYPT"

definition bt_aes_cbc_decrypt :: "'pt mbedtls \<Rightarrow> byte list \<Rightarrow> byte list \<Rightarrow> byte list \<Rightarrow> int \<times> byte list" where
  "bt_aes_cbc_decrypt M key iv inp = aes_cbc M key iv inp MBEDTLS_AES_DECRYPT"

definition bt_ecdsa_verify_k2 :: "'pt mbedtls \<Rightarrow> byte list \<Rightarrow> byte list \<Rightarrow> int" where
  "bt_ecdsa_verify_k2 M msg sig =
     (let digest = sha256 M msg;
          rc = mb_ecp_group_load M
      in if rc \<noteq> 0 then rc
         else case mb_ecp_point_read_binary M (0x04 # PUBLIC_KEY_K2) of (rc, Q) \<Rightarrow>
           if rc \<noteq> 0 then rc
           else case mb_mpi_read_binary M (take 32 sig) of (rc, r) \<Rightarrow>
             if rc \<noteq> 0 then rc
             else case mb_mpi_read_binary M (take 32 (drop 32 sig)) of (rc, s) \<Rightarrow>
               if rc \<noteq> 0 then rc else mb_ecdsa_verify M digest Q r s)"

definition bt_ecdsa_sign_l1 :: "'pt mbedtls \<Rightarrow> nat \<Rightarrow> byte list \<Rightarrow> int \<times> byte list" where
  "bt_ecdsa_sign_l1 M k msg =
     (let digest = sha256 M msg;
          rc = mb_ecp_group_load M
      in if rc \<noteq> 0 then (rc, [])
         else case mb_mpi_read_binary M PRIVATE_KEY_L1 of (rc, d) \<Rightarrow>
           if rc \<noteq> 0 then (rc, [])
           else case mb_ecdsa_sign M k d digest of (rc, r, s) \<Rightarrow>
             if rc \<noteq> 0 then (rc, [])
             else case mb_mpi_write_binary M r 32 of (rc, rb) \<Rightarrow>
               if rc \<noteq> 0 then (rc, [])
               else case mb_mpi_write_binary M s 32 of (rc, sb) \<Rightarrow> (rc, rb @ sb))"

definition bt_keypair_new :: "'pt mbedtls \<Rightarrow> nat \<Rightarrow> 'pt bt_keypair option" where
  "bt_keypair_new M k =
     (if \<not> calloc_ok M k then None
      else if mb_ecp_group_load M \<noteq> 0 then None
      else case mb_ecp_gen_keypair M k of (rc, d, Q) \<Rightarrow>
        if rc \<noteq> 0 then None else Some \<lparr>kp_d = d, kp_Q = Q\<rparr>)"

definition bt_keypair_public :: "'pt mbedtls \<Rightarrow> 'pt bt_keypair \<Rightarrow> int \<times> byte list" where
  "bt_keypair_public M kp =
     (case mb_ecp_point_write_binary M (kp_Q kp) of (rc, buf) \<Rightarrow>
        if rc \<noteq> 0 \<or> length buf \<noteq> 1 + BT_P256_PUBLEN \<or> hd buf \<noteq> 0x04 then (- 1, [])
        else (0, tl buf))"

definition bt_ecdh_shared :: "'pt mbedtls \<Rightarrow> nat \<Rightarrow> 'pt bt_keypair \<Rightarrow> byte list \<Rightarrow> int \<times> byte list" where
  "bt_ecdh_shared M k kp peer_pub =
     (case mb_ecp_point_read_binary M (0x04 # peer_pub) of (rc, peer) \<Rightarrow>
        if rc \<noteq> 0 then (rc, [])
        else let rc = mb_ecp_check_pubkey M peer
          in if rc \<noteq> 0 then (rc, [])
             else case mb_ecdh_compute_shared M k peer (kp_d kp) of (rc, z) \<Rightarrow>
               if rc \<noteq> 0 then (rc, []) else mb_mpi_write_binary M z BT_P256_COORD)"

section \<open>What is relied on\<close>

text \<open>Documented behaviour of the library: digest and buffer sizes, and AES-CBC with a 128- or
  256-bit key on whole blocks succeeds and decryption inverts encryption.\<close>

definition mbedtls_sizes :: "'pt mbedtls \<Rightarrow> bool" where
  "mbedtls_sizes M \<longleftrightarrow> (\<forall>x. length (mb_md5 M x) = 16) \<and>
     (\<forall>m k iv x. length (snd (mb_aes_crypt_cbc M m k iv x)) = length x) \<and>
     (\<forall>k n. length (esp_fill_random M k n) = n) \<and>
     (\<forall>x n. length (snd (mb_mpi_write_binary M x n)) = n)"

definition cbc_inverts :: "'pt mbedtls \<Rightarrow> bool" where
  "cbc_inverts M \<longleftrightarrow>
     (\<forall>key. length key = 16 \<or> length key = 32 \<longrightarrow>
        mb_aes_setkey_enc M key (length key * 8) = 0 \<and> mb_aes_setkey_dec M key (length key * 8) = 0) \<and>
     (\<forall>mode key iv x. length x mod BT_AES_BLOCK = 0 \<longrightarrow> fst (mb_aes_crypt_cbc M mode key iv x) = 0) \<and>
     (\<forall>key iv x. length x mod BT_AES_BLOCK = 0 \<longrightarrow>
        snd (mb_aes_crypt_cbc M MBEDTLS_AES_DECRYPT key iv (snd (mb_aes_crypt_cbc M MBEDTLS_AES_ENCRYPT key iv x))) = x)"

lemma aes_cbc_length:
  assumes "mbedtls_sizes M" and "fst (aes_cbc M key iv x mode) = 0"
  shows "length (snd (aes_cbc M key iv x mode)) = length x"
  using assms by (auto simp: aes_cbc_def mbedtls_sizes_def Let_def split: if_splits)

lemma aes_cbc_ok:
  assumes "cbc_inverts M" and "length key = 16 \<or> length key = 32" and "length x mod BT_AES_BLOCK = 0"
  shows "fst (aes_cbc M key iv x mode) = 0"
  using assms by (auto simp: aes_cbc_def cbc_inverts_def Let_def)

lemma aes_cbc_roundtrip:
  assumes "cbc_inverts M" and "mbedtls_sizes M" and "length key = 16 \<or> length key = 32"
    and "length x mod BT_AES_BLOCK = 0"
  shows "bt_aes_cbc_decrypt M key iv (snd (bt_aes_cbc_encrypt M key iv x)) = (0, x)"
proof -
  have "length (snd (bt_aes_cbc_encrypt M key iv x)) = length x"
    unfolding bt_aes_cbc_encrypt_def by (rule aes_cbc_length [OF assms(2) aes_cbc_ok [OF assms(1,3,4)]])
  then show ?thesis
    using assms
    by (auto simp: bt_aes_cbc_encrypt_def bt_aes_cbc_decrypt_def aes_cbc_def cbc_inverts_def Let_def
        intro!: prod_eqI split: if_splits)
qed

section \<open>Error detection of the CRC\<close>

text \<open>The shift loses the low bit, but the polynomial has the top bit set, so the top bit of the
  result tells whether it was applied: a bit step, and with it a byte step, loses nothing.\<close>

lemma crc_bit_top: "bit (crc_bit c) 15 \<longleftrightarrow> c AND 1 \<noteq> 0"
proof -
  have "\<not> bit (drop_bit 1 c) 15" by (simp add: bit_drop_bit_eq bit_word_iff_drop_bit_and)
  moreover have "bit (0xA001 :: u16) 15" by simp
  ultimately show ?thesis by (auto simp: crc_bit_def bit_xor_iff)
qed

lemma drop_bit_low_inj:
  fixes a b :: u16
  assumes "drop_bit 1 a = drop_bit 1 b" and "a AND 1 = b AND 1"
  shows "a = b"
proof (rule bit_eqI)
  fix n
  assume "possible_bit TYPE(16 word) n"
  show "bit a n = bit b n"
  proof (cases n)
    case 0
    have "bit (a AND 1) 0 = bit (b AND 1) 0" using assms(2) by simp
    then show ?thesis unfolding 0 by (simp add: bit_and_iff)
  next
    case (Suc m)
    have "bit (drop_bit 1 a) m = bit (drop_bit 1 b) m" using assms(1) by simp
    then show ?thesis unfolding Suc by (simp add: bit_drop_bit_eq)
  qed
qed

lemma xor_cancel_right: "x XOR z = y XOR z \<Longrightarrow> x = (y :: 'a :: len word)"
  by (metis xor.assoc xor.right_neutral xor_self_eq)

lemma xor_cancel_left: "z XOR x = z XOR y \<Longrightarrow> x = (y :: 'a :: len word)"
  by (metis xor.assoc xor.left_neutral xor_self_eq)

lemma and_one_cases: "x AND 1 = 0 \<or> x AND 1 = (1 :: u16)"
  by (cases "even x") (simp_all add: and_one_eq even_iff_mod_2_eq_zero odd_iff_mod_2_eq_one)

lemma crc_bit_inj:
  assumes eq: "crc_bit a = crc_bit b"
  shows "a = b"
proof (rule drop_bit_low_inj)
  have low: "a AND 1 = 0 \<longleftrightarrow> b AND 1 = 0" using crc_bit_top [of a] crc_bit_top [of b] eq by simp
  show "a AND 1 = b AND 1"
    using low and_one_cases [of a] and_one_cases [of b] by (auto simp del: and_one_eq)
  show "drop_bit 1 a = drop_bit 1 b"
  proof (cases "a AND 1 = 0")
    case True
    then show ?thesis using eq low unfolding crc_bit_def by simp
  next
    case False
    then have "drop_bit 1 a XOR 0xA001 = drop_bit 1 b XOR 0xA001"
      using eq low unfolding crc_bit_def by presburger
    then show ?thesis by (rule xor_cancel_right)
  qed
qed

lemma crc_bits_inj: "(crc_bit ^^ n) a = (crc_bit ^^ n) b \<Longrightarrow> a = b"
  by (induction n) (auto dest: crc_bit_inj)

lemma crc_byte_inj_crc: "crc_byte d a = crc_byte d b \<Longrightarrow> a = b"
  unfolding crc_byte_def by (drule crc_bits_inj) (rule xor_cancel_right)

lemma ucast_byte_inj: "(ucast (a :: byte) :: u16) = ucast b \<Longrightarrow> a = b"
  by (drule arg_cong [where f = "ucast :: u16 \<Rightarrow> byte"]) (simp add: ucast_up_ucast_id is_up)

lemma crc_byte_inj_data: "crc_byte a c = crc_byte b c \<Longrightarrow> a = b"
  unfolding crc_byte_def by (drule crc_bits_inj, drule xor_cancel_left) (rule ucast_byte_inj)

lemma fold_crc_inj: "fold crc_byte ds a = fold crc_byte ds b \<Longrightarrow> a = b"
  by (induction ds arbitrary: a b) (auto dest: crc_byte_inj_crc)

lemma crc_single_byte:
  assumes "i < length data" and "b \<noteq> data ! i"
  shows "bt_crc16_modbus (data[i := b]) \<noteq> bt_crc16_modbus data"
proof
  assume eq: "bt_crc16_modbus (data[i := b]) = bt_crc16_modbus data"
  let ?c = "fold crc_byte (take i data) 0xFFFF" and ?r = "drop (Suc i) data"
  have "fold crc_byte ?r (crc_byte b ?c) = fold crc_byte ?r (crc_byte (data ! i) ?c)"
    using eq unfolding bt_crc16_modbus_def
    by (subst (asm) (2) id_take_nth_drop [OF assms(1)], subst (asm) upd_conv_take_nth_drop [OF assms(1)]) simp
  then show False using assms(2) by (metis crc_byte_inj_data fold_crc_inj)
qed

end
