(* ===== verification/Framing.thy ===== *)
theory Framing
  imports Main
begin

text \<open>
  Reassembly of length-delimited frames from fragments. A receiver keeps a state and a buffer of
  bytes not consumed yet; \<open>need s b\<close> is the length of the frame at the front of \<open>b\<close>, or 0 when too
  little has arrived to tell, and \<open>handle\<close> consumes one whole frame (\<^const>\<open>None\<close> stands for a memory
  fault in a handler). The contract asks one thing of \<open>need\<close>: once the frame at the front is complete,
  bytes that arrive behind it do not change its length. The client then gets that the way a byte
  stream is cut into fragments does not matter.
\<close>

function drain :: "('s \<Rightarrow> 'b list \<Rightarrow> nat) \<Rightarrow> ('s \<Rightarrow> 'b list \<Rightarrow> 's option) \<Rightarrow> 's \<Rightarrow> 'b list \<Rightarrow> ('s \<times> 'b list) option" where
  "drain need handle s b =
     (if need s b = 0 \<or> length b < need s b then Some (s, b)
      else case handle s (take (need s b) b) of
             None \<Rightarrow> None
           | Some s' \<Rightarrow> drain need handle s' (drop (need s b) b))"
  by pat_completeness auto
termination by (relation "measure (\<lambda>(_, _, _, b). length b)") auto

declare drain.simps [simp del]

locale framing =
  fixes need :: "'s \<Rightarrow> 'b list \<Rightarrow> nat"
    and handle :: "'s \<Rightarrow> 'b list \<Rightarrow> 's option"
  assumes need_stable: "need s b \<noteq> 0 \<Longrightarrow> need s b \<le> length b \<Longrightarrow> need s (b @ x) = need s b"
begin

lemma drain_append:
  "drain need handle s (b @ x) =
     (case drain need handle s b of None \<Rightarrow> None | Some (s', r) \<Rightarrow> drain need handle s' (r @ x))"
proof (induction "length b" arbitrary: s b rule: less_induct)
  case less
  show ?case
  proof (cases "need s b = 0 \<or> length b < need s b")
    case True
    then show ?thesis by (simp add: drain.simps [of need handle s b])
  next
    case False
    then have n: "need s (b @ x) = need s b" using need_stable [of s b x] by simp
    have shorter: "length (drop (need s b) b) < length b" using False by auto
    show ?thesis
    proof (cases "handle s (take (need s b) b)")
      case None
      then show ?thesis
        using False n drain.simps [of need handle s b] drain.simps [of need handle s "b @ x"] by simp
    next
      case (Some s')
      then show ?thesis
        using False n less [OF shorter, of s'] drain.simps [of need handle s b] drain.simps [of need handle s "b @ x"]
        by simp
    qed
  qed
qed

end

end
