(* ===== verification/Bt_Session.thy ===== *)
theory Bt_Session
  imports Bt_Crypto Framing
begin

unbundle bit_operations_syntax

text \<open>
  The BLUETTI V2 session, \<^verbatim>\<open>components/bluetti_ble/bt_session.c\<close>: the 2a2a key exchange,
  the AES wrapper, Modbus requests and responses, and the reassembly of notifications.

  The session record has the fields of \<^verbatim>\<open>struct bt_session\<close>; \<open>s_rx\<close> is the used part of the
  receive buffer and \<open>s_pubkey_reply\<close> the used part of the cached reply (its length is
  \<^verbatim>\<open>pubkey_reply_len\<close>). The three callbacks are effects: every call is appended to \<open>s_out\<close>, and
  the return code of the transmit callback comes from \<open>env_tx\<close>, by the number of the call. \<open>s_draws\<close>
  numbers the calls that consume randomness. A handler that would dereference a null pointer or read
  far past its buffer returns \<^const>\<open>None\<close>. Log lines are left out, except that the hex dump of
  the trace mode reads its buffer (\<open>env_trace\<close>).
\<close>

section \<open>Data\<close>

datatype bt_sess_state = BT_SESS_IDLE | BT_SESS_CHALLENGE | BT_SESS_PUBKEY | BT_SESS_READY | BT_SESS_FAILED

datatype sess_out = Tx "byte list" | Regs u16 "byte list" | Ack u16 u16 bool

record sess_env =
  env_trace :: bool
  env_tx :: "nat \<Rightarrow> int"

record 'pt bt_session =
  s_has_regs :: bool
  s_has_ack :: bool
  s_state :: bt_sess_state
  s_plain :: bool
  s_unsecure_key :: "byte list"
  s_unsecure_iv :: "byte list"
  s_have_unsecure :: bool
  s_secure_key :: "byte list"
  s_have_secure :: bool
  s_peer_pub :: "byte list"
  s_kp :: "'pt bt_keypair option"
  s_pubkey_reply :: "byte list"
  s_rx :: "byte list"
  s_pending_addr :: u16
  s_pending_count :: u16
  s_draws :: nat
  s_txn :: nat
  s_out :: "sess_out list"

definition LOCAL_AES_KEY :: "byte list" where
  "LOCAL_AES_KEY =
    [0x45,0x9F,0xC5,0x35,0x80,0x89,0x41,0xF1,0x70,0x91,0xE0,0x99,0x3E,0xE3,0xE9,0x3D]"

abbreviation KEX_MAGIC0 :: byte where "KEX_MAGIC0 \<equiv> 0x2A"
abbreviation KEX_MAGIC1 :: byte where "KEX_MAGIC1 \<equiv> 0x2A"
abbreviation MSG_CHALLENGE :: byte where "MSG_CHALLENGE \<equiv> 1"
abbreviation MSG_CHALLENGE_ACCEPTED :: byte where "MSG_CHALLENGE_ACCEPTED \<equiv> 3"
abbreviation MSG_PEER_PUBKEY :: byte where "MSG_PEER_PUBKEY \<equiv> 4"
abbreviation MSG_PUBKEY_ACCEPTED :: byte where "MSG_PUBKEY_ACCEPTED \<equiv> 6"
abbreviation RX_MAX :: nat where "RX_MAX \<equiv> 512"
abbreviation MODBUS_SLAVE :: byte where "MODBUS_SLAVE \<equiv> 0x01"
abbreviation MODBUS_READ :: byte where "MODBUS_READ \<equiv> 0x03"
abbreviation MODBUS_WRITE :: byte where "MODBUS_WRITE \<equiv> 0x06"

section \<open>Frames\<close>

text \<open>Two bytes as a big-endian value.\<close>

definition be16 :: "byte \<Rightarrow> byte \<Rightarrow> u16" where
  "be16 hi lo = push_bit 8 (ucast hi) OR ucast lo"

definition hi8 :: "u16 \<Rightarrow> byte" where "hi8 w = ucast (drop_bit 8 w)"
definition lo8 :: "u16 \<Rightarrow> byte" where "lo8 w = ucast w"

definition hexsum :: "byte list \<Rightarrow> byte list" where
  "hexsum data =
     (let sum = fold (\<lambda>b acc. acc + ucast b) data (0 :: u32)
      in [ucast (drop_bit 8 sum), ucast sum])"

definition build_kex :: "byte list \<Rightarrow> nat \<Rightarrow> byte list option" where
  "build_kex body out_sz =
     (if out_sz < length body + 4 then None
      else Some ([KEX_MAGIC0, KEX_MAGIC1] @ body @ hexsum body))"

definition session_fail :: "'pt bt_session \<Rightarrow> 'pt bt_session" where
  "session_fail s = s\<lparr>s_state := BT_SESS_FAILED\<rparr>"

text \<open>The transmit callback: the result code and the session after it.\<close>

definition send :: "sess_env \<Rightarrow> 'pt bt_session \<Rightarrow> byte list \<Rightarrow> int \<times> 'pt bt_session" where
  "send E s data = (env_tx E (s_txn s), s\<lparr>s_txn := Suc (s_txn s), s_out := s_out s @ [Tx data]\<rparr>)"

definition padded_len :: "nat \<Rightarrow> nat" where
  "padded_len n = ((n + BT_AES_BLOCK - 1) div BT_AES_BLOCK) * BT_AES_BLOCK"

text \<open>\<open>iv = None\<close> stands for a null pointer: a fresh seed is drawn (draw number \<open>k\<close>).\<close>

definition aes_wrap ::
    "'pt mbedtls \<Rightarrow> nat \<Rightarrow> byte list \<Rightarrow> byte list option \<Rightarrow> byte list \<Rightarrow> nat \<Rightarrow> byte list option" where
  "aes_wrap M k key iv plain out_sz =
     (let plain_len = length plain;
          lenb = [ucast (drop_bit 8 (of_nat plain_len :: u32)), ucast (of_nat plain_len :: u32)];
          (hdr, ivb) = (case iv of
                          Some v \<Rightarrow> (lenb, v)
                        | None \<Rightarrow> let seed = bt_random M k 4 in (lenb @ seed, bt_md5 M seed));
          header = (case iv of Some _ \<Rightarrow> 2 | None \<Rightarrow> 6);
          padded = padded_len plain_len
      in if header + padded > out_sz \<or> padded > RX_MAX then None
         else case bt_aes_cbc_encrypt M key ivb (plain @ replicate (padded - plain_len) 0) of
                (rc, ct) \<Rightarrow> if rc \<noteq> 0 then None else Some (hdr @ ct))"

definition frame_plain_len :: "byte list \<Rightarrow> nat" where
  "frame_plain_len buf = unat (buf ! 0) * 256 + unat (buf ! 1)"

definition framed_len :: "'pt bt_session \<Rightarrow> byte list \<Rightarrow> nat" where
  "framed_len s buf =
     (let header = (if s_have_secure s then 6 else 2)
      in if length buf < header then 0 else header + padded_len (frame_plain_len buf))"

definition aes_unwrap :: "'pt mbedtls \<Rightarrow> 'pt bt_session \<Rightarrow> byte list \<Rightarrow> nat \<Rightarrow> byte list option" where
  "aes_unwrap M s inp out_sz =
     (let key = (if s_have_secure s then s_secure_key s else s_unsecure_key s);
          plain_len = frame_plain_len inp
      in if s_have_secure s \<and> length inp < 6 then None
         else let iv = (if s_have_secure s then bt_md5 M (take 4 (drop 2 inp)) else s_unsecure_iv s);
                  ct = (if s_have_secure s then drop 6 inp else drop 2 inp)
              in if length ct mod BT_AES_BLOCK \<noteq> 0 \<or> plain_len > length ct \<or> plain_len > out_sz then None
                 else if length ct > RX_MAX then None
                 else case bt_aes_cbc_decrypt M key iv ct of
                        (rc, tmp) \<Rightarrow> if rc \<noteq> 0 then None else Some (take plain_len tmp))"

section \<open>Handshake\<close>

definition on_challenge ::
    "'pt mbedtls \<Rightarrow> sess_env \<Rightarrow> 'pt bt_session \<Rightarrow> byte list \<Rightarrow> nat \<Rightarrow> 'pt bt_session" where
  "on_challenge M E s data len =
     (if len \<noteq> 4 then session_fail s
      else
        let iv = bt_md5 M [data ! 3, data ! 2, data ! 1, data ! 0];
            s = s\<lparr>s_unsecure_iv := iv, s_unsecure_key := map2 (XOR) iv LOCAL_AES_KEY, s_have_unsecure := True\<rparr>;
            body = [0x02, 0x04] @ take 4 (drop 8 iv)
        in case build_kex body 16 of
             None \<Rightarrow> session_fail s
           | Some frame \<Rightarrow>
               (case send E s frame of
                  (rc, s) \<Rightarrow> if rc \<noteq> 0 then session_fail s else s\<lparr>s_state := BT_SESS_CHALLENGE\<rparr>))"

text \<open>The second half of \<^verbatim>\<open>on_peer_pubkey\<close>: sign our key, build, wrap, cache and send the
  reply.\<close>

definition reply_pubkey ::
    "'pt mbedtls \<Rightarrow> sess_env \<Rightarrow> 'pt bt_session \<Rightarrow> byte list \<Rightarrow> 'pt bt_session" where
  "reply_pubkey M E s my_pub =
     (case bt_ecdsa_sign_l1 M (s_draws s) (my_pub @ s_unsecure_iv s) of (rc, sig) \<Rightarrow>
        let s = s\<lparr>s_draws := Suc (s_draws s)\<rparr>
        in if rc \<noteq> 0 then session_fail s
           else case build_kex ([0x05, 0x80] @ my_pub @ sig) (2 + BT_P256_PUBLEN + BT_P256_SIGLEN + 4) of
             None \<Rightarrow> session_fail s
           | Some frame \<Rightarrow>
               (case aes_wrap M (s_draws s) (s_unsecure_key s) (Some (s_unsecure_iv s)) frame RX_MAX of
                  None \<Rightarrow> session_fail s
                | Some w \<Rightarrow>
                    (case send E (s\<lparr>s_pubkey_reply := w\<rparr>) w of
                       (rc, s) \<Rightarrow> if rc \<noteq> 0 then session_fail s else s\<lparr>s_state := BT_SESS_PUBKEY\<rparr>)))"

text \<open>The middle of \<^verbatim>\<open>on_peer_pubkey\<close>: one ephemeral keypair per session, and its public half.\<close>

definition ensure_keypair :: "'pt mbedtls \<Rightarrow> 'pt bt_session \<Rightarrow> 'pt bt_session" where
  "ensure_keypair M s =
     (case s_kp s of
        Some _ \<Rightarrow> s
      | None \<Rightarrow> s\<lparr>s_kp := bt_keypair_new M (s_draws s), s_draws := Suc (s_draws s)\<rparr>)"

definition publish_key :: "'pt mbedtls \<Rightarrow> sess_env \<Rightarrow> 'pt bt_session \<Rightarrow> 'pt bt_session" where
  "publish_key M E s =
     (case s_kp s of
        None \<Rightarrow> session_fail s
      | Some kp \<Rightarrow>
          (case bt_keypair_public M kp of
             (rc, my_pub) \<Rightarrow> if rc \<noteq> 0 then session_fail s else reply_pubkey M E s my_pub))"

definition on_peer_pubkey ::
    "'pt mbedtls \<Rightarrow> sess_env \<Rightarrow> 'pt bt_session \<Rightarrow> byte list \<Rightarrow> nat \<Rightarrow> 'pt bt_session" where
  "on_peer_pubkey M E s data len =
     (if len \<noteq> 128 then session_fail s
      else
        let peer = take BT_P256_PUBLEN data; sig = take BT_P256_SIGLEN (drop BT_P256_PUBLEN data)
        in if s_kp s \<noteq> None \<and> s_pubkey_reply s \<noteq> [] \<and> s_peer_pub s = peer
           then snd (send E s (s_pubkey_reply s))
           else if bt_ecdsa_verify_k2 M (peer @ s_unsecure_iv s) sig \<noteq> 0 then session_fail s
           else publish_key M E (ensure_keypair M (s\<lparr>s_peer_pub := peer\<rparr>)))"

definition on_pubkey_accepted ::
    "'pt mbedtls \<Rightarrow> sess_env \<Rightarrow> 'pt bt_session \<Rightarrow> byte list \<Rightarrow> nat \<Rightarrow> 'pt bt_session option" where
  "on_pubkey_accepted M E s data len =
     (if env_trace E \<and> len > length data then None
      else if len \<noteq> 1 \<or> data ! 0 \<noteq> 0 then Some (session_fail s)
      else case s_kp s of
             None \<Rightarrow> None
           | Some kp \<Rightarrow>
               (case bt_ecdh_shared M (s_draws s) kp (s_peer_pub s) of
                  (rc, z) \<Rightarrow>
                    let s = s\<lparr>s_draws := Suc (s_draws s)\<rparr>
                    in if rc \<noteq> 0 then Some (session_fail s)
                       else Some (s\<lparr>s_secure_key := z, s_have_secure := True, s_state := BT_SESS_READY\<rparr>)))"

text \<open>\<^verbatim>\<open>size_t\<close> is 32 bits wide: \<^verbatim>\<open>body_len - 2\<close> wraps for a body of one byte.\<close>

definition handle_kex ::
    "'pt mbedtls \<Rightarrow> sess_env \<Rightarrow> 'pt bt_session \<Rightarrow> byte list \<Rightarrow> 'pt bt_session option" where
  "handle_kex M E s frame =
     (if length frame < 5 then Some s
      else
        let body_len = length frame - 4;
            body = take body_len (drop 2 frame)
        in if hexsum body \<noteq> take 2 (drop (2 + body_len) frame) then Some s
           else
             let type = body ! 0;
                 data = drop 4 frame;
                 data_len = unat ((of_nat body_len :: u32) - 2)
             in if type = MSG_CHALLENGE then Some (on_challenge M E s data data_len)
                else if type = MSG_CHALLENGE_ACCEPTED then Some s
                else if type = MSG_PEER_PUBKEY then Some (on_peer_pubkey M E s data data_len)
                else if type = MSG_PUBKEY_ACCEPTED then on_pubkey_accepted M E s data data_len
                else Some s)"

section \<open>Modbus\<close>

definition modbus_crc_ok :: "byte list \<Rightarrow> nat \<Rightarrow> bool" where
  "modbus_crc_ok f n \<longleftrightarrow> bt_crc16_modbus (take n f) = be16 (f ! (n + 1)) (f ! n)"

definition emit :: "sess_out \<Rightarrow> 'pt bt_session \<Rightarrow> 'pt bt_session" where
  "emit out s = s\<lparr>s_out := s_out s @ [out]\<rparr>"

definition handle_modbus :: "'pt bt_session \<Rightarrow> byte list \<Rightarrow> 'pt bt_session" where
  "handle_modbus s f =
     (if length f < 5 then s
      else if f ! 1 = MODBUS_WRITE \<or> f ! 1 = (MODBUS_WRITE OR 0x80) then
        let ok = (f ! 1 = MODBUS_WRITE \<and> 8 \<le> length f \<and> modbus_crc_ok f 6);
            addr = (if ok then be16 (f ! 2) (f ! 3) else s_pending_addr s);
            val = (if ok then be16 (f ! 4) (f ! 5) else 0)
        in if s_has_ack s then emit (Ack addr val ok) s else s
      else if f ! 1 = (MODBUS_READ OR 0x80) then s
      else if f ! 1 \<noteq> MODBUS_READ then s
      else
        let count = unat (f ! 2)
        in if 3 + count + 2 > length f then s
           else if \<not> modbus_crc_ok f (3 + count) then s
           else if s_has_regs s then emit (Regs (s_pending_addr s) (take count (drop 3 f))) s else s)"

definition modbus_cmd :: "byte \<Rightarrow> u16 \<Rightarrow> u16 \<Rightarrow> byte list" where
  "modbus_cmd fn addr arg =
     (let cmd = [MODBUS_SLAVE, fn, hi8 addr, lo8 addr, hi8 arg, lo8 arg];
          crc = bt_crc16_modbus cmd
      in cmd @ [lo8 crc, hi8 crc])"

definition bt_session_ready :: "'pt bt_session \<Rightarrow> bool" where
  "bt_session_ready s \<longleftrightarrow> s_state s = BT_SESS_READY \<and> (s_have_secure s \<or> s_plain s)"

definition bt_session_read_regs ::
    "'pt mbedtls \<Rightarrow> sess_env \<Rightarrow> 'pt bt_session \<Rightarrow> u16 \<Rightarrow> u16 \<Rightarrow> int \<times> 'pt bt_session" where
  "bt_session_read_regs M E s addr count =
     (if \<not> bt_session_ready s then (- 1, s)
      else
        let cmd = modbus_cmd MODBUS_READ addr count;
            s = s\<lparr>s_pending_addr := addr, s_pending_count := count, s_rx := []\<rparr>
        in if s_plain s then send E s cmd
           else let w = aes_wrap M (s_draws s) (s_secure_key s) None cmd RX_MAX;
                    s = s\<lparr>s_draws := Suc (s_draws s)\<rparr>
                in case w of None \<Rightarrow> (- 1, s) | Some b \<Rightarrow> send E s b)"

definition bt_session_write_reg ::
    "'pt mbedtls \<Rightarrow> sess_env \<Rightarrow> 'pt bt_session \<Rightarrow> u16 \<Rightarrow> u16 \<Rightarrow> int \<times> 'pt bt_session" where
  "bt_session_write_reg M E s addr value =
     (if \<not> bt_session_ready s then (- 1, s)
      else
        let cmd = modbus_cmd MODBUS_WRITE addr value;
            s = s\<lparr>s_pending_addr := addr, s_rx := []\<rparr>
        in if s_plain s then send E s cmd
           else let w = aes_wrap M (s_draws s) (s_secure_key s) None cmd RX_MAX;
                    s = s\<lparr>s_draws := Suc (s_draws s)\<rparr>
                in case w of None \<Rightarrow> (- 1, s) | Some b \<Rightarrow> send E s b)"

section \<open>Receive path\<close>

text \<open>Length of the plain Modbus response at the front of the buffer; 0 until three bytes are in.\<close>

definition plain_frame_len :: "byte list \<Rightarrow> nat" where
  "plain_frame_len rx =
     (if length rx < 3 then 0
      else if rx ! 1 = MODBUS_WRITE then 8
      else if rx ! 1 AND 0x80 \<noteq> 0 then 5
      else 3 + unat (rx ! 2) + 2)"

text \<open>What the handlers leave alone. The loops below consume the buffer before they dispatch, so
  their termination rests on the first of these.\<close>

lemma send_frame [simp]:
  "s_rx (snd (send E s d)) = s_rx s" "s_plain (snd (send E s d)) = s_plain s"
  "s_have_secure (snd (send E s d)) = s_have_secure s" "s_have_unsecure (snd (send E s d)) = s_have_unsecure s"
  "s_kp (snd (send E s d)) = s_kp s" "s_peer_pub (snd (send E s d)) = s_peer_pub s"
  "s_secure_key (snd (send E s d)) = s_secure_key s" "s_unsecure_key (snd (send E s d)) = s_unsecure_key s"
  "s_unsecure_iv (snd (send E s d)) = s_unsecure_iv s" "s_state (snd (send E s d)) = s_state s"
  "s_pubkey_reply (snd (send E s d)) = s_pubkey_reply s"
  by (simp_all add: send_def)

lemma session_fail_frame [simp]:
  "s_rx (session_fail s) = s_rx s" "s_plain (session_fail s) = s_plain s"
  "s_have_secure (session_fail s) = s_have_secure s" "s_have_unsecure (session_fail s) = s_have_unsecure s"
  "s_kp (session_fail s) = s_kp s" "s_peer_pub (session_fail s) = s_peer_pub s"
  "s_secure_key (session_fail s) = s_secure_key s" "s_unsecure_key (session_fail s) = s_unsecure_key s"
  "s_unsecure_iv (session_fail s) = s_unsecure_iv s" "s_state (session_fail s) = BT_SESS_FAILED"
  "s_pubkey_reply (session_fail s) = s_pubkey_reply s"
  by (simp_all add: session_fail_def)

lemma emit_frame [simp]: "s_rx (emit out s) = s_rx s"
  by (simp add: emit_def)

lemma handle_modbus_rx [simp]: "s_rx (handle_modbus s f) = s_rx s"
  by (simp add: handle_modbus_def Let_def)

lemma on_challenge_rx [simp]: "s_rx (on_challenge M E s d n) = s_rx s"
  by (auto simp: on_challenge_def send_def Let_def split: option.splits)

lemma reply_pubkey_rx [simp]: "s_rx (reply_pubkey M E s p) = s_rx s"
  by (auto simp: reply_pubkey_def send_def Let_def split: option.splits prod.splits)

lemma ensure_keypair_frame [simp]:
  "s_rx (ensure_keypair M s) = s_rx s" "s_plain (ensure_keypair M s) = s_plain s"
  "s_have_secure (ensure_keypair M s) = s_have_secure s" "s_have_unsecure (ensure_keypair M s) = s_have_unsecure s"
  "s_peer_pub (ensure_keypair M s) = s_peer_pub s" "s_secure_key (ensure_keypair M s) = s_secure_key s"
  "s_state (ensure_keypair M s) = s_state s" "s_pubkey_reply (ensure_keypair M s) = s_pubkey_reply s"
  by (simp_all add: ensure_keypair_def split: option.splits)

lemma publish_key_rx [simp]: "s_rx (publish_key M E s) = s_rx s"
  by (auto simp: publish_key_def split: option.splits prod.splits)

lemma on_peer_pubkey_rx [simp]: "s_rx (on_peer_pubkey M E s d n) = s_rx s"
  by (simp add: on_peer_pubkey_def Let_def)

lemma on_pubkey_accepted_rx: "on_pubkey_accepted M E s d n = Some s' \<Longrightarrow> s_rx s' = s_rx s"
  by (auto simp: on_pubkey_accepted_def Let_def split: if_splits option.splits prod.splits)

lemma handle_kex_rx: "handle_kex M E s f = Some s' \<Longrightarrow> s_rx s' = s_rx s"
  by (auto simp: handle_kex_def Let_def split: if_splits dest: on_pubkey_accepted_rx)

text \<open>The \<^verbatim>\<open>while (s->rx_len >= 3)\<close> loop of the plain mode.\<close>

function plain_loop :: "'pt bt_session \<Rightarrow> 'pt bt_session" where
  "plain_loop s =
     (if length (s_rx s) < 3 then s
      else let frame = plain_frame_len (s_rx s)
           in if length (s_rx s) < frame then s
              else let s' = handle_modbus s (take frame (s_rx s))
                   in plain_loop (s'\<lparr>s_rx := drop frame (s_rx s')\<rparr>))"
  by pat_completeness auto
termination
  by (relation "measure (\<lambda>s. length (s_rx s))") (auto simp: plain_frame_len_def)

declare plain_loop.simps [simp del]

text \<open>A decoded frame goes to the key exchange or to Modbus.\<close>

definition dispatch ::
    "'pt mbedtls \<Rightarrow> sess_env \<Rightarrow> 'pt bt_session \<Rightarrow> byte list \<Rightarrow> 'pt bt_session option" where
  "dispatch M E s plain =
     (if 2 \<le> length plain \<and> plain ! 0 = KEX_MAGIC0 \<and> plain ! 1 = KEX_MAGIC1
      then handle_kex M E s plain else Some (handle_modbus s plain))"

lemma dispatch_rx: "dispatch M E s f = Some s' \<Longrightarrow> s_rx s' = s_rx s"
  by (auto simp: dispatch_def split: if_splits dest: handle_kex_rx)

text \<open>The \<^verbatim>\<open>for (;;)\<close> loop over encrypted frames.\<close>

function secure_loop :: "'pt mbedtls \<Rightarrow> sess_env \<Rightarrow> 'pt bt_session \<Rightarrow> 'pt bt_session option" where
  "secure_loop M E s =
     (let need = framed_len s (s_rx s)
      in if need = 0 \<or> length (s_rx s) < need then Some s
         else case aes_unwrap M s (take need (s_rx s)) RX_MAX of
                None \<Rightarrow> Some (s\<lparr>s_rx := []\<rparr>)
              | Some plain \<Rightarrow>
                  (case dispatch M E (s\<lparr>s_rx := drop need (s_rx s)\<rparr>) plain of
                     None \<Rightarrow> None
                   | Some s' \<Rightarrow> if s_rx s' = [] then Some s' else secure_loop M E s'))"
  by pat_completeness auto
termination
  by (relation "measure (\<lambda>(M, E, s). length (s_rx s))") (auto dest!: dispatch_rx)

declare secure_loop.simps [simp del]

definition bt_session_feed ::
    "'pt mbedtls \<Rightarrow> sess_env \<Rightarrow> 'pt bt_session \<Rightarrow> byte list \<Rightarrow> 'pt bt_session option" where
  "bt_session_feed M E s data =
     (if s_plain s then
        if length (s_rx s) + length data > RX_MAX then Some (s\<lparr>s_rx := []\<rparr>)
        else Some (plain_loop (s\<lparr>s_rx := s_rx s @ data\<rparr>))
      else if \<not> s_have_secure s \<and> 2 \<le> length data \<and> data ! 0 = KEX_MAGIC0 \<and> data ! 1 = KEX_MAGIC1
      then handle_kex M E s data
      else if \<not> s_have_unsecure s then Some s
      else if length (s_rx s) + length data > RX_MAX then Some (s\<lparr>s_rx := []\<rparr>)
      else secure_loop M E (s\<lparr>s_rx := s_rx s @ data\<rparr>))"

section \<open>Life cycle\<close>

definition bt_session_new :: "bool \<Rightarrow> bool \<Rightarrow> 'pt bt_session" where
  "bt_session_new on_regs on_ack =
     \<lparr>s_has_regs = on_regs, s_has_ack = on_ack, s_state = BT_SESS_IDLE, s_plain = False,
      s_unsecure_key = replicate 16 0, s_unsecure_iv = replicate 16 0, s_have_unsecure = False,
      s_secure_key = replicate 32 0, s_have_secure = False, s_peer_pub = replicate BT_P256_PUBLEN 0,
      s_kp = None, s_pubkey_reply = [], s_rx = [], s_pending_addr = 0, s_pending_count = 0,
      s_draws = 0, s_txn = 0, s_out = []\<rparr>"

definition bt_session_reset :: "'pt bt_session \<Rightarrow> 'pt bt_session" where
  "bt_session_reset s =
     s\<lparr>s_kp := None, s_state := BT_SESS_IDLE, s_plain := False, s_have_unsecure := False,
       s_have_secure := False, s_rx := [], s_pubkey_reply := [],
       s_secure_key := replicate 32 0, s_unsecure_key := replicate 16 0\<rparr>"

definition bt_session_use_plain :: "'pt bt_session \<Rightarrow> 'pt bt_session" where
  "bt_session_use_plain s =
     (if s_state s \<noteq> BT_SESS_IDLE then s
      else s\<lparr>s_plain := True, s_rx := [], s_state := BT_SESS_READY\<rparr>)"

definition bt_session_is_plain :: "'pt bt_session option \<Rightarrow> bool" where
  "bt_session_is_plain s = (case s of None \<Rightarrow> False | Some s \<Rightarrow> s_plain s)"

definition bt_session_state :: "'pt bt_session option \<Rightarrow> bt_sess_state" where
  "bt_session_state s = (case s of None \<Rightarrow> BT_SESS_IDLE | Some s \<Rightarrow> s_state s)"

section \<open>The handlers do not look at the buffer\<close>

lemma send_buf: "send E (s\<lparr>s_rx := r\<rparr>) d = (fst (send E s d), (snd (send E s d))\<lparr>s_rx := r\<rparr>)"
  by (simp add: send_def)

lemma session_fail_buf: "session_fail (s\<lparr>s_rx := r\<rparr>) = (session_fail s)\<lparr>s_rx := r\<rparr>"
  by (simp add: session_fail_def)

lemma handle_modbus_buf: "handle_modbus (s\<lparr>s_rx := r\<rparr>) f = (handle_modbus s f)\<lparr>s_rx := r\<rparr>"
  by (simp add: handle_modbus_def emit_def Let_def)

lemma on_challenge_buf: "on_challenge M E (s\<lparr>s_rx := r\<rparr>) d n = (on_challenge M E s d n)\<lparr>s_rx := r\<rparr>"
  by (simp add: on_challenge_def session_fail_def send_def Let_def split: option.splits)

lemma reply_pubkey_buf: "reply_pubkey M E (s\<lparr>s_rx := r\<rparr>) p = (reply_pubkey M E s p)\<lparr>s_rx := r\<rparr>"
  by (simp add: reply_pubkey_def session_fail_def send_def Let_def split: option.splits prod.splits)

lemma ensure_keypair_buf: "ensure_keypair M (s\<lparr>s_rx := r\<rparr>) = (ensure_keypair M s)\<lparr>s_rx := r\<rparr>"
  by (simp add: ensure_keypair_def split: option.splits)

lemma publish_key_buf: "publish_key M E (s\<lparr>s_rx := r\<rparr>) = (publish_key M E s)\<lparr>s_rx := r\<rparr>"
  by (simp add: publish_key_def session_fail_buf reply_pubkey_buf split: option.splits prod.splits)

lemma on_peer_pubkey_buf: "on_peer_pubkey M E (s\<lparr>s_rx := r\<rparr>) d n = (on_peer_pubkey M E s d n)\<lparr>s_rx := r\<rparr>"
proof -
  have "publish_key M E (ensure_keypair M (s\<lparr>s_rx := r, s_peer_pub := p\<rparr>))
      = (publish_key M E (ensure_keypair M (s\<lparr>s_peer_pub := p\<rparr>)))\<lparr>s_rx := r\<rparr>" for p
  proof -
    have "s\<lparr>s_rx := r, s_peer_pub := p\<rparr> = s\<lparr>s_peer_pub := p, s_rx := r\<rparr>" by simp
    then show ?thesis by (simp only: publish_key_buf ensure_keypair_buf)
  qed
  then show ?thesis
    by (simp add: on_peer_pubkey_def session_fail_buf send_buf Let_def)
qed

lemma on_pubkey_accepted_buf:
  "on_pubkey_accepted M E (s\<lparr>s_rx := r\<rparr>) d n = map_option (\<lambda>s. s\<lparr>s_rx := r\<rparr>) (on_pubkey_accepted M E s d n)"
  by (simp add: on_pubkey_accepted_def session_fail_def Let_def split: option.splits prod.splits)

lemma handle_kex_buf: "handle_kex M E (s\<lparr>s_rx := r\<rparr>) f = map_option (\<lambda>s. s\<lparr>s_rx := r\<rparr>) (handle_kex M E s f)"
  by (simp add: handle_kex_def on_challenge_buf on_peer_pubkey_buf on_pubkey_accepted_buf Let_def)

lemma dispatch_buf: "dispatch M E (s\<lparr>s_rx := r\<rparr>) f = map_option (\<lambda>s. s\<lparr>s_rx := r\<rparr>) (dispatch M E s f)"
  by (simp add: dispatch_def handle_kex_buf handle_modbus_buf)

section \<open>Fragmentation\<close>

text \<open>Both receive loops are instances of the reassembly contract.\<close>

interpretation plain_framing: framing "\<lambda>_. plain_frame_len" "\<lambda>s f. Some (handle_modbus s f)"
  by unfold_locales (auto simp: plain_frame_len_def nth_append split: if_splits)

interpretation secure_framing: framing framed_len handle for handle :: "'pt bt_session \<Rightarrow> byte list \<Rightarrow> 'pt bt_session option"
  by unfold_locales (auto simp: framed_len_def frame_plain_len_def nth_append Let_def split: if_splits)

lemma plain_loop_drain:
  "drain (\<lambda>_. plain_frame_len) (\<lambda>s f. Some (handle_modbus s f)) (s\<lparr>s_rx := []\<rparr>) (s_rx s)
   = Some ((plain_loop s)\<lparr>s_rx := []\<rparr>, s_rx (plain_loop s))"
proof (induction "length (s_rx s)" arbitrary: s rule: less_induct)
  case less
  let ?n = "plain_frame_len (s_rx s)"
  show ?case
  proof (cases "length (s_rx s) < 3 \<or> length (s_rx s) < ?n")
    case True
    then show ?thesis
      by (subst drain.simps, subst plain_loop.simps, subst (2) plain_loop.simps) (auto simp: plain_frame_len_def)
  next
    case False
    define s' where "s' = (handle_modbus s (take ?n (s_rx s)))\<lparr>s_rx := drop ?n (s_rx s)\<rparr>"
    have n: "?n \<noteq> 0" using False by (simp add: plain_frame_len_def)
    have "length (s_rx s') < length (s_rx s)" using False n by (auto simp: s'_def)
    note IH = less [OF this]
    have "plain_loop s = plain_loop s'"
      using False by (subst plain_loop.simps) (simp add: s'_def Let_def)
    then show ?thesis
      using IH False n by (subst drain.simps) (simp add: handle_modbus_buf s'_def)
  qed
qed

definition secure_up :: "'pt bt_session \<Rightarrow> bool" where
  "secure_up s \<longleftrightarrow> s_have_secure s \<and> s_have_unsecure s \<and> \<not> s_plain s \<and> length (s_secure_key s) = 32"

definition secure_handle ::
    "'pt mbedtls \<Rightarrow> sess_env \<Rightarrow> 'pt bt_session \<Rightarrow> byte list \<Rightarrow> 'pt bt_session option" where
  "secure_handle M E s f = (case aes_unwrap M s f RX_MAX of None \<Rightarrow> None | Some p \<Rightarrow> dispatch M E s p)"

lemma bt_ecdh_shared_length: "mbedtls_sizes M \<Longrightarrow> bt_ecdh_shared M k kp p = (0, z) \<Longrightarrow> length z = 32"
  unfolding mbedtls_sizes_def bt_ecdh_shared_def Let_def
  by (auto split: prod.splits if_splits) (metis snd_conv)

lemma reply_pubkey_secure [simp]: "secure_up (reply_pubkey M E s p) = secure_up s"
  by (simp add: reply_pubkey_def secure_up_def send_def Let_def split: option.splits prod.splits)

lemma secure_up_frame [simp]:
  "secure_up (session_fail s) = secure_up s" "secure_up (snd (send E s d)) = secure_up s"
  "secure_up (ensure_keypair M s) = secure_up s" "secure_up (s\<lparr>s_peer_pub := p\<rparr>) = secure_up s"
  by (simp_all add: secure_up_def)

lemma publish_key_secure [simp]: "secure_up (publish_key M E s) = secure_up s"
  by (simp add: publish_key_def split: option.splits prod.splits)

lemma on_peer_pubkey_secure [simp]: "secure_up (on_peer_pubkey M E s d n) = secure_up s"
  by (simp add: on_peer_pubkey_def Let_def)

lemma on_challenge_secure: "secure_up s \<Longrightarrow> secure_up (on_challenge M E s d n)"
  by (auto simp: on_challenge_def secure_up_def send_def Let_def split: option.splits)

lemma on_pubkey_accepted_secure:
  "mbedtls_sizes M \<Longrightarrow> secure_up s \<Longrightarrow> on_pubkey_accepted M E s d n = Some s' \<Longrightarrow> secure_up s'"
  by (auto simp: on_pubkey_accepted_def secure_up_def Let_def dest: bt_ecdh_shared_length
      split: if_splits option.splits prod.splits)

lemma handle_modbus_secure [simp]: "secure_up (handle_modbus s f) = secure_up s"
  by (simp add: handle_modbus_def secure_up_def emit_def Let_def)

lemma dispatch_secure:
  assumes "mbedtls_sizes M" and "secure_up s" and "dispatch M E s f = Some s'"
  shows "secure_up s'"
  using assms
  by (auto simp: dispatch_def handle_kex_def Let_def on_challenge_secure
      dest: on_pubkey_accepted_secure split: if_splits)

lemma padded_len_props: "n \<le> padded_len n" "padded_len n mod BT_AES_BLOCK = 0"
  by (simp_all add: padded_len_def, presburger?)

lemma aes_unwrap_total:
  assumes "cbc_inverts M" and "secure_up s" and "framed_len s b \<noteq> 0" and "framed_len s b \<le> length b"
    and "length b \<le> RX_MAX"
  shows "\<exists>p. aes_unwrap M s (take (framed_len s b) b) RX_MAX = Some p"
proof -
  let ?n = "framed_len s b" and ?f = "take (framed_len s b) b"
  have n: "?n = 6 + padded_len (frame_plain_len b)" and b6: "6 \<le> length b"
    using assms(2,3) by (auto simp: framed_len_def secure_up_def Let_def split: if_splits)
  have len: "length ?f = ?n" using assms(4) by simp
  have pl: "frame_plain_len ?f = frame_plain_len b" using n by (simp add: frame_plain_len_def)
  have ct: "length (drop 6 ?f) = padded_len (frame_plain_len b)" using len n by simp
  have "fst (bt_aes_cbc_decrypt M (s_secure_key s) (bt_md5 M (take 4 (drop 2 ?f))) (drop 6 ?f)) = 0"
    unfolding bt_aes_cbc_decrypt_def
    by (rule aes_cbc_ok [OF assms(1)]) (use assms(2) ct padded_len_props(2) in \<open>auto simp: secure_up_def\<close>)
  then obtain q where q: "bt_aes_cbc_decrypt M (s_secure_key s) (bt_md5 M (take 4 (drop 2 ?f))) (drop 6 ?f) = (0, q)"
    by (metis prod.collapse)
  have ok: "s_have_secure s" "\<not> length ?f < 6" "length (drop 6 ?f) mod BT_AES_BLOCK = 0"
    "frame_plain_len ?f \<le> length (drop 6 ?f)" "length (drop 6 ?f) \<le> RX_MAX" "frame_plain_len ?f \<le> RX_MAX"
    using assms(2,4,5) len ct pl n padded_len_props [of "frame_plain_len b"] by (auto simp: secure_up_def)
  show ?thesis
    unfolding aes_unwrap_def Let_def using ok by (simp only: q if_True) simp
qed

lemma aes_unwrap_buf: "aes_unwrap M (s\<lparr>s_rx := r\<rparr>) f n = aes_unwrap M s f n"
  by (simp add: aes_unwrap_def Let_def)

lemma framed_len_buf: "framed_len (s\<lparr>s_rx := r\<rparr>) b = framed_len s b"
  by (simp add: framed_len_def)

lemma secure_up_buf [simp]: "secure_up (s\<lparr>s_rx := r\<rparr>) = secure_up s"
  by (simp add: secure_up_def)

lemma secure_loop_drain:
  assumes "cbc_inverts M" and "mbedtls_sizes M" and "secure_up s" and "length (s_rx s) \<le> RX_MAX"
  shows "drain framed_len (secure_handle M E) (s\<lparr>s_rx := []\<rparr>) (s_rx s)
   = map_option (\<lambda>t. (t\<lparr>s_rx := []\<rparr>, s_rx t)) (secure_loop M E s)"
  using assms(3,4)
proof (induction "length (s_rx s)" arbitrary: s rule: less_induct)
  case less
  let ?n = "framed_len s (s_rx s)"
  show ?case
  proof (cases "?n = 0 \<or> length (s_rx s) < ?n")
    case True
    then show ?thesis
      by (subst drain.simps, subst secure_loop.simps) (auto simp: framed_len_buf Let_def)
  next
    case False
    obtain p where p: "aes_unwrap M s (take ?n (s_rx s)) RX_MAX = Some p"
      using aes_unwrap_total [OF assms(1) less.prems(1)] False less.prems(2) by (meson linorder_not_less)
    show ?thesis
    proof (cases "dispatch M E s p")
      case None
      then show ?thesis
        using False p by (subst drain.simps, subst secure_loop.simps)
          (simp add: framed_len_buf secure_handle_def aes_unwrap_buf dispatch_buf Let_def)
    next
      case (Some t)
      define t' where "t' = t\<lparr>s_rx := drop ?n (s_rx s)\<rparr>"
      have shorter: "length (s_rx t') < length (s_rx s)" using False by (auto simp: t'_def)
      have up: "secure_up t'" using dispatch_secure [OF assms(2) less.prems(1) Some] by (simp add: t'_def)
      have IH: "drain framed_len (secure_handle M E) (t'\<lparr>s_rx := []\<rparr>) (s_rx t')
          = map_option (\<lambda>t. (t\<lparr>s_rx := []\<rparr>, s_rx t)) (secure_loop M E t')"
        by (rule less.hyps [OF shorter up]) (use shorter less.prems(2) in simp)
      have last: "s_rx t' = [] \<Longrightarrow> secure_loop M E t' = Some t'"
        by (subst secure_loop.simps) (simp add: framed_len_def)
      have "secure_loop M E s = secure_loop M E t'"
        using False p Some last by (subst secure_loop.simps) (auto simp: dispatch_buf t'_def Let_def)
      then show ?thesis
        using IH False p Some by (subst drain.simps)
          (simp add: framed_len_buf secure_handle_def aes_unwrap_buf dispatch_buf t'_def)
    qed
  qed
qed

text \<open>A loop over a longer buffer is the loop over the front part followed by the loop over what it
  left and the rest.\<close>

lemma loop_split: "(t\<lparr>s_rx := []\<rparr>, s_rx t) = (u\<lparr>s_rx := []\<rparr>, s_rx u) \<Longrightarrow> t = (u :: 'pt bt_session)"
  by (cases t, cases u) simp

lemma plain_loop_append:
  "plain_loop (s\<lparr>s_rx := b @ x\<rparr>) =
     plain_loop ((plain_loop (s\<lparr>s_rx := b\<rparr>))\<lparr>s_rx := s_rx (plain_loop (s\<lparr>s_rx := b\<rparr>)) @ x\<rparr>)"
proof (rule loop_split)
  let ?t = "plain_loop (s\<lparr>s_rx := b\<rparr>)" and ?d = "drain (\<lambda>_. plain_frame_len) (\<lambda>s f. Some (handle_modbus s f))"
  have whole: "?d (s\<lparr>s_rx := []\<rparr>) (b @ x)
      = Some ((plain_loop (s\<lparr>s_rx := b @ x\<rparr>))\<lparr>s_rx := []\<rparr>, s_rx (plain_loop (s\<lparr>s_rx := b @ x\<rparr>)))"
    using plain_loop_drain [of "s\<lparr>s_rx := b @ x\<rparr>"] by simp
  have "?d (s\<lparr>s_rx := []\<rparr>) (b @ x) = ?d (?t\<lparr>s_rx := []\<rparr>) (s_rx ?t @ x)"
    using plain_framing.drain_append [of "s\<lparr>s_rx := []\<rparr>" b x] plain_loop_drain [of "s\<lparr>s_rx := b\<rparr>"] by simp
  also have "\<dots> = Some ((plain_loop (?t\<lparr>s_rx := s_rx ?t @ x\<rparr>))\<lparr>s_rx := []\<rparr>, s_rx (plain_loop (?t\<lparr>s_rx := s_rx ?t @ x\<rparr>)))"
    using plain_loop_drain [of "?t\<lparr>s_rx := s_rx ?t @ x\<rparr>"] by simp
  finally show "((plain_loop (s\<lparr>s_rx := b @ x\<rparr>))\<lparr>s_rx := []\<rparr>, s_rx (plain_loop (s\<lparr>s_rx := b @ x\<rparr>)))
      = ((plain_loop (?t\<lparr>s_rx := s_rx ?t @ x\<rparr>))\<lparr>s_rx := []\<rparr>, s_rx (plain_loop (?t\<lparr>s_rx := s_rx ?t @ x\<rparr>)))"
    using whole by simp
qed

lemma handle_modbus_plain [simp]: "s_plain (handle_modbus s f) = s_plain s"
  by (simp add: handle_modbus_def emit_def Let_def)

lemma plain_loop_keeps: "length (s_rx (plain_loop s)) \<le> length (s_rx s) \<and> s_plain (plain_loop s) = s_plain s"
proof (induction s rule: plain_loop.induct)
  case (1 s)
  show ?case
  proof (cases "length (s_rx s) < 3 \<or> length (s_rx s) < plain_frame_len (s_rx s)")
    case True
    then show ?thesis by (subst (1 2) plain_loop.simps) (auto simp: Let_def)
  next
    case False
    note IH = "1.IH" [OF _ refl _ refl]
    show ?thesis
      using IH False by (subst (1 2) plain_loop.simps) (auto simp: Let_def)
  qed
qed

lemma secure_loop_keeps:
  assumes "mbedtls_sizes M" and "secure_up s" and "secure_loop M E s = Some t"
  shows "length (s_rx t) \<le> length (s_rx s) \<and> secure_up t"
  using assms(2,3)
proof (induction "length (s_rx s)" arbitrary: s rule: less_induct)
  case less
  let ?n = "framed_len s (s_rx s)"
  show ?case
  proof (cases "?n = 0 \<or> length (s_rx s) < ?n \<or> aes_unwrap M s (take ?n (s_rx s)) RX_MAX = None")
    case True
    then show ?thesis
      using less.prems secure_loop.simps [of M E s] by (auto simp: Let_def split: if_splits)
  next
    case False
    then obtain p where p: "aes_unwrap M s (take ?n (s_rx s)) RX_MAX = Some p" and n: "?n \<noteq> 0" "?n \<le> length (s_rx s)"
      by auto
    then obtain u where u: "dispatch M E (s\<lparr>s_rx := drop ?n (s_rx s)\<rparr>) p = Some u"
      using less.prems secure_loop.simps [of M E s] by (auto simp: Let_def split: option.splits)
    have up: "secure_up u" by (rule dispatch_secure [OF assms(1) _ u]) (simp add: less.prems(1))
    have rx: "s_rx u = drop ?n (s_rx s)" using dispatch_rx [OF u] by simp
    have "length (s_rx u) < length (s_rx s)" using rx n by simp
    moreover have "t = u \<or> secure_loop M E u = Some t"
      using less.prems(2) secure_loop.simps [of M E s] p n u by (auto simp: Let_def split: if_splits)
    ultimately show ?thesis using less.hyps [OF _ up] up by force
  qed
qed

lemma secure_loop_append:
  assumes "cbc_inverts M" and "mbedtls_sizes M" and "secure_up s" and "length (b @ x) \<le> RX_MAX"
  shows "secure_loop M E (s\<lparr>s_rx := b @ x\<rparr>) =
     (case secure_loop M E (s\<lparr>s_rx := b\<rparr>) of None \<Rightarrow> None
      | Some t \<Rightarrow> secure_loop M E (t\<lparr>s_rx := s_rx t @ x\<rparr>))"
proof -
  let ?d = "drain framed_len (secure_handle M E)" and ?f = "\<lambda>t :: 'a bt_session. (t\<lparr>s_rx := []\<rparr>, s_rx t)"
  have loop: "?d (u\<lparr>s_rx := []\<rparr>) r = map_option ?f (secure_loop M E (u\<lparr>s_rx := r\<rparr>))"
    if "secure_up u" "length r \<le> RX_MAX" for u r
    using secure_loop_drain [OF assms(1,2), of "u\<lparr>s_rx := r\<rparr>" E] that by simp
  have inj: "map_option ?f a = map_option ?f b \<Longrightarrow> a = b" for a b
    by (cases a; cases b) (auto intro: loop_split)
  have "map_option ?f (secure_loop M E (s\<lparr>s_rx := b @ x\<rparr>)) =
     (case secure_loop M E (s\<lparr>s_rx := b\<rparr>) of None \<Rightarrow> None | Some t \<Rightarrow> ?d (t\<lparr>s_rx := []\<rparr>) (s_rx t @ x))"
    using loop [OF assms(3,4)] loop [OF assms(3), of b] assms(4) secure_framing.drain_append [of _ "s\<lparr>s_rx := []\<rparr>" b x]
    by (auto split: option.splits)
  also have "\<dots> = map_option ?f (case secure_loop M E (s\<lparr>s_rx := b\<rparr>) of None \<Rightarrow> None
      | Some t \<Rightarrow> secure_loop M E (t\<lparr>s_rx := s_rx t @ x\<rparr>))"
    using loop secure_loop_keeps [OF assms(2), of "s\<lparr>s_rx := b\<rparr>" E] assms(3,4)
    by (cases "secure_loop M E (s\<lparr>s_rx := b\<rparr>)") fastforce+
  finally show ?thesis by (rule inj)
qed

fun session_feeds :: "'pt mbedtls \<Rightarrow> sess_env \<Rightarrow> 'pt bt_session \<Rightarrow> byte list list \<Rightarrow> 'pt bt_session option" where
  "session_feeds M E s [] = Some s"
| "session_feeds M E s (f # fs) =
     (case bt_session_feed M E s f of None \<Rightarrow> None | Some s' \<Rightarrow> session_feeds M E s' fs)"

section \<open>Reachable sessions\<close>

inductive session_reachable :: "'pt mbedtls \<Rightarrow> sess_env \<Rightarrow> 'pt bt_session \<Rightarrow> bool" for M E where
  new: "session_reachable M E (bt_session_new r a)"
| feed: "session_reachable M E s \<Longrightarrow> bt_session_feed M E s d = Some s' \<Longrightarrow> session_reachable M E s'"
| read_regs: "session_reachable M E s \<Longrightarrow> session_reachable M E (snd (bt_session_read_regs M E s addr n))"
| write_reg: "session_reachable M E s \<Longrightarrow> session_reachable M E (snd (bt_session_write_reg M E s addr v))"
| reset: "session_reachable M E s \<Longrightarrow> session_reachable M E (bt_session_reset s)"
| use_plain: "session_reachable M E s \<Longrightarrow> session_reachable M E (bt_session_use_plain s)"

text \<open>A public key is authentic when the vendor's key K2 has signed it together with some IV.\<close>

definition k2_signed :: "'pt mbedtls \<Rightarrow> byte list \<Rightarrow> bool" where
  "k2_signed M peer \<longleftrightarrow> (\<exists>iv sig. bt_ecdsa_verify_k2 M (peer @ iv) sig = 0)"

definition keys_inv :: "'pt mbedtls \<Rightarrow> 'pt bt_session \<Rightarrow> bool" where
  "keys_inv M s \<longleftrightarrow>
     (s_kp s \<noteq> None \<longrightarrow> k2_signed M (s_peer_pub s)) \<and>
     (s_have_secure s \<longrightarrow> (\<exists>peer kp k. k2_signed M peer \<and> bt_ecdh_shared M k kp peer = (0, s_secure_key s)))"

definition mode_inv :: "'pt bt_session \<Rightarrow> bool" where
  "mode_inv s \<longleftrightarrow>
     (s_plain s \<longrightarrow> s_state s = BT_SESS_READY \<and> \<not> s_have_unsecure s \<and> \<not> s_have_secure s) \<and>
     (s_have_unsecure s \<or> s_have_secure s \<longrightarrow> s_state s \<noteq> BT_SESS_IDLE)"

lemma reply_pubkey_keys [simp]: "keys_inv M (reply_pubkey M E s p) = keys_inv M s"
  by (simp add: reply_pubkey_def keys_inv_def send_def Let_def split: option.splits prod.splits)

lemma keys_inv_fail [simp]: "keys_inv M (session_fail s) = keys_inv M s"
  by (simp add: keys_inv_def)

lemma keys_inv_send [simp]: "keys_inv M (snd (send E s d)) = keys_inv M s"
  by (simp add: keys_inv_def)

lemma keys_inv_emit [simp]: "keys_inv M (emit out s) = keys_inv M s"
  by (simp add: keys_inv_def emit_def)

lemma keys_inv_rx [simp]: "keys_inv M (s\<lparr>s_rx := r\<rparr>) = keys_inv M s"
  by (simp add: keys_inv_def)

lemma on_challenge_keys: "keys_inv M s \<Longrightarrow> keys_inv M (on_challenge M E s d n)"
  by (auto simp: on_challenge_def keys_inv_def send_def Let_def split: option.splits)

lemma publish_key_keys [simp]: "keys_inv M (publish_key M E s) = keys_inv M s"
  by (simp add: publish_key_def split: option.splits prod.splits)

lemma on_peer_pubkey_keys:
  assumes "keys_inv M s"
  shows "keys_inv M (on_peer_pubkey M E s d n)"
proof -
  have "keys_inv M (ensure_keypair M (s\<lparr>s_peer_pub := p\<rparr>))" if "k2_signed M p" for p
    using assms that by (simp add: keys_inv_def)
  then show ?thesis
    using assms by (auto simp: on_peer_pubkey_def k2_signed_def Let_def)
qed

lemma on_pubkey_accepted_keys:
  assumes "keys_inv M s" and "on_pubkey_accepted M E s d n = Some s'"
  shows "keys_inv M s'"
proof (cases "s' = session_fail s")
  case False
  then obtain kp where kp: "s_kp s = Some kp" and n: "\<not> (env_trace E \<and> n > length d)" "n = 1 \<and> d ! 0 = 0"
    using assms(2) by (auto simp: on_pubkey_accepted_def split: if_splits option.splits)
  obtain rc z where z: "bt_ecdh_shared M (s_draws s) kp (s_peer_pub s) = (rc, z)" by fastforce
  have "k2_signed M (s_peer_pub s)" using assms(1) kp by (simp add: keys_inv_def)
  moreover have "s' = (if rc \<noteq> 0 then session_fail (s\<lparr>s_draws := Suc (s_draws s)\<rparr>)
      else s\<lparr>s_draws := Suc (s_draws s), s_secure_key := z, s_have_secure := True, s_state := BT_SESS_READY\<rparr>)"
    using assms(2) kp n z by (simp add: on_pubkey_accepted_def Let_def split: if_splits)
  ultimately show ?thesis using assms(1) z by (auto simp: keys_inv_def)
qed (use assms in simp)

lemma handle_kex_keys: "keys_inv M s \<Longrightarrow> handle_kex M E s f = Some s' \<Longrightarrow> keys_inv M s'"
  by (auto simp: handle_kex_def Let_def on_challenge_keys on_peer_pubkey_keys
      dest: on_pubkey_accepted_keys split: if_splits)

lemma handle_modbus_keys [simp]: "keys_inv M (handle_modbus s f) = keys_inv M s"
  by (simp add: handle_modbus_def Let_def)

lemma dispatch_keys: "keys_inv M s \<Longrightarrow> dispatch M E s f = Some s' \<Longrightarrow> keys_inv M s'"
  by (auto simp: dispatch_def handle_kex_keys split: if_splits)

text \<open>An invariant of the handlers that does not speak about the buffer is one of the receive path.\<close>

lemma secure_loop_preserves:
  assumes step: "\<And>s f s'. P s \<Longrightarrow> dispatch M E s f = Some s' \<Longrightarrow> P s'"
    and rx: "\<And>s r. P (s\<lparr>s_rx := r\<rparr>) = P s"
    and "P s" and "secure_loop M E s = Some t"
  shows "P t \<and> length (s_rx t) \<le> length (s_rx s)"
  using assms(3,4)
proof (induction "length (s_rx s)" arbitrary: s rule: less_induct)
  case less
  let ?n = "framed_len s (s_rx s)"
  show ?case
  proof (cases "?n = 0 \<or> length (s_rx s) < ?n \<or> aes_unwrap M s (take ?n (s_rx s)) RX_MAX = None")
    case True
    then show ?thesis
      using less.prems rx secure_loop.simps [of M E s] by (auto simp: Let_def split: if_splits)
  next
    case False
    then obtain p where p: "aes_unwrap M s (take ?n (s_rx s)) RX_MAX = Some p" and n: "?n \<noteq> 0" "?n \<le> length (s_rx s)"
      by auto
    then obtain u where u: "dispatch M E (s\<lparr>s_rx := drop ?n (s_rx s)\<rparr>) p = Some u"
      using less.prems secure_loop.simps [of M E s] by (auto simp: Let_def split: option.splits)
    have Pu: "P u" by (rule step [OF _ u]) (simp add: rx less.prems(1))
    have "length (s_rx u) < length (s_rx s)" using dispatch_rx [OF u] n by simp
    moreover have "t = u \<or> secure_loop M E u = Some t"
      using less.prems(2) secure_loop.simps [of M E s] p n u by (auto simp: Let_def split: if_splits)
    ultimately show ?thesis using less.hyps [OF _ Pu] Pu by force
  qed
qed

lemma plain_loop_preserves:
  assumes step: "\<And>s f. P s \<Longrightarrow> P (handle_modbus s f)"
    and rx: "\<And>s r. P (s\<lparr>s_rx := r\<rparr>) = P s"
    and "P s"
  shows "P (plain_loop s)"
  using assms(3)
proof (induction s rule: plain_loop.induct)
  case (1 s)
  show ?case
  proof (cases "length (s_rx s) < 3 \<or> length (s_rx s) < plain_frame_len (s_rx s)")
    case True
    then show ?thesis using "1.prems" by (subst plain_loop.simps) (auto simp: Let_def)
  next
    case False
    note IH = "1.IH" [OF _ refl _ refl]
    show ?thesis
      using IH False "1.prems" step rx by (subst plain_loop.simps) (auto simp: Let_def)
  qed
qed

lemma feed_preserves:
  assumes modbus: "\<And>s f. P s \<Longrightarrow> P (handle_modbus s f)"
    and kex: "\<And>s f s'. P s \<Longrightarrow> handle_kex M E s f = Some s' \<Longrightarrow> P s'"
    and rx: "\<And>s r. P (s\<lparr>s_rx := r\<rparr>) = P s"
    and "P s" and feed: "bt_session_feed M E s d = Some s'"
  shows "P s'"
proof -
  have disp: "P s \<Longrightarrow> dispatch M E s f = Some s' \<Longrightarrow> P s'" for s f s'
    using modbus kex by (auto simp: dispatch_def split: if_splits)
  have "P (plain_loop (s\<lparr>s_rx := r\<rparr>))" for r
    by (rule plain_loop_preserves [where P = P]) (use modbus rx \<open>P s\<close> in auto)
  moreover have "secure_loop M E (s\<lparr>s_rx := r\<rparr>) = Some s' \<Longrightarrow> P s'" for r
    by (rule secure_loop_preserves [where P = P and s = "s\<lparr>s_rx := r\<rparr>", THEN conjunct1]) (use disp rx \<open>P s\<close> in auto)
  ultimately show ?thesis
    using feed \<open>P s\<close> rx kex by (auto simp: bt_session_feed_def split: if_splits)
qed

lemma read_regs_frame [simp]:
  "s_plain (snd (bt_session_read_regs M E s a v)) = s_plain s"
  "s_have_secure (snd (bt_session_read_regs M E s a v)) = s_have_secure s"
  "s_have_unsecure (snd (bt_session_read_regs M E s a v)) = s_have_unsecure s"
  "s_kp (snd (bt_session_read_regs M E s a v)) = s_kp s"
  "s_peer_pub (snd (bt_session_read_regs M E s a v)) = s_peer_pub s"
  "s_secure_key (snd (bt_session_read_regs M E s a v)) = s_secure_key s"
  "s_unsecure_key (snd (bt_session_read_regs M E s a v)) = s_unsecure_key s"
  "s_unsecure_iv (snd (bt_session_read_regs M E s a v)) = s_unsecure_iv s"
  "s_state (snd (bt_session_read_regs M E s a v)) = s_state s"
  "s_pubkey_reply (snd (bt_session_read_regs M E s a v)) = s_pubkey_reply s"
  by (simp_all add: bt_session_read_regs_def send_def Let_def split: option.splits)

lemma write_reg_frame [simp]:
  "s_plain (snd (bt_session_write_reg M E s a v)) = s_plain s"
  "s_have_secure (snd (bt_session_write_reg M E s a v)) = s_have_secure s"
  "s_have_unsecure (snd (bt_session_write_reg M E s a v)) = s_have_unsecure s"
  "s_kp (snd (bt_session_write_reg M E s a v)) = s_kp s"
  "s_peer_pub (snd (bt_session_write_reg M E s a v)) = s_peer_pub s"
  "s_secure_key (snd (bt_session_write_reg M E s a v)) = s_secure_key s"
  "s_unsecure_key (snd (bt_session_write_reg M E s a v)) = s_unsecure_key s"
  "s_unsecure_iv (snd (bt_session_write_reg M E s a v)) = s_unsecure_iv s"
  "s_state (snd (bt_session_write_reg M E s a v)) = s_state s"
  "s_pubkey_reply (snd (bt_session_write_reg M E s a v)) = s_pubkey_reply s"
  by (simp_all add: bt_session_write_reg_def send_def Let_def split: option.splits)

lemma read_regs_rx: "length (s_rx (snd (bt_session_read_regs M E s a v))) \<le> length (s_rx s)"
  by (simp add: bt_session_read_regs_def send_def Let_def split: option.splits)

lemma write_reg_rx: "length (s_rx (snd (bt_session_write_reg M E s a v))) \<le> length (s_rx s)"
  by (simp add: bt_session_write_reg_def send_def Let_def split: option.splits)

lemma handle_kex_mode:
  assumes "mode_inv s" and "\<not> s_plain s" and "handle_kex M E s f = Some s'"
  shows "mode_inv s' \<and> \<not> s_plain s'"
proof -
  have "mode_inv (on_challenge M E s d n) \<and> \<not> s_plain (on_challenge M E s d n)" for d n
    using assms(1,2) by (auto simp: on_challenge_def mode_inv_def send_def Let_def split: option.splits)
  moreover have rep: "mode_inv (reply_pubkey M E t p) \<and> \<not> s_plain (reply_pubkey M E t p)"
    if "mode_inv t" "\<not> s_plain t" for t p
    using that by (auto simp: reply_pubkey_def mode_inv_def send_def Let_def split: option.splits prod.splits)
  moreover have pub: "mode_inv (publish_key M E t) \<and> \<not> s_plain (publish_key M E t)"
    if "mode_inv t" "\<not> s_plain t" for t
    using that rep [OF that] by (auto simp: publish_key_def split: option.splits prod.splits) (simp_all add: mode_inv_def)
  moreover have "mode_inv (on_peer_pubkey M E s d n) \<and> \<not> s_plain (on_peer_pubkey M E s d n)" for d n
    using assms(1,2) pub [of "ensure_keypair M (s\<lparr>s_peer_pub := take BT_P256_PUBLEN d\<rparr>)"]
    by (auto simp: on_peer_pubkey_def Let_def mode_inv_def)
  moreover have "on_pubkey_accepted M E s d n = Some s' \<Longrightarrow> mode_inv s' \<and> \<not> s_plain s'" for d n
    using assms(1,2) by (auto simp: on_pubkey_accepted_def mode_inv_def Let_def split: if_splits option.splits prod.splits)
  ultimately show ?thesis
    using assms by (auto simp: handle_kex_def Let_def split: if_splits)
qed

lemma handle_modbus_mode [simp]: "mode_inv (handle_modbus s f) = mode_inv s"
  by (simp add: handle_modbus_def emit_def mode_inv_def Let_def)

lemma mode_inv_rx [simp]: "mode_inv (s\<lparr>s_rx := r\<rparr>) = mode_inv s"
  by (simp add: mode_inv_def)

lemma feed_mode:
  assumes "mode_inv s" and "bt_session_feed M E s d = Some s'"
  shows "mode_inv s'"
proof (cases "s_plain s")
  case True
  have "mode_inv (plain_loop (s\<lparr>s_rx := r\<rparr>))" for r
    by (rule plain_loop_preserves [where P = mode_inv]) (simp_all add: assms(1))
  then show ?thesis using assms True by (auto simp: bt_session_feed_def split: if_splits)
next
  case False
  have "mode_inv s' \<and> \<not> s_plain s'"
  proof (rule feed_preserves [where P = "\<lambda>s. mode_inv s \<and> \<not> s_plain s", OF _ _ _ _ assms(2)])
    show "\<And>t f t'. mode_inv t \<and> \<not> s_plain t \<Longrightarrow> handle_kex M E t f = Some t' \<Longrightarrow> mode_inv t' \<and> \<not> s_plain t'"
      using handle_kex_mode by blast
  qed (simp_all add: assms(1) False)
  then show ?thesis ..
qed

text \<open>The sizes of the arrays of the session record.\<close>

definition array_inv :: "'pt bt_session \<Rightarrow> bool" where
  "array_inv s \<longleftrightarrow> length (s_unsecure_key s) = 16 \<and> length (s_unsecure_iv s) = 16 \<and>
     length (s_secure_key s) = 32 \<and> length (s_peer_pub s) = BT_P256_PUBLEN \<and> length (s_pubkey_reply s) \<le> RX_MAX"

lemma array_inv_frame [simp]:
  "array_inv (session_fail s) = array_inv s" "array_inv (snd (send E s d)) = array_inv s"
  "array_inv (ensure_keypair M s) = array_inv s" "array_inv (s\<lparr>s_rx := r\<rparr>) = array_inv s"
  "array_inv (s\<lparr>s_state := st\<rparr>) = array_inv s" "array_inv (s\<lparr>s_draws := k\<rparr>) = array_inv s"
  by (simp_all add: array_inv_def ensure_keypair_def split: option.splits)

lemma handle_modbus_array [simp]: "array_inv (handle_modbus s f) = array_inv s"
  by (simp add: handle_modbus_def emit_def array_inv_def Let_def)

definition len_prefix :: "nat \<Rightarrow> byte list" where
  "len_prefix n = [ucast (drop_bit 8 (of_nat n :: u32)), ucast (of_nat n :: u32)]"

definition pad_zero :: "byte list \<Rightarrow> byte list" where
  "pad_zero p = p @ replicate (padded_len (length p) - length p) 0"

lemma length_pad_zero [simp]: "length (pad_zero p) = padded_len (length p)"
  using padded_len_props(1) [of "length p"] by (simp add: pad_zero_def)

lemma aes_wrap_fixed:
  "aes_wrap M k key (Some iv) p n = Some w \<longleftrightarrow>
     2 + padded_len (length p) \<le> n \<and> padded_len (length p) \<le> RX_MAX \<and>
     (\<exists>ct. bt_aes_cbc_encrypt M key iv (pad_zero p) = (0, ct) \<and> w = len_prefix (length p) @ ct)"
  by (auto simp: aes_wrap_def Let_def len_prefix_def pad_zero_def split: prod.splits)

lemma aes_wrap_seeded:
  "aes_wrap M k key None p n = Some w \<longleftrightarrow>
     6 + padded_len (length p) \<le> n \<and> padded_len (length p) \<le> RX_MAX \<and>
     (\<exists>ct. bt_aes_cbc_encrypt M key (bt_md5 M (bt_random M k 4)) (pad_zero p) = (0, ct) \<and>
           w = len_prefix (length p) @ bt_random M k 4 @ ct)"
  by (auto simp: aes_wrap_def Let_def len_prefix_def pad_zero_def split: prod.splits)

lemma encrypt_length:
  "mbedtls_sizes M \<Longrightarrow> bt_aes_cbc_encrypt M key iv x = (0, ct) \<Longrightarrow> length ct = length x"
  using aes_cbc_length [of M key iv x MBEDTLS_AES_ENCRYPT] by (simp add: bt_aes_cbc_encrypt_def)

lemma aes_wrap_bound: "mbedtls_sizes M \<Longrightarrow> aes_wrap M k key (Some iv) p n = Some w \<Longrightarrow> length w \<le> n"
  by (auto simp: aes_wrap_fixed len_prefix_def dest!: encrypt_length)

lemma reply_pubkey_array: "mbedtls_sizes M \<Longrightarrow> array_inv s \<Longrightarrow> array_inv (reply_pubkey M E s p)"
  by (auto simp: reply_pubkey_def send_def Let_def array_inv_def dest: aes_wrap_bound split: option.splits prod.splits)

lemma publish_key_array: "mbedtls_sizes M \<Longrightarrow> array_inv s \<Longrightarrow> array_inv (publish_key M E s)"
  by (auto simp: publish_key_def reply_pubkey_array split: option.splits prod.splits)

lemma on_challenge_array: "mbedtls_sizes M \<Longrightarrow> array_inv s \<Longrightarrow> array_inv (on_challenge M E s d n)"
  by (auto simp: on_challenge_def send_def Let_def array_inv_def mbedtls_sizes_def bt_md5_def LOCAL_AES_KEY_def
      split: option.splits)

lemma on_peer_pubkey_array:
  assumes "mbedtls_sizes M" and "array_inv s" and "n = 128 \<Longrightarrow> BT_P256_PUBLEN \<le> length d"
  shows "array_inv (on_peer_pubkey M E s d n)"
proof -
  have "array_inv (s\<lparr>s_peer_pub := take BT_P256_PUBLEN d\<rparr>)" if "n = 128"
    using assms(2,3) that by (simp add: array_inv_def)
  then show ?thesis
    using assms publish_key_array [OF assms(1), of "ensure_keypair M (s\<lparr>s_peer_pub := take BT_P256_PUBLEN d\<rparr>)" E]
    by (simp add: on_peer_pubkey_def Let_def)
qed

lemma on_pubkey_accepted_array:
  "mbedtls_sizes M \<Longrightarrow> array_inv s \<Longrightarrow> on_pubkey_accepted M E s d n = Some s' \<Longrightarrow> array_inv s'"
  by (auto simp: on_pubkey_accepted_def Let_def dest: bt_ecdh_shared_length split: if_splits option.splits prod.splits)
    (auto simp: array_inv_def dest: bt_ecdh_shared_length)

lemma kex_data_len:
  assumes "unat ((of_nat b :: u32) - 2) = 128"
  shows "130 \<le> b"
proof -
  have "(of_nat b :: u32) - 2 = 128" using assms by (metis of_nat_numeral of_nat_unat ucast_id)
  then have "(of_nat b :: u32) = 130" by (simp add: diff_eq_eq)
  then have "b mod 2 ^ 32 = 130" using unat_of_nat [of b, where 'a = 32] by simp
  then show ?thesis by (metis mod_less_eq_dividend)
qed

lemma handle_kex_array:
  assumes "mbedtls_sizes M" and "array_inv s" and "handle_kex M E s f = Some s'"
  shows "array_inv s'"
proof -
  have "array_inv (on_peer_pubkey M E s (drop 4 f) (unat ((of_nat (length f - 4) :: u32) - 2)))"
    by (rule on_peer_pubkey_array [OF assms(1,2)]) (use kex_data_len [of "length f - 4"] in simp)
  then show ?thesis
    using assms by (auto simp: handle_kex_def Let_def on_challenge_array dest: on_pubkey_accepted_array split: if_splits)
qed

section \<open>Properties\<close>

lemma reachable_keys: "session_reachable M E s \<Longrightarrow> keys_inv M s"
proof (induction rule: session_reachable.induct)
  case (feed s d s')
  show ?case
    by (rule feed_preserves [where P = "keys_inv M", OF _ _ _ feed.IH feed.hyps(2)]) (auto dest: handle_kex_keys)
qed (auto simp: keys_inv_def bt_session_new_def bt_session_reset_def bt_session_use_plain_def)

lemma reachable_mode: "session_reachable M E s \<Longrightarrow> mode_inv s"
proof (induction rule: session_reachable.induct)
  case (feed s d s')
  then show ?case by (blast intro: feed_mode)
next
  case (use_plain s)
  then show ?case by (auto simp: mode_inv_def bt_session_use_plain_def)
qed (auto simp: mode_inv_def bt_session_new_def bt_session_reset_def)

lemma feed_rx_bound:
  assumes "length (s_rx s) \<le> RX_MAX" and "bt_session_feed M E s d = Some s'"
  shows "length (s_rx s') \<le> RX_MAX"
proof -
  have "secure_loop M E (s\<lparr>s_rx := s_rx s @ d\<rparr>) = Some s' \<Longrightarrow> length (s_rx s') \<le> length (s_rx s @ d)"
    using secure_loop_preserves [where P = "\<lambda>_. True", of M E "s\<lparr>s_rx := s_rx s @ d\<rparr>" s'] by simp
  then show ?thesis
    using assms plain_loop_keeps [of "s\<lparr>s_rx := s_rx s @ d\<rparr>"] handle_kex_rx [of M E s d s']
    by (auto simp: bt_session_feed_def split: if_splits)
qed

lemma reachable_arrays:
  assumes "mbedtls_sizes M"
  shows "session_reachable M E s \<Longrightarrow> array_inv s \<and> length (s_rx s) \<le> RX_MAX"
proof (induction rule: session_reachable.induct)
  case (feed s d s')
  have "array_inv s'"
    by (rule feed_preserves [where P = array_inv, OF _ _ _ conjunct1 [OF feed.IH] feed.hyps(2)])
      (auto dest: handle_kex_array [OF assms])
  then show ?case using feed feed_rx_bound by blast
next
  case (read_regs s a n)
  then show ?case using read_regs_rx [of M E s a n] by (auto simp: array_inv_def)
next
  case (write_reg s a n)
  then show ?case using write_reg_rx [of M E s a n] by (auto simp: array_inv_def)
qed (auto simp: array_inv_def bt_session_new_def bt_session_reset_def bt_session_use_plain_def)

text \<open>A toy library for the witnesses: block ciphers that return their input, points that are
  their encoding, a signature check that accepts messages starting with 9.\<close>

definition ex_mbedtls :: "byte list mbedtls" where
  "ex_mbedtls = \<lparr>mb_md5 = (\<lambda>x. take 16 (x @ replicate 16 7)), mb_sha256 = take 32,
     mb_aes_setkey_enc = (\<lambda>_ _. 0), mb_aes_setkey_dec = (\<lambda>_ _. 0), mb_aes_crypt_cbc = (\<lambda>_ _ _ x. (0, x)),
     mb_ecp_group_load = 0, mb_ecp_point_read_binary = (\<lambda>b. (0, b)), mb_ecp_point_write_binary = (\<lambda>b. (0, b)),
     mb_ecp_check_pubkey = (\<lambda>_. 0), mb_mpi_read_binary = (\<lambda>_. (0, 1)), mb_mpi_write_binary = (\<lambda>_ n. (0, replicate n 3)),
     mb_ecdsa_verify = (\<lambda>d _ _ _. if d ! 0 = 9 then 0 else - 1), mb_ecdsa_sign = (\<lambda>_ _ _. (0, 1, 1)),
     mb_ecp_gen_keypair = (\<lambda>_. (0, 1, 4 # replicate 64 5)), mb_ecdh_compute_shared = (\<lambda>_ _ _. (0, 1)),
     esp_fill_random = (\<lambda>_ n. replicate n 1), calloc_ok = (\<lambda>_. True)\<rparr>"

definition ex_env :: sess_env where "ex_env = \<lparr>env_trace = False, env_tx = (\<lambda>_. 0)\<rparr>"

lemma ex_mbedtls_ok: "mbedtls_sizes ex_mbedtls" "cbc_inverts ex_mbedtls"
  by (auto simp: ex_mbedtls_def mbedtls_sizes_def cbc_inverts_def min_def)

definition ex_kex :: "byte list \<Rightarrow> byte list" where
  "ex_kex body = [KEX_MAGIC0, KEX_MAGIC1] @ body @ hexsum body"

definition ex_handshake :: "byte list list" where
  "ex_handshake = [ex_kex [1, 4, 10, 11, 12, 13], ex_kex ([4, 0x80] @ replicate 64 9 @ replicate 64 8), ex_kex [6, 1, 0]]"

definition ex_secure :: "byte list bt_session" where
  "ex_secure = the (session_feeds ex_mbedtls ex_env (bt_session_new True True) ex_handshake)"

definition ex_link :: "byte list bt_session" where
  "ex_link = (bt_session_new True True)\<lparr>s_state := BT_SESS_READY, s_have_unsecure := True, s_have_secure := True,
     s_secure_key := replicate 32 3\<rparr>"

lemma ex_link_facts: "secure_up ex_link" "s_rx ex_link = []" "s_has_regs ex_link"
  by (simp_all add: ex_link_def secure_up_def bt_session_new_def)

lemma session_feeds_reachable:
  "session_reachable M E s \<Longrightarrow> session_feeds M E s fs = Some s' \<Longrightarrow> session_reachable M E s'"
  by (induction fs arbitrary: s) (auto split: option.splits intro: session_reachable.feed)

lemma ex_handshake_run:
  "case session_feeds ex_mbedtls ex_env (bt_session_new True True) ex_handshake of
     None \<Rightarrow> False | Some s \<Rightarrow> bt_session_ready s \<and> \<not> s_plain s"
  by code_simp

lemma ex_secure_facts:
  "session_feeds ex_mbedtls ex_env (bt_session_new True True) ex_handshake = Some ex_secure"
  "bt_session_ready ex_secure" "\<not> s_plain ex_secure"
  using ex_handshake_run by (auto simp: ex_secure_def split: option.splits)

lemma ex_secure_reachable: "session_reachable ex_mbedtls ex_env ex_secure"
  by (rule session_feeds_reachable [OF session_reachable.new ex_secure_facts(1)])



text \<open>C38: Every buffer of a reachable session stays within its array: the receive buffer and the
  cached reply within 512 bytes, keys, IV and peer key at exactly their sizes, for every sequence of
  fragments of any size, provided the crypto library returns results of the documented sizes.\<close>

theorem session_buffers_bounded:
  assumes "session_reachable M E s" and "mbedtls_sizes M"
  shows "length (s_rx s) \<le> RX_MAX \<and> length (s_pubkey_reply s) \<le> RX_MAX \<and>
     length (s_unsecure_key s) = 16 \<and> length (s_unsecure_iv s) = 16 \<and> length (s_secure_key s) = 32 \<and>
     length (s_peer_pub s) = BT_P256_PUBLEN"
  using reachable_arrays [OF assms(2,1)] by (simp add: array_inv_def)

theorem session_buffers_bounded_witness: "length (s_pubkey_reply ex_secure) \<le> RX_MAX"
  using session_buffers_bounded [OF ex_secure_reachable ex_mbedtls_ok(1)] by simp

lemma feeds_concat:
  assumes "s_plain s \<or> secure_up s \<and> cbc_inverts M \<and> mbedtls_sizes M"
    and "length (s_rx s) + length (concat (f # fs)) \<le> RX_MAX"
  shows "session_feeds M E s (f # fs) = bt_session_feed M E s (concat (f # fs))"
  using assms
proof (induction fs arbitrary: s f)
  case Nil
  then show ?case by (simp split: option.splits)
next
  case (Cons g fs)
  show ?case
  proof (cases "s_plain s")
    case True
    define t where "t = plain_loop (s\<lparr>s_rx := s_rx s @ f\<rparr>)"
    have feed: "bt_session_feed M E s f = Some t"
      using True Cons.prems(2) by (simp add: bt_session_feed_def t_def)
    have t: "s_plain t" "length (s_rx t) \<le> length (s_rx s @ f)"
      using plain_loop_keeps [of "s\<lparr>s_rx := s_rx s @ f\<rparr>"] True by (simp_all add: t_def)
    have "session_feeds M E t (g # fs) = bt_session_feed M E t (concat (g # fs))"
      by (rule Cons.IH) (use t Cons.prems(2) in auto)
    moreover have "bt_session_feed M E t (concat (g # fs)) = bt_session_feed M E s (f @ concat (g # fs))"
      using t True Cons.prems(2) plain_loop_append [of "s_rx s @ f" "concat (g # fs)" s]
      by (simp add: bt_session_feed_def t_def)
    ultimately show ?thesis using feed by (simp del: concat.simps(2)) simp
  next
    case False
    then have up: "secure_up s" and M: "cbc_inverts M" "mbedtls_sizes M" using Cons.prems(1) by auto
    have feed: "bt_session_feed M E u d = secure_loop M E (u\<lparr>s_rx := s_rx u @ d\<rparr>)"
      if "secure_up u" "length (s_rx u @ d) \<le> RX_MAX" for u d
      using that by (auto simp: bt_session_feed_def secure_up_def)
    have fits: "length ((s_rx s @ f) @ concat (g # fs)) \<le> RX_MAX" using Cons.prems(2) by simp
    note app = secure_loop_append [OF M up fits, of E]
    show ?thesis
    proof (cases "secure_loop M E (s\<lparr>s_rx := s_rx s @ f\<rparr>)")
      case None
      then show ?thesis using app feed [OF up] fits by simp
    next
      case (Some t)
      have t: "secure_up t" "length (s_rx t) \<le> length (s_rx s @ f)"
        using secure_loop_keeps [OF M(2) _ Some] up by simp_all
      have "session_feeds M E t (g # fs) = bt_session_feed M E t (concat (g # fs))"
        by (rule Cons.IH) (use t M Cons.prems(2) in auto)
      then show ?thesis
        using app Some feed [OF up] feed [OF t(1)] t(2) fits by simp
    qed
  qed
qed



lemma be16_hi8_lo8 [simp]: "be16 (hi8 w) (lo8 w) = w"
  by (rule bit_word_eqI) (auto simp: be16_def hi8_def lo8_def bit_or_iff bit_push_bit_iff bit_ucast_iff bit_drop_bit_eq)

lemma be16_inj: "be16 a b = be16 c d \<longleftrightarrow> a = c \<and> b = d"
proof
  assume eq: "be16 a b = be16 c d"
  have "hi8 (be16 x y) = x" for x y
    by (rule bit_word_eqI) (auto simp: be16_def hi8_def bit_or_iff bit_push_bit_iff bit_ucast_iff bit_drop_bit_eq dest: bit_imp_le_length)
  moreover have "lo8 (be16 x y) = y" for x y
    by (rule bit_word_eqI) (auto simp: be16_def lo8_def bit_or_iff bit_push_bit_iff bit_ucast_iff)
  ultimately show "a = c \<and> b = d" using eq by metis
qed simp

text \<open>A read response as a device sends it.\<close>

definition read_response :: "byte \<Rightarrow> byte list \<Rightarrow> byte list" where
  "read_response ident data =
     (let f = [ident, MODBUS_READ, of_nat (length data)] @ data; crc = bt_crc16_modbus f
      in f @ [lo8 crc, hi8 crc])"

lemma read_response_nth:
  "length data < 256 \<Longrightarrow> read_response ident data ! 0 = ident"
  "length data < 256 \<Longrightarrow> read_response ident data ! 1 = MODBUS_READ"
  "length data < 256 \<Longrightarrow> unat (read_response ident data ! 2) = length data"
  "length (read_response ident data) = length data + 5"
  by (simp_all add: read_response_def Let_def unat_of_nat)

lemma modbus_crc_ok_append:
  "modbus_crc_ok (f @ [lo8 crc, hi8 crc]) (length f) \<longleftrightarrow> bt_crc16_modbus f = crc"
  by (simp add: modbus_crc_ok_def nth_append)

lemma read_response_crc: "modbus_crc_ok (read_response ident data) (3 + length data)"
  using modbus_crc_ok_append [of "[ident, MODBUS_READ, of_nat (length data)] @ data"]
  by (simp add: read_response_def Let_def numeral_3_eq_3)

lemma handle_modbus_response:
  assumes "length data < 256"
  shows "handle_modbus s (read_response ident data) =
    (if s_has_regs s then emit (Regs (s_pending_addr s) data) s else s)"
proof -
  have "take (length data) (drop 3 (read_response ident data)) = data"
    by (simp add: read_response_def Let_def)
  then show ?thesis
    using read_response_nth(1-3) [OF assms, of ident] read_response_nth(4) [of ident data] read_response_crc [of ident data]
    by (simp add: handle_modbus_def)
qed

lemma frame_plain_len_prefix:
  assumes "n < 65536"
  shows "frame_plain_len (len_prefix n @ r) = n"
proof -
  have "unat (ucast (drop_bit 8 (of_nat n :: u32)) :: byte) = n div 256"
    using assms by (simp add: unsigned_ucast_eq unsigned_drop_bit_eq unat_of_nat take_bit_nat_eq_self drop_bit_nat_def take_bit_nat_def)
  moreover have "unat (ucast (of_nat n :: u32) :: byte) = n mod 256"
    using assms by (simp add: unsigned_ucast_eq unat_of_nat take_bit_nat_def)
  ultimately show ?thesis by (simp add: frame_plain_len_def len_prefix_def)
qed

lemma unwrap_wrap_seeded:
  assumes "cbc_inverts M" and "mbedtls_sizes M" and "secure_up s" and "length p < 65536"
    and "aes_wrap M k (s_secure_key s) None p RX_MAX = Some w"
  shows "aes_unwrap M s w RX_MAX = Some p" and "framed_len s w = length w" and "length w \<le> RX_MAX" and "6 \<le> length w"
proof -
  obtain ct where fit: "6 + padded_len (length p) \<le> RX_MAX"
    and ct: "bt_aes_cbc_encrypt M (s_secure_key s) (bt_md5 M (bt_random M k 4)) (pad_zero p) = (0, ct)"
    and w: "w = len_prefix (length p) @ bt_random M k 4 @ ct"
    using assms(5) unfolding aes_wrap_seeded by blast
  have lens: "length ct = padded_len (length p)" "length (bt_random M k 4) = 4" "length (len_prefix (length p)) = 2"
    using encrypt_length [OF assms(2) ct] assms(2) by (simp_all add: mbedtls_sizes_def bt_random_def len_prefix_def)
  have pl: "frame_plain_len w = length p" unfolding w by (rule frame_plain_len_prefix [OF assms(4)])
  have up: "s_have_secure s" "length (s_secure_key s) = 32" using assms(3) by (simp_all add: secure_up_def)
  have dec: "bt_aes_cbc_decrypt M (s_secure_key s) (bt_md5 M (bt_random M k 4)) ct = (0, pad_zero p)"
    using aes_cbc_roundtrip [OF assms(1,2), of "s_secure_key s" "pad_zero p" "bt_md5 M (bt_random M k 4)"] ct up padded_len_props(2)
    by simp
  have parts: "take 4 (drop 2 w) = bt_random M k 4" "drop 6 w = ct"
    using lens by (simp_all add: w)
  show "aes_unwrap M s w RX_MAX = Some p"
    unfolding aes_unwrap_def Let_def parts pl
    using up fit lens padded_len_props [of "length p"] by (simp add: dec pad_zero_def w)
  show "framed_len s w = length w" "length w \<le> RX_MAX" "6 \<le> length w"
    using up lens fit pl by (simp_all add: framed_len_def w)
qed

lemma feed_whole_response:
  assumes "cbc_inverts M" and "mbedtls_sizes M" and "secure_up s" and "s_rx s = []" and "length data < 256"
    and "aes_wrap M k (s_secure_key s) None (read_response ident data) RX_MAX = Some w"
  shows "bt_session_feed M E s w = Some (handle_modbus s (read_response ident data))"
proof -
  have short: "length (read_response ident data) < 65536" using assms(5) by (simp add: read_response_nth(4))
  note w = unwrap_wrap_seeded [OF assms(1-3) short assms(6)]
  have unwrap: "aes_unwrap M (s\<lparr>s_rx := w\<rparr>) w RX_MAX = Some (read_response ident data)" using w(1) by (simp add: aes_unwrap_buf)
  have disp: "dispatch M E (s\<lparr>s_rx := []\<rparr>) (read_response ident data) = Some (handle_modbus s (read_response ident data))"
    using assms(4) read_response_nth(2) [OF assms(5), of ident] handle_modbus_buf [of "[]" s]
    by (simp add: dispatch_def)
  have "secure_loop M E (s\<lparr>s_rx := w\<rparr>) = Some (handle_modbus s (read_response ident data))"
    using w unwrap disp assms(4) by (subst secure_loop.simps) (auto simp: framed_len_buf Let_def)
  then show ?thesis
    using assms(3,4) w(3) by (simp add: bt_session_feed_def secure_up_def)
qed

text \<open>C11: A register response survives the whole link: on a secure session with an empty buffer, a
  Modbus read response with any data of up to 255 bytes, encrypted by the device with the session
  key and any IV seed, and cut into notifications in any way, reaches the register callback exactly
  once, labelled with the pending address and carrying exactly the data, and leaves the buffer empty.\<close>

theorem secure_response_delivered:
  assumes "cbc_inverts M" and "mbedtls_sizes M" and "secure_up s" and "s_rx s = []" and "s_has_regs s"
    and "length data < 256"
    and "aes_wrap M k (s_secure_key s) None (read_response ident data) RX_MAX = Some (concat (f # fs))"
  shows "session_feeds M E s (f # fs) = Some (s\<lparr>s_out := s_out s @ [Regs (s_pending_addr s) data]\<rparr>)"
proof -
  have short: "length (read_response ident data) < 65536" using assms(6) by (simp add: read_response_nth(4))
  have "length (concat (f # fs)) \<le> RX_MAX" by (rule unwrap_wrap_seeded(3) [OF assms(1-3) short assms(7)])
  then have "session_feeds M E s (f # fs) = bt_session_feed M E s (concat (f # fs))"
    using assms(1-4) by (intro feeds_concat) simp_all
  then show ?thesis
    using feed_whole_response [OF assms(1-4,6,7), of E] assms(5)
    by (simp add: handle_modbus_response [OF assms(6)] emit_def)
qed

definition ex_wire :: "byte list" where
  "ex_wire = len_prefix 7 @ replicate 4 1 @ pad_zero (read_response 1 [0x12, 0x34])"

theorem secure_response_delivered_witness:
  "session_feeds ex_mbedtls ex_env ex_link [take 1 ex_wire, take 9 (drop 1 ex_wire), drop 10 ex_wire] =
   Some (ex_link\<lparr>s_out := s_out ex_link @ [Regs (s_pending_addr ex_link) [0x12, 0x34]]\<rparr>)"
proof -
  have len: "length (read_response 1 [0x12, 0x34]) = 7" by (simp add: read_response_nth(4))
  have "bt_aes_cbc_encrypt ex_mbedtls k iv x = (0, x)" if "length x mod BT_AES_BLOCK = 0" for k iv x
    using that by (simp add: bt_aes_cbc_encrypt_def aes_cbc_def ex_mbedtls_def)
  then have "aes_wrap ex_mbedtls 0 (s_secure_key ex_link) None (read_response 1 [0x12, 0x34]) RX_MAX = Some ex_wire"
    unfolding aes_wrap_seeded len using padded_len_props(2) [of 7]
    by (simp add: ex_wire_def len bt_random_def ex_mbedtls_def) (simp add: padded_len_def)
  moreover have "concat [take 1 ex_wire, take 9 (drop 1 ex_wire), drop 10 ex_wire] = ex_wire"
    using append_take_drop_id [of 1 ex_wire] append_take_drop_id [of 9 "drop 1 ex_wire"] by simp
  ultimately have wrap: "aes_wrap ex_mbedtls 0 (s_secure_key ex_link) None (read_response 1 [0x12, 0x34]) RX_MAX =
      Some (concat [take 1 ex_wire, take 9 (drop 1 ex_wire), drop 10 ex_wire])" by simp
  show ?thesis
    by (rule secure_response_delivered [OF ex_mbedtls_ok(2,1) ex_link_facts _ wrap]) simp
qed

text \<open>The CRC protects the data: take a read response that is complete and correct, and change
  any single byte of it other than the function code and the byte count. Then the session ignores
  the frame: no callback is called and nothing changes.\<close>

theorem corrupted_response_ignored:
  assumes "length data < 256" and "i < length data + 5" and "i \<noteq> 1" and "i \<noteq> 2"
    and "b \<noteq> read_response ident data ! i"
  shows "handle_modbus s ((read_response ident data)[i := b]) = s"
proof -
  let ?f = "read_response ident data" and ?n = "3 + length data"
  have len: "length ?f = ?n + 2" by (simp add: read_response_nth(4))
  have crc: "bt_crc16_modbus (take ?n ?f) = be16 (?f ! (?n + 1)) (?f ! ?n)"
    using read_response_crc [of ident data] by (simp only: modbus_crc_ok_def)
  have "\<not> modbus_crc_ok (?f[i := b]) ?n"
  proof (cases "i < ?n")
    case True
    then have "bt_crc16_modbus ((take ?n ?f)[i := b]) \<noteq> bt_crc16_modbus (take ?n ?f)"
      using assms(5) len by (intro crc_single_byte) auto
    then show ?thesis
      using True crc by (simp add: modbus_crc_ok_def take_update_swap)
  next
    case False
    then have "i = ?n \<or> i = ?n + 1" using assms(2) by arith
    then show ?thesis
      using crc assms(5) len be16_inj by (auto simp: modbus_crc_ok_def)
  qed
  moreover have "(?f[i := b]) ! 1 = MODBUS_READ" "unat ((?f[i := b]) ! 2) = length data"
    using assms(3,4) read_response_nth(2,3) [OF assms(1), of ident] by auto
  ultimately show ?thesis by (simp add: handle_modbus_def Let_def)
qed

theorem corrupted_response_ignored_witness:
  "handle_modbus ex_link ((read_response 1 [0x12, 0x34])[4 := 0x35]) = ex_link"
  by (rule corrupted_response_ignored) (simp_all add: read_response_def Let_def)

lemma kex_len_one: "b \<le> RX_MAX \<Longrightarrow> unat ((of_nat b :: u32) - 2) = 1 \<longleftrightarrow> b = 3"
proof
  assume b: "b \<le> RX_MAX" and "unat ((of_nat b :: u32) - 2) = 1"
  then have "(of_nat b :: u32) - 2 = 1" by (metis of_nat_1 of_nat_unat ucast_id)
  then have "(of_nat b :: u32) = 3" by (simp add: diff_eq_eq)
  then have "b mod 2 ^ 32 = 3" using unat_of_nat [of b, where 'a = 32] by simp
  then show "b = 3" using b by simp
qed simp



end
