(* ===== verification/C_Float.thy ===== *)
theory C_Float
  imports Bridge_Prelude Complex_Main "HOL-Library.Log_Nat"
begin

text \<open>
  The part of C's single-precision arithmetic the sources use. A \<^verbatim>\<open>float\<close> is the rational
  number it denotes, and every operation rounds its exact result to the nearest number with a 24-bit
  significand, ties to even. The readings of the power station and everything computed from them lie
  far inside the exponent range, so infinities, subnormal numbers and the special values are left
  out. Whole numbers up to \<open>2 ^ 24\<close> are exact, which covers all register values and their sums.
\<close>

text \<open>Round to the nearest integer, ties to even.\<close>

definition rne :: "rat \<Rightarrow> int" where
  "rne x = (let f = \<lfloor>x\<rfloor>; r = x - of_int f
            in if r < 1 / 2 then f else if r > 1 / 2 then f + 1 else if even f then f else f + 1)"

text \<open>Weight of the last significand bit of a positive number: the exponent is one of the two
  candidates the bit lengths of numerator and denominator leave.\<close>

definition float_ulp :: "rat \<Rightarrow> rat" where
  "float_ulp x =
     (let (p, q) = quotient_of x;
          b = bitlen p - bitlen q;
          e = (if x \<ge> 2 powi b then b else b - 1)
      in 2 powi (e - 23))"

definition fl :: "rat \<Rightarrow> rat" where
  "fl x = (if x = 0 then 0
           else if x > 0 then of_int (rne (x / float_ulp x)) * float_ulp x
           else - (of_int (rne (- x / float_ulp (- x))) * float_ulp (- x)))"

definition fadd :: "rat \<Rightarrow> rat \<Rightarrow> rat" where "fadd a b = fl (a + b)"
definition fsub :: "rat \<Rightarrow> rat \<Rightarrow> rat" where "fsub a b = fl (a - b)"
definition fmul :: "rat \<Rightarrow> rat \<Rightarrow> rat" where "fmul a b = fl (a * b)"
definition fdiv :: "rat \<Rightarrow> rat \<Rightarrow> rat" where "fdiv a b = fl (a / b)"

text \<open>\<^verbatim>\<open>%.<d>f\<close>\<close>

definition show_fixed :: "nat \<Rightarrow> rat \<Rightarrow> string" where
  "show_fixed d x =
     (let n = nat (rne (\<bar>x\<bar> * 10 ^ d));
          ip = show_nat (n div 10 ^ d);
          fp = show_nat (n mod 10 ^ d);
          body = (if d = 0 then ip else ip @ ''.'' @ replicate (d - length fp) (CHR ''0'') @ fp)
      in if x < 0 then CHR ''-'' # body else body)"

text \<open>A conversion \<^verbatim>\<open>(int)x\<close> truncates towards zero.\<close>

definition f2i :: "rat \<Rightarrow> int" where
  "f2i x = (if x \<ge> 0 then \<lfloor>x\<rfloor> else - \<lfloor>- x\<rfloor>)"

lemma rne_of_int [simp]: "rne (of_int n) = n"
  by (simp add: rne_def)

lemma rne_bounds: "x - 1 / 2 \<le> of_int (rne x)" "of_int (rne x) \<le> x + 1 / 2"
proof -
  define f where "f = \<lfloor>x\<rfloor>"
  have f: "of_int f \<le> x" "x < of_int f + 1" unfolding f_def by linarith+
  have r: "rne x = (if x - of_int f < 1 / 2 then f else if x - of_int f > 1 / 2 then f + 1 else if even f then f else f + 1)"
    by (simp add: rne_def f_def Let_def)
  show "x - 1 / 2 \<le> of_int (rne x)" "of_int (rne x) \<le> x + 1 / 2"
    unfolding r using f by (auto split: if_splits)
qed

lemma float_ulp_pos: "float_ulp x > 0"
  by (simp add: float_ulp_def Let_def split: prod.splits)

lemma bitlen_powi:
  assumes "0 < x"
  shows "2 powi (bitlen x - 1) \<le> (of_int x :: rat)" and "(of_int x :: rat) < 2 powi bitlen x"
proof -
  have b: "2 ^ nat (bitlen x - 1) \<le> x" "x < 2 ^ nat (bitlen x)" and pos: "bitlen x > 0"
    using bitlen_bounds [OF assms] bitlen_nonneg [of x] bitlen_eq_zero_iff [of x] assms by auto
  have conv: "n \<ge> 0 \<Longrightarrow> (2 :: rat) powi n = of_int (2 ^ nat n)" for n by (simp add: power_int_def)
  show "2 powi (bitlen x - 1) \<le> (of_int x :: rat)" "(of_int x :: rat) < 2 powi bitlen x"
    using b pos conv [of "bitlen x - 1"] conv [of "bitlen x"] by (simp_all only: of_int_le_iff of_int_less_iff)
qed

text \<open>The significand of a positive number has 24 bits.\<close>

lemma float_ulp_range:
  assumes "x > 0"
  shows "2 ^ 23 * float_ulp x \<le> x" and "x < 2 ^ 24 * float_ulp x"
proof -
  obtain p q where pq: "quotient_of x = (p, q)" by fastforce
  have q: "q > 0" and x: "x = of_int p / of_int q"
    using quotient_of_denom_pos [OF pq] quotient_of_div [OF pq] by auto
  then have p: "p > 0" using assms by (simp add: zero_less_divide_iff)
  define b where "b = bitlen p - bitlen q"
  define e where "e = (if x \<ge> 2 powi b then b else b - 1)"
  have "2 powi (b - 1) * of_int q \<le> (of_int p :: rat)"
  proof -
    have "2 powi (b - 1) * of_int q \<le> (2 :: rat) powi (b - 1) * 2 powi bitlen q"
      using bitlen_powi(2) [OF q] by (intro mult_left_mono) auto
    also have "\<dots> = 2 powi (bitlen p - 1)" by (simp add: power_int_add [symmetric] b_def)
    finally show ?thesis using bitlen_powi(1) [OF p] by simp
  qed
  then have lo: "2 powi (b - 1) \<le> x" using q by (simp add: x field_simps)
  have "of_int p < 2 powi (b + 1) * (of_int q :: rat)"
  proof -
    have "(2 :: rat) powi bitlen p = 2 powi (b + 1) * 2 powi (bitlen q - 1)"
      by (simp add: power_int_add [symmetric] b_def)
    also have "\<dots> \<le> 2 powi (b + 1) * of_int q"
      using bitlen_powi(1) [OF q] by (intro mult_left_mono) auto
    finally show ?thesis using bitlen_powi(2) [OF p] by simp
  qed
  then have hi: "x < 2 powi (b + 1)" using q by (simp add: x field_simps)
  have e: "2 powi e \<le> x" "x < 2 powi (e + 1)" using lo hi by (auto simp: e_def)
  have ulp: "float_ulp x = 2 powi (e - 23)" by (simp add: float_ulp_def pq e_def b_def)
  have "2 ^ 23 * float_ulp x = 2 powi e" "2 ^ 24 * float_ulp x = 2 powi (e + 1)"
    by (simp_all add: ulp power_int_diff power_int_add)
  then show "2 ^ 23 * float_ulp x \<le> x" "x < 2 ^ 24 * float_ulp x"
    using e by simp_all
qed

text \<open>Rounding keeps the sign, and is the identity on whole numbers up to \<open>2 ^ 24\<close>.\<close>

lemma fl_pos:
  assumes "x > 0"
  shows "fl x > 0"
proof -
  have "x / float_ulp x \<ge> 2 ^ 23"
    using float_ulp_range(1) [OF assms] float_ulp_pos [of x] by (simp add: field_simps)
  then have "of_int (rne (x / float_ulp x)) \<ge> (1 :: rat)"
    using rne_bounds(1) [of "x / float_ulp x"] by simp
  then have "of_int (rne (x / float_ulp x)) > (0 :: rat)" by linarith
  then show ?thesis using assms float_ulp_pos [of x] by (simp add: fl_def)
qed

lemma fl_0 [simp]: "fl 0 = 0"
  by (simp add: fl_def)

lemma fl_neg: "x < 0 \<Longrightarrow> fl x < 0"
  using fl_pos [of "- x"] by (simp add: fl_def)

lemma fl_pos_iff: "fl x > 0 \<longleftrightarrow> x > 0"
  using fl_pos [of x] fl_neg [of x] by (cases x "0 :: rat" rule: linorder_cases) auto

lemma fl_exact_pos:
  assumes "0 < n" and "n < 2 ^ 24"
  shows "fl (of_int n) = of_int n"
proof -
  have "2 ^ 23 * float_ulp (of_int n) \<le> of_int n" using float_ulp_range(1) [of "of_int n"] assms(1) by simp
  then have "float_ulp (of_int n) \<le> of_int n / 2 ^ 23" by (simp add: field_simps)
  also have "\<dots> < 2" using assms(2) by (simp add: field_simps)
  finally have lt2: "float_ulp (of_int n) < 2" .
  obtain e where e: "float_ulp (of_int n) = 2 powi e"
    by (auto simp: float_ulp_def Let_def split: prod.splits)
  have "e \<le> 0"
  proof (rule ccontr)
    assume "\<not> e \<le> 0"
    then have "(2 :: rat) powi 1 \<le> 2 powi e" by (intro power_int_increasing) auto
    then show False using lt2 e by simp
  qed
  then obtain k where k: "e = - int k" by (metis add.inverse_inverse nonneg_int_cases neg_0_le_iff_le)
  have "of_int n / float_ulp (of_int n) = of_int (n * 2 ^ k)"
    by (simp add: e k power_int_minus field_simps)
  then have "rne (of_int n / float_ulp (of_int n)) = n * 2 ^ k" by (simp only: rne_of_int)
  then show ?thesis using assms(1) by (simp add: fl_def e k power_int_minus)
qed

lemma fl_exact: "\<bar>n\<bar> < 2 ^ 24 \<Longrightarrow> fl (of_int n) = of_int n"
  using fl_exact_pos [of n] fl_exact_pos [of "- n"] by (cases n "0 :: int" rule: linorder_cases) (auto simp: fl_def)

end
