(* ===== verification/Bt_Regs.thy ===== *)
theory Bt_Regs
  imports C_Float
begin

unbundle bit_operations_syntax

text \<open>
  The register map of the BLUETTI V2 units, \<^verbatim>\<open>components/bluetti_ble/bt_regs.c\<close> with the
  state snapshot of \<^verbatim>\<open>bluetti_ble.h\<close>: the table of models, the polling plan, the decoding of
  one response into the snapshot with everything derived from it, and the writeable controls.
  Capability masks are 16-bit words, register values \<^typ>\<open>int\<close> with \<open>- 1\<close> for "not in this
  response" as in the source, float fields rationals (\<open>C_Float\<close>).
\<close>

section \<open>Data\<close>

record bluetti_state =
  b_valid :: bool
  b_sweep_done :: bool
  b_updated_us :: int
  b_soc_pct :: int
  b_soc_low_pct :: int
  b_ac_input_present :: bool
  b_charging :: bool
  b_minutes_remaining :: int
  b_input_watts :: rat
  b_output_watts :: rat
  b_ac_in_watts :: rat
  b_ac_out_watts :: rat
  b_dc_in_watts :: rat
  b_dc_out_watts :: rat
  b_battery_watts :: rat
  b_battery_voltage :: rat
  b_battery_temp_c :: rat
  b_design_capacity_wh :: int
  b_ac_in_volts :: rat
  b_ac_in_amps :: rat
  b_ac_out_volts :: rat
  b_ac_switch :: int
  b_dc_switch :: int
  b_eco_ac :: int
  b_eco_dc :: int
  b_eco_mode_ac :: int
  b_eco_mode_dc :: int
  b_charging_mode :: int
  b_power_lifting :: int
  b_display_time :: int
  b_soc_min :: int
  b_soc_max :: int
  b_ups_mode_on :: bool
  b_error_code :: u32
  b_serial :: string
  b_model :: string

abbreviation BLUETTI_UNKNOWN_F :: rat where "BLUETTI_UNKNOWN_F \<equiv> - 1000"
abbreviation BLUETTI_UNKNOWN_I :: int where "BLUETTI_UNKNOWN_I \<equiv> - 1"

abbreviation REG_BATTERY_SOC :: u16 where "REG_BATTERY_SOC \<equiv> 102"
abbreviation REG_TIME_REMAINING :: u16 where "REG_TIME_REMAINING \<equiv> 104"
abbreviation REG_DEVICE_TYPE :: u16 where "REG_DEVICE_TYPE \<equiv> 110"
abbreviation REG_DEVICE_SN :: u16 where "REG_DEVICE_SN \<equiv> 116"
abbreviation REG_DC_OUTPUT_POWER :: u16 where "REG_DC_OUTPUT_POWER \<equiv> 140"
abbreviation REG_AC_OUTPUT_POWER :: u16 where "REG_AC_OUTPUT_POWER \<equiv> 142"
abbreviation REG_DC_INPUT_POWER :: u16 where "REG_DC_INPUT_POWER \<equiv> 144"
abbreviation REG_AC_INPUT_POWER :: u16 where "REG_AC_INPUT_POWER \<equiv> 146"
abbreviation REG_AC_INPUT_VOLTAGE :: u16 where "REG_AC_INPUT_VOLTAGE \<equiv> 1314"
abbreviation REG_AC_INPUT_CURRENT :: u16 where "REG_AC_INPUT_CURRENT \<equiv> 1315"
abbreviation REG_AC_OUTPUT_VOLTAGE :: u16 where "REG_AC_OUTPUT_VOLTAGE \<equiv> 1511"
abbreviation REG_CTRL_AC :: u16 where "REG_CTRL_AC \<equiv> 2011"
abbreviation REG_CTRL_DC :: u16 where "REG_CTRL_DC \<equiv> 2012"
abbreviation REG_CTRL_ECO_DC :: u16 where "REG_CTRL_ECO_DC \<equiv> 2014"
abbreviation REG_CTRL_ECO_MODE_DC :: u16 where "REG_CTRL_ECO_MODE_DC \<equiv> 2015"
abbreviation REG_CTRL_ECO_AC :: u16 where "REG_CTRL_ECO_AC \<equiv> 2017"
abbreviation REG_CTRL_ECO_MODE_AC :: u16 where "REG_CTRL_ECO_MODE_AC \<equiv> 2018"
abbreviation REG_CTRL_CHARGING_MODE :: u16 where "REG_CTRL_CHARGING_MODE \<equiv> 2020"
abbreviation REG_CTRL_POWER_LIFTING :: u16 where "REG_CTRL_POWER_LIFTING \<equiv> 2021"
abbreviation REG_CTRL_SOC_MIN :: u16 where "REG_CTRL_SOC_MIN \<equiv> 2022"
abbreviation REG_CTRL_SOC_MAX :: u16 where "REG_CTRL_SOC_MAX \<equiv> 2023"
abbreviation REG_CTRL_DISPLAY_TIME :: u16 where "REG_CTRL_DISPLAY_TIME \<equiv> 2067"

abbreviation BT_C_AC_OUT :: u16 where "BT_C_AC_OUT \<equiv> 0x001"
abbreviation BT_C_DC_OUT :: u16 where "BT_C_DC_OUT \<equiv> 0x002"
abbreviation BT_C_ECO_AC :: u16 where "BT_C_ECO_AC \<equiv> 0x004"
abbreviation BT_C_ECO_DC :: u16 where "BT_C_ECO_DC \<equiv> 0x008"
abbreviation BT_C_ECO_MODE_AC :: u16 where "BT_C_ECO_MODE_AC \<equiv> 0x010"
abbreviation BT_C_ECO_MODE_DC :: u16 where "BT_C_ECO_MODE_DC \<equiv> 0x020"
abbreviation BT_C_CHARGE_MODE :: u16 where "BT_C_CHARGE_MODE \<equiv> 0x040"
abbreviation BT_C_POWER_LIFT :: u16 where "BT_C_POWER_LIFT \<equiv> 0x080"
abbreviation BT_C_DISPLAY :: u16 where "BT_C_DISPLAY \<equiv> 0x100"
abbreviation BT_C_SOC_MIN :: u16 where "BT_C_SOC_MIN \<equiv> 0x200"
abbreviation BT_C_SOC_MAX :: u16 where "BT_C_SOC_MAX \<equiv> 0x400"

abbreviation BT_F_SERIAL :: u16 where "BT_F_SERIAL \<equiv> 0x01"
abbreviation BT_F_RT_MIN :: u16 where "BT_F_RT_MIN \<equiv> 0x02"
abbreviation BT_F_RT_6MIN :: u16 where "BT_F_RT_6MIN \<equiv> 0x04"
abbreviation BT_F_AC_IN_V :: u16 where "BT_F_AC_IN_V \<equiv> 0x08"
abbreviation BT_F_AC_IN_V_RAW :: u16 where "BT_F_AC_IN_V_RAW \<equiv> 0x10"
abbreviation BT_F_AC_IN_A :: u16 where "BT_F_AC_IN_A \<equiv> 0x20"
abbreviation BT_F_AC_OUT_V :: u16 where "BT_F_AC_OUT_V \<equiv> 0x40"

record bt_device =
  d_name :: string
  d_fields :: u16
  d_controls :: u16
  d_wh :: u16

text \<open>\<^verbatim>\<open>mask & bit\<close> as a condition.\<close>

definition has_bit :: "u16 \<Rightarrow> u16 \<Rightarrow> bool" where
  "has_bit m bits \<longleftrightarrow> m AND bits \<noteq> 0"

definition BT_DEVICE_GENERIC :: bt_device where
  "BT_DEVICE_GENERIC = \<lparr>d_name = ''unknown'', d_fields = BT_F_SERIAL, d_controls = 0, d_wh = 0\<rparr>"

definition C_OUT :: u16 where "C_OUT = BT_C_AC_OUT OR BT_C_DC_OUT"

definition C_FULL :: u16 where
  "C_FULL = C_OUT OR BT_C_ECO_AC OR BT_C_ECO_DC OR BT_C_ECO_MODE_AC OR BT_C_ECO_MODE_DC OR
     BT_C_CHARGE_MODE OR BT_C_POWER_LIFT"

definition F_ELITE :: u16 where
  "F_ELITE = BT_F_SERIAL OR BT_F_RT_MIN OR BT_F_AC_IN_V OR BT_F_AC_IN_A OR BT_F_AC_OUT_V"

definition DEVICES :: "bt_device list" where
  "DEVICES =
    [\<lparr>d_name = ''EL100V2'', d_fields = F_ELITE, d_controls = C_FULL OR BT_C_DISPLAY OR BT_C_SOC_MIN OR BT_C_SOC_MAX, d_wh = 1024\<rparr>,
     \<lparr>d_name = ''EL10'', d_fields = F_ELITE, d_controls = C_FULL OR BT_C_DISPLAY, d_wh = 128\<rparr>,
     \<lparr>d_name = ''AC70'', d_fields = (F_ELITE AND NOT BT_F_RT_MIN) OR BT_F_RT_6MIN, d_controls = C_FULL, d_wh = 768\<rparr>,
     \<lparr>d_name = ''AC180'', d_fields = F_ELITE AND NOT BT_F_RT_MIN, d_controls = C_FULL, d_wh = 1152\<rparr>,
     \<lparr>d_name = ''EL30V2'', d_fields = BT_F_SERIAL OR BT_F_RT_MIN OR BT_F_AC_IN_V, d_controls = C_FULL, d_wh = 288\<rparr>,
     \<lparr>d_name = ''AC180P'', d_fields = BT_F_SERIAL OR BT_F_AC_IN_V, d_controls = C_OUT OR BT_C_CHARGE_MODE OR BT_C_POWER_LIFT, d_wh = 1440\<rparr>,
     \<lparr>d_name = ''AC2P'', d_fields = BT_F_SERIAL, d_controls = C_OUT OR BT_C_POWER_LIFT, d_wh = 0\<rparr>,
     \<lparr>d_name = ''AC60'', d_fields = BT_F_SERIAL OR BT_F_AC_IN_V OR BT_F_AC_IN_V_RAW, d_controls = C_OUT OR BT_C_POWER_LIFT, d_wh = 403\<rparr>,
     \<lparr>d_name = ''AC60P'', d_fields = BT_F_SERIAL OR BT_F_AC_IN_V OR BT_F_AC_IN_V_RAW, d_controls = C_OUT OR BT_C_POWER_LIFT, d_wh = 0\<rparr>,
     \<lparr>d_name = ''Handsfree 2'', d_fields = (F_ELITE AND NOT BT_F_RT_MIN) OR BT_F_RT_6MIN, d_controls = C_OUT, d_wh = 960\<rparr>]"

datatype bt_ctrl_kind = BT_KIND_BOOL | BT_KIND_ENUM | BT_KIND_RANGE

record bt_control =
  ct_field :: string
  ct_reg :: u16
  ct_bit :: u16
  ct_kind :: bt_ctrl_kind
  ct_allowed :: string

text \<open>A boolean control has no list of values; its null pointer is the empty string here, which no
  code reads.\<close>

definition BT_CONTROLS :: "bt_control list" where
  "BT_CONTROLS =
    [\<lparr>ct_field = ''ac_output'', ct_reg = REG_CTRL_AC, ct_bit = BT_C_AC_OUT, ct_kind = BT_KIND_BOOL, ct_allowed = []\<rparr>,
     \<lparr>ct_field = ''dc_output'', ct_reg = REG_CTRL_DC, ct_bit = BT_C_DC_OUT, ct_kind = BT_KIND_BOOL, ct_allowed = []\<rparr>,
     \<lparr>ct_field = ''eco_ac'', ct_reg = REG_CTRL_ECO_AC, ct_bit = BT_C_ECO_AC, ct_kind = BT_KIND_BOOL, ct_allowed = []\<rparr>,
     \<lparr>ct_field = ''eco_dc'', ct_reg = REG_CTRL_ECO_DC, ct_bit = BT_C_ECO_DC, ct_kind = BT_KIND_BOOL, ct_allowed = []\<rparr>,
     \<lparr>ct_field = ''eco_mode_ac'', ct_reg = REG_CTRL_ECO_MODE_AC, ct_bit = BT_C_ECO_MODE_AC, ct_kind = BT_KIND_ENUM, ct_allowed = ''1,2,3,4''\<rparr>,
     \<lparr>ct_field = ''eco_mode_dc'', ct_reg = REG_CTRL_ECO_MODE_DC, ct_bit = BT_C_ECO_MODE_DC, ct_kind = BT_KIND_ENUM, ct_allowed = ''1,2,3,4''\<rparr>,
     \<lparr>ct_field = ''charging_mode'', ct_reg = REG_CTRL_CHARGING_MODE, ct_bit = BT_C_CHARGE_MODE, ct_kind = BT_KIND_ENUM, ct_allowed = ''0,1,2,4''\<rparr>,
     \<lparr>ct_field = ''power_lifting'', ct_reg = REG_CTRL_POWER_LIFTING, ct_bit = BT_C_POWER_LIFT, ct_kind = BT_KIND_BOOL, ct_allowed = []\<rparr>,
     \<lparr>ct_field = ''soc_min'', ct_reg = REG_CTRL_SOC_MIN, ct_bit = BT_C_SOC_MIN, ct_kind = BT_KIND_RANGE, ct_allowed = ''0,100''\<rparr>,
     \<lparr>ct_field = ''soc_max'', ct_reg = REG_CTRL_SOC_MAX, ct_bit = BT_C_SOC_MAX, ct_kind = BT_KIND_RANGE, ct_allowed = ''0,100''\<rparr>,
     \<lparr>ct_field = ''display_time'', ct_reg = REG_CTRL_DISPLAY_TIME, ct_bit = BT_C_DISPLAY, ct_kind = BT_KIND_ENUM, ct_allowed = ''2,3,4,5''\<rparr>]"

section \<open>Models and polling plan\<close>

definition name_matches :: "bt_device \<Rightarrow> string \<Rightarrow> bool" where
  "name_matches d name \<longleftrightarrow> has_prefix (d_name d) name \<and> dropWhile is_digit (drop (length (d_name d)) name) = []"

definition bt_device_lookup :: "string option \<Rightarrow> bt_device option" where
  "bt_device_lookup name =
     (case name of None \<Rightarrow> None
      | Some nm \<Rightarrow> if nm = [] then None else find (\<lambda>d. name_matches d nm) DEVICES)"

record bt_reg_read =
  rr_addr :: u16
  rr_words :: u8

abbreviation BT_REG_PLAN_MAX :: nat where "BT_REG_PLAN_MAX \<equiv> 28"

definition single :: "u16 \<Rightarrow> bt_reg_read" where
  "single a = \<lparr>rr_addr = a, rr_words = 1\<rparr>"

definition PLAN_COMMON :: "bt_reg_read list" where
  "PLAN_COMMON = [single REG_BATTERY_SOC, single REG_AC_INPUT_POWER, single REG_AC_OUTPUT_POWER,
     single REG_DC_INPUT_POWER, single REG_DC_OUTPUT_POWER, \<lparr>rr_addr = REG_DEVICE_TYPE, rr_words = 6\<rparr>]"

definition PLAN_OPTIONAL :: "(u16 \<times> bt_reg_read) list" where
  "PLAN_OPTIONAL = [(BT_F_RT_MIN OR BT_F_RT_6MIN, single REG_TIME_REMAINING), (BT_F_AC_IN_V, single REG_AC_INPUT_VOLTAGE),
     (BT_F_AC_IN_A, single REG_AC_INPUT_CURRENT), (BT_F_AC_OUT_V, single REG_AC_OUTPUT_VOLTAGE),
     (BT_F_SERIAL, \<lparr>rr_addr = REG_DEVICE_SN, rr_words = 4\<rparr>)]"

text \<open>Each entry is added only while there is room for it; since entries are only ever appended,
  that is the same as cutting the full list at \<open>max\<close>.\<close>

definition bt_regs_plan :: "bt_device option \<Rightarrow> bool \<Rightarrow> nat \<Rightarrow> bt_reg_read list" where
  "bt_regs_plan dev with_controls mx =
     take mx
       (PLAN_COMMON @
        (case dev of None \<Rightarrow> [] | Some d \<Rightarrow>
           map snd (filter (\<lambda>(bits, r). has_bit (d_fields d) bits) PLAN_OPTIONAL) @
           (if has_bit (d_controls d) BT_C_SOC_MIN then [single REG_CTRL_SOC_MIN] else []) @
           (if has_bit (d_controls d) BT_C_SOC_MAX then [single REG_CTRL_SOC_MAX] else []) @
           (if with_controls \<and> d_controls d \<noteq> 0
            then map (\<lambda>c. single (ct_reg c))
                   (filter (\<lambda>c. \<not> (ct_bit c = BT_C_SOC_MIN \<or> ct_bit c = BT_C_SOC_MAX) \<and> has_bit (d_controls d) (ct_bit c))
                      BT_CONTROLS)
            else [])))"

section \<open>Controls\<close>

text \<open>The scan for integers makes no progress at a character that is neither a digit nor a comma and
  then loops for ever: \<^const>\<open>None\<close>.\<close>

function parse_ints :: "string \<Rightarrow> nat \<Rightarrow> int list option" where
  "parse_ints s n =
     (if s = [] \<or> n = 0 then Some []
      else let (v, r) = read_digits 0 s;
               digits = (length r < length s);
               r' = dropWhile (\<lambda>c. c = CHR '','') r
           in if length r' < length s
              then map_option (\<lambda>vs. if digits then v # vs else vs) (parse_ints r' (if digits then n - 1 else n))
              else None)"
  by pat_completeness auto
termination by (relation "measure (\<lambda>(s, n). length s)") auto

declare parse_ints.simps [simp del]

definition bt_control_lookup :: "string option \<Rightarrow> bt_control option" where
  "bt_control_lookup field =
     (case field of None \<Rightarrow> None | Some f \<Rightarrow> find (\<lambda>c. f = ct_field c) BT_CONTROLS)"

definition bt_control_valid :: "bt_control option \<Rightarrow> int \<Rightarrow> bool option" where
  "bt_control_valid c value =
     (case c of None \<Rightarrow> Some False
      | Some c \<Rightarrow>
          if ct_kind c = BT_KIND_BOOL then Some (value = 0 \<or> value = 1)
          else map_option
                 (\<lambda>vals. if ct_kind c = BT_KIND_RANGE
                         then length vals = 2 \<and> value \<ge> vals ! 0 \<and> value \<le> vals ! 1
                         else value \<in> set vals)
                 (parse_ints (ct_allowed c) 8))"

definition bt_control_current :: "bt_control \<Rightarrow> bluetti_state \<Rightarrow> int" where
  "bt_control_current c st =
     (if ct_reg c = REG_CTRL_AC then b_ac_switch st
      else if ct_reg c = REG_CTRL_DC then b_dc_switch st
      else if ct_reg c = REG_CTRL_ECO_AC then b_eco_ac st
      else if ct_reg c = REG_CTRL_ECO_DC then b_eco_dc st
      else if ct_reg c = REG_CTRL_ECO_MODE_AC then b_eco_mode_ac st
      else if ct_reg c = REG_CTRL_ECO_MODE_DC then b_eco_mode_dc st
      else if ct_reg c = REG_CTRL_CHARGING_MODE then b_charging_mode st
      else if ct_reg c = REG_CTRL_POWER_LIFTING then b_power_lifting st
      else if ct_reg c = REG_CTRL_SOC_MIN then b_soc_min st
      else if ct_reg c = REG_CTRL_SOC_MAX then b_soc_max st
      else if ct_reg c = REG_CTRL_DISPLAY_TIME then b_display_time st
      else - 1)"

section \<open>Decoding a response\<close>

definition reg :: "u16 \<Rightarrow> byte list \<Rightarrow> u16 \<Rightarrow> int" where
  "reg start data addr =
     (if addr < start then - 1
      else let idx = (unat addr - unat start) * 2
           in if idx + 1 \<ge> length data then - 1
              else int (unat (data ! idx)) * 256 + int (unat (data ! (idx + 1))))"

definition byte_char :: "int \<Rightarrow> char" where
  "byte_char v = char_of (nat v)"

fun swap_words :: "u16 \<Rightarrow> byte list \<Rightarrow> u16 list \<Rightarrow> nat \<Rightarrow> string \<Rightarrow> string" where
  "swap_words start data [] out_sz out = out"
| "swap_words start data (a # as) out_sz out =
     (if length out + 2 < out_sz then
        let v = reg start data a
        in if v < 0 then out
           else let lo = v mod 256; hi = v div 256 mod 256;
                    out = (if lo \<noteq> 0 then out @ [byte_char lo] else out);
                    out = (if hi \<noteq> 0 then out @ [byte_char hi] else out)
                in swap_words start data as out_sz out
      else out)"

definition swap_string :: "u16 \<Rightarrow> byte list \<Rightarrow> u16 \<Rightarrow> nat \<Rightarrow> nat \<Rightarrow> string" where
  "swap_string start data addr words out_sz =
     rev (dropWhile (\<lambda>c. c = CHR '' '')
       (rev (swap_words start data (map (\<lambda>w. addr + of_nat w) [0..<words]) out_sz [])))"

text \<open>The stages of \<^verbatim>\<open>recompute\<close>, in its order.\<close>

definition rc_output :: "bluetti_state \<Rightarrow> bluetti_state" where
  "rc_output st =
     (let ac_out = (if b_ac_out_watts st \<ge> 0 then b_ac_out_watts st else 0);
          dc_out = (if b_dc_out_watts st \<ge> 0 then b_dc_out_watts st else 0)
      in if b_ac_out_watts st \<ge> 0 \<or> b_dc_out_watts st \<ge> 0 then st\<lparr>b_output_watts := fadd ac_out dc_out\<rparr> else st)"

definition rc_input :: "bluetti_state \<Rightarrow> bluetti_state" where
  "rc_input st =
     (let ac_in = (if b_ac_in_watts st \<ge> 0 then b_ac_in_watts st else 0);
          dc_in = (if b_dc_in_watts st \<ge> 0 then b_dc_in_watts st else 0)
      in if b_ac_in_watts st \<ge> 0 \<or> b_dc_in_watts st \<ge> 0 then st\<lparr>b_input_watts := fadd ac_in dc_in\<rparr> else st)"

definition rc_mains :: "bluetti_state \<Rightarrow> bluetti_state" where
  "rc_mains st = st\<lparr>b_ac_input_present := b_ac_in_watts st > 0 \<or> b_ac_in_volts st > 0\<rparr>"

definition rc_battery :: "bluetti_state \<Rightarrow> bluetti_state" where
  "rc_battery st =
     (if b_input_watts st \<ge> 0 \<and> b_output_watts st \<ge> 0
      then st\<lparr>b_battery_watts := fsub (b_output_watts st) (b_input_watts st)\<rparr> else st)"

definition rc_charging :: "bluetti_state \<Rightarrow> bluetti_state" where
  "rc_charging st =
     (let any_input = (b_ac_input_present st \<or> b_dc_in_watts st > 0);
          room_to_charge = (b_soc_pct st \<ge> 0 \<and> b_soc_pct st < 100)
      in if b_input_watts st \<ge> 0 \<and> b_output_watts st \<ge> 0
         then st\<lparr>b_charging := b_battery_watts st < 0 \<and> room_to_charge\<rparr>
         else st\<lparr>b_charging := any_input \<and> room_to_charge\<rparr>)"

definition recompute :: "bluetti_state \<Rightarrow> bluetti_state" where
  "recompute st = rc_charging (rc_battery (rc_mains (rc_input (rc_output st))))"

text \<open>The four serial words, most significant first; \<^const>\<open>None\<close> when one is missing.\<close>

fun serial_words :: "u16 \<Rightarrow> byte list \<Rightarrow> nat list \<Rightarrow> u64 \<Rightarrow> u64 option" where
  "serial_words start data [] sn = Some sn"
| "serial_words start data (w # ws) sn =
     (let x = reg start data (REG_DEVICE_SN + of_nat w)
      in if x < 0 then None else serial_words start data ws (push_bit 16 sn OR of_int x))"

text \<open>\<^verbatim>\<open>if (cond) { st->... = ...; matched++; }\<close>\<close>

definition take_field :: "bool \<Rightarrow> (bluetti_state \<Rightarrow> bluetti_state) \<Rightarrow> bluetti_state \<times> nat \<Rightarrow> bluetti_state \<times> nat" where
  "take_field cond f acc = (if cond then (f (fst acc), Suc (snd acc)) else acc)"

text \<open>The telemetry half of \<^verbatim>\<open>bt_regs_apply\<close>.\<close>

definition apply_telemetry :: "bt_device \<Rightarrow> u16 \<Rightarrow> byte list \<Rightarrow> bluetti_state \<times> nat \<Rightarrow> bluetti_state \<times> nat" where
  "apply_telemetry dev start data acc =
     (let R = reg start data;
          F = has_bit (d_fields dev);
          acc = take_field (R REG_BATTERY_SOC \<ge> 0 \<and> R REG_BATTERY_SOC \<le> 100) (\<lambda>st. st\<lparr>b_soc_pct := R REG_BATTERY_SOC\<rparr>) acc;
          acc = take_field (R REG_DEVICE_TYPE \<ge> 0) (\<lambda>st. st\<lparr>b_model := swap_string start data REG_DEVICE_TYPE 6 24\<rparr>) acc;
          acc = take_field (R REG_DC_OUTPUT_POWER \<ge> 0) (\<lambda>st. st\<lparr>b_dc_out_watts := fl (of_int (R REG_DC_OUTPUT_POWER))\<rparr>) acc;
          acc = take_field (R REG_AC_OUTPUT_POWER \<ge> 0) (\<lambda>st. st\<lparr>b_ac_out_watts := fl (of_int (R REG_AC_OUTPUT_POWER))\<rparr>) acc;
          acc = take_field (R REG_DC_INPUT_POWER \<ge> 0) (\<lambda>st. st\<lparr>b_dc_in_watts := fl (of_int (R REG_DC_INPUT_POWER))\<rparr>) acc;
          acc = take_field (R REG_AC_INPUT_POWER \<ge> 0) (\<lambda>st. st\<lparr>b_ac_in_watts := fl (of_int (R REG_AC_INPUT_POWER))\<rparr>) acc;
          acc = take_field (F (BT_F_RT_MIN OR BT_F_RT_6MIN) \<and> R REG_TIME_REMAINING \<ge> 0)
                  (\<lambda>st. let mins = (if F BT_F_RT_6MIN then R REG_TIME_REMAINING * 6 else R REG_TIME_REMAINING)
                        in st\<lparr>b_minutes_remaining := (if mins > 0 then mins else BLUETTI_UNKNOWN_I)\<rparr>) acc;
          sn = (if F BT_F_SERIAL \<and> R REG_DEVICE_SN \<ge> 0 then serial_words start data [3, 2, 1, 0] 0 else None);
          acc = take_field (sn \<noteq> None \<and> sn \<noteq> Some 0)
                  (\<lambda>st. st\<lparr>b_serial := snprintf_buf 24 (show_nat (unat (the sn)))\<rparr>) acc;
          acc = take_field (F BT_F_AC_IN_V \<and> R REG_AC_INPUT_VOLTAGE \<ge> 0)
                  (\<lambda>st. st\<lparr>b_ac_in_volts := (if F BT_F_AC_IN_V_RAW then fl (of_int (R REG_AC_INPUT_VOLTAGE))
                                          else fdiv (fl (of_int (R REG_AC_INPUT_VOLTAGE))) 10)\<rparr>) acc;
          acc = take_field (F BT_F_AC_IN_A \<and> R REG_AC_INPUT_CURRENT \<ge> 0)
                  (\<lambda>st. st\<lparr>b_ac_in_amps := fdiv (fl (of_int (R REG_AC_INPUT_CURRENT))) 10\<rparr>) acc
      in take_field (F BT_F_AC_OUT_V \<and> R REG_AC_OUTPUT_VOLTAGE \<ge> 0)
           (\<lambda>st. st\<lparr>b_ac_out_volts := fdiv (fl (of_int (R REG_AC_OUTPUT_VOLTAGE))) 10\<rparr>) acc)"

text \<open>The control half; the whole block is skipped for a model without controls, which the masks
  imply anyway.\<close>

definition apply_controls :: "bt_device \<Rightarrow> u16 \<Rightarrow> byte list \<Rightarrow> bluetti_state \<times> nat \<Rightarrow> bluetti_state \<times> nat" where
  "apply_controls dev start data acc =
     (if d_controls dev = 0 then acc
      else
        let R = reg start data;
            C = has_bit (d_controls dev);
            acc = take_field (C BT_C_AC_OUT \<and> R REG_CTRL_AC \<in> {0, 1}) (\<lambda>st. st\<lparr>b_ac_switch := R REG_CTRL_AC\<rparr>) acc;
            acc = take_field (C BT_C_DC_OUT \<and> R REG_CTRL_DC \<in> {0, 1}) (\<lambda>st. st\<lparr>b_dc_switch := R REG_CTRL_DC\<rparr>) acc;
            acc = take_field (C BT_C_ECO_AC \<and> R REG_CTRL_ECO_AC \<in> {0, 1}) (\<lambda>st. st\<lparr>b_eco_ac := R REG_CTRL_ECO_AC\<rparr>) acc;
            acc = take_field (C BT_C_ECO_DC \<and> R REG_CTRL_ECO_DC \<in> {0, 1}) (\<lambda>st. st\<lparr>b_eco_dc := R REG_CTRL_ECO_DC\<rparr>) acc;
            acc = take_field (C BT_C_POWER_LIFT \<and> R REG_CTRL_POWER_LIFTING \<in> {0, 1})
                    (\<lambda>st. st\<lparr>b_power_lifting := R REG_CTRL_POWER_LIFTING\<rparr>) acc;
            acc = take_field (C BT_C_ECO_MODE_AC \<and> R REG_CTRL_ECO_MODE_AC \<ge> 1 \<and> R REG_CTRL_ECO_MODE_AC \<le> 4)
                    (\<lambda>st. st\<lparr>b_eco_mode_ac := R REG_CTRL_ECO_MODE_AC\<rparr>) acc;
            acc = take_field (C BT_C_ECO_MODE_DC \<and> R REG_CTRL_ECO_MODE_DC \<ge> 1 \<and> R REG_CTRL_ECO_MODE_DC \<le> 4)
                    (\<lambda>st. st\<lparr>b_eco_mode_dc := R REG_CTRL_ECO_MODE_DC\<rparr>) acc;
            acc = take_field (C BT_C_CHARGE_MODE \<and> R REG_CTRL_CHARGING_MODE \<in> {0, 1, 2, 4})
                    (\<lambda>st. st\<lparr>b_charging_mode := R REG_CTRL_CHARGING_MODE\<rparr>) acc;
            acc = take_field (C BT_C_DISPLAY \<and> R REG_CTRL_DISPLAY_TIME \<ge> 2 \<and> R REG_CTRL_DISPLAY_TIME \<le> 5)
                    (\<lambda>st. st\<lparr>b_display_time := R REG_CTRL_DISPLAY_TIME\<rparr>) acc;
            acc = take_field (C BT_C_SOC_MIN \<and> R REG_CTRL_SOC_MIN \<ge> 0 \<and> R REG_CTRL_SOC_MIN \<le> 100)
                    (\<lambda>st. st\<lparr>b_soc_min := R REG_CTRL_SOC_MIN\<rparr>) acc
        in take_field (C BT_C_SOC_MAX \<and> R REG_CTRL_SOC_MAX \<ge> 0 \<and> R REG_CTRL_SOC_MAX \<le> 100)
             (\<lambda>st. st\<lparr>b_soc_max := R REG_CTRL_SOC_MAX\<rparr>) acc)"

definition bt_regs_apply :: "bt_device option \<Rightarrow> u16 \<Rightarrow> byte list \<Rightarrow> int \<Rightarrow> bluetti_state \<Rightarrow> bluetti_state \<times> nat" where
  "bt_regs_apply dev start data now_us st =
     (let dev = (case dev of None \<Rightarrow> BT_DEVICE_GENERIC | Some d \<Rightarrow> d);
          st = (if d_wh dev > 0 \<and> b_design_capacity_wh st \<le> 0
                then st\<lparr>b_design_capacity_wh := uint (d_wh dev)\<rparr> else st);
          (st, matched) = apply_controls dev start data (apply_telemetry dev start data (st, 0))
      in if matched > 0 then ((recompute st)\<lparr>b_valid := True, b_updated_us := now_us\<rparr>, matched)
         else (st, matched))"

section \<open>Lemmas\<close>

lemma byte_le: "unat (x :: byte) \<le> 255"
  using unsigned_less [of x, where 'a = nat] by simp

lemma reg_bounds: "- 1 \<le> reg start data a \<and> reg start data a \<le> 65535"
proof -
  have k: "- 1 \<le> int m * 256 + int n \<and> int m * 256 + int n \<le> 65535" if "m \<le> 255" "n \<le> 255" for m n
    using that by linarith
  show ?thesis
  proof (cases "a < start \<or> (unat a - unat start) * 2 + 1 \<ge> length data")
    case True
    then have "reg start data a = - 1" by (auto simp: reg_def Let_def)
    then show ?thesis by simp
  next
    case False
    then show ?thesis unfolding reg_def Let_def using k [OF byte_le byte_le] by presburger
  qed
qed

lemma reg_single:
  "reg start [hi, lo] a = (if a = start then int (unat hi) * 256 + int (unat lo) else - 1)"
proof (cases "a < start")
  case False
  moreover have "a \<noteq> start \<Longrightarrow> unat start < unat a"
    using False by (metis linorder_neqE unat_mono word_le_less_eq word_less_nat_alt)
  ultimately show ?thesis by (auto simp: reg_def Let_def)
qed (auto simp: reg_def)

lemma take_field_preserves:
  "P (fst acc) \<Longrightarrow> (\<And>st. cond \<Longrightarrow> P st \<Longrightarrow> P (f st)) \<Longrightarrow> P (fst (take_field cond f acc))"
  by (simp add: take_field_def)

lemma take_field_False [simp]: "take_field False f acc = acc"
  by (simp add: take_field_def)

lemma take_field_True [simp]: "take_field True f acc = (f (fst acc), Suc (snd acc))"
  by (simp add: take_field_def)

definition control_ranges :: "bluetti_state \<Rightarrow> bool" where
  "control_ranges st \<longleftrightarrow>
     b_soc_pct st \<in> {- 1..100} \<and> b_minutes_remaining st \<in> {- 1} \<union> {1..393210} \<and>
     b_ac_switch st \<in> {- 1..1} \<and> b_dc_switch st \<in> {- 1..1} \<and> b_eco_ac st \<in> {- 1..1} \<and> b_eco_dc st \<in> {- 1..1} \<and>
     b_power_lifting st \<in> {- 1..1} \<and> b_eco_mode_ac st \<in> {- 1, 1, 2, 3, 4} \<and> b_eco_mode_dc st \<in> {- 1, 1, 2, 3, 4} \<and>
     b_charging_mode st \<in> {- 1, 0, 1, 2, 4} \<and> b_display_time st \<in> {- 1, 2, 3, 4, 5} \<and>
     b_soc_min st \<in> {- 1..100} \<and> b_soc_max st \<in> {- 1..100} \<and> length (b_serial st) < 24 \<and> length (b_model st) < 24"

lemma swap_words_bound: "length out < out_sz \<Longrightarrow> length (swap_words start data as out_sz out) < out_sz"
  by (induction start data as out_sz out rule: swap_words.induct) (auto simp: Let_def)

lemma swap_string_bound: "length (swap_string start data addr n 24) < 24"
proof -
  have "length (dropWhile P (rev xs)) \<le> length xs" for P and xs :: string
    by (metis length_dropWhile_le length_rev)
  then show ?thesis unfolding swap_string_def
    using swap_words_bound [of "[]" 24 start data] by (metis le_less_trans length_rev list.size(3) zero_less_numeral)
qed

lemma rc_output_frame [simp]:
  "b_soc_pct (rc_output st) = b_soc_pct st"
  "b_minutes_remaining (rc_output st) = b_minutes_remaining st"
  "b_ac_switch (rc_output st) = b_ac_switch st"
  "b_dc_switch (rc_output st) = b_dc_switch st"
  "b_eco_ac (rc_output st) = b_eco_ac st"
  "b_eco_dc (rc_output st) = b_eco_dc st"
  "b_power_lifting (rc_output st) = b_power_lifting st"
  "b_eco_mode_ac (rc_output st) = b_eco_mode_ac st"
  "b_eco_mode_dc (rc_output st) = b_eco_mode_dc st"
  "b_charging_mode (rc_output st) = b_charging_mode st"
  "b_display_time (rc_output st) = b_display_time st"
  "b_soc_min (rc_output st) = b_soc_min st"
  "b_soc_max (rc_output st) = b_soc_max st"
  "b_serial (rc_output st) = b_serial st"
  "b_model (rc_output st) = b_model st"
  "b_ac_in_watts (rc_output st) = b_ac_in_watts st"
  "b_ac_out_watts (rc_output st) = b_ac_out_watts st"
  "b_dc_in_watts (rc_output st) = b_dc_in_watts st"
  "b_dc_out_watts (rc_output st) = b_dc_out_watts st"
  "b_ac_in_volts (rc_output st) = b_ac_in_volts st"
  "b_input_watts (rc_output st) = b_input_watts st"
  "b_ac_input_present (rc_output st) = b_ac_input_present st"
  "b_battery_watts (rc_output st) = b_battery_watts st"
  by (simp_all add: rc_output_def Let_def)

lemma rc_input_frame [simp]:
  "b_soc_pct (rc_input st) = b_soc_pct st"
  "b_minutes_remaining (rc_input st) = b_minutes_remaining st"
  "b_ac_switch (rc_input st) = b_ac_switch st"
  "b_dc_switch (rc_input st) = b_dc_switch st"
  "b_eco_ac (rc_input st) = b_eco_ac st"
  "b_eco_dc (rc_input st) = b_eco_dc st"
  "b_power_lifting (rc_input st) = b_power_lifting st"
  "b_eco_mode_ac (rc_input st) = b_eco_mode_ac st"
  "b_eco_mode_dc (rc_input st) = b_eco_mode_dc st"
  "b_charging_mode (rc_input st) = b_charging_mode st"
  "b_display_time (rc_input st) = b_display_time st"
  "b_soc_min (rc_input st) = b_soc_min st"
  "b_soc_max (rc_input st) = b_soc_max st"
  "b_serial (rc_input st) = b_serial st"
  "b_model (rc_input st) = b_model st"
  "b_ac_in_watts (rc_input st) = b_ac_in_watts st"
  "b_ac_out_watts (rc_input st) = b_ac_out_watts st"
  "b_dc_in_watts (rc_input st) = b_dc_in_watts st"
  "b_dc_out_watts (rc_input st) = b_dc_out_watts st"
  "b_ac_in_volts (rc_input st) = b_ac_in_volts st"
  "b_output_watts (rc_input st) = b_output_watts st"
  "b_ac_input_present (rc_input st) = b_ac_input_present st"
  "b_battery_watts (rc_input st) = b_battery_watts st"
  by (simp_all add: rc_input_def Let_def)

lemma rc_mains_frame [simp]:
  "b_soc_pct (rc_mains st) = b_soc_pct st"
  "b_minutes_remaining (rc_mains st) = b_minutes_remaining st"
  "b_ac_switch (rc_mains st) = b_ac_switch st"
  "b_dc_switch (rc_mains st) = b_dc_switch st"
  "b_eco_ac (rc_mains st) = b_eco_ac st"
  "b_eco_dc (rc_mains st) = b_eco_dc st"
  "b_power_lifting (rc_mains st) = b_power_lifting st"
  "b_eco_mode_ac (rc_mains st) = b_eco_mode_ac st"
  "b_eco_mode_dc (rc_mains st) = b_eco_mode_dc st"
  "b_charging_mode (rc_mains st) = b_charging_mode st"
  "b_display_time (rc_mains st) = b_display_time st"
  "b_soc_min (rc_mains st) = b_soc_min st"
  "b_soc_max (rc_mains st) = b_soc_max st"
  "b_serial (rc_mains st) = b_serial st"
  "b_model (rc_mains st) = b_model st"
  "b_ac_in_watts (rc_mains st) = b_ac_in_watts st"
  "b_ac_out_watts (rc_mains st) = b_ac_out_watts st"
  "b_dc_in_watts (rc_mains st) = b_dc_in_watts st"
  "b_dc_out_watts (rc_mains st) = b_dc_out_watts st"
  "b_ac_in_volts (rc_mains st) = b_ac_in_volts st"
  "b_output_watts (rc_mains st) = b_output_watts st"
  "b_input_watts (rc_mains st) = b_input_watts st"
  "b_battery_watts (rc_mains st) = b_battery_watts st"
  by (simp_all add: rc_mains_def Let_def)

lemma rc_battery_frame [simp]:
  "b_soc_pct (rc_battery st) = b_soc_pct st"
  "b_minutes_remaining (rc_battery st) = b_minutes_remaining st"
  "b_ac_switch (rc_battery st) = b_ac_switch st"
  "b_dc_switch (rc_battery st) = b_dc_switch st"
  "b_eco_ac (rc_battery st) = b_eco_ac st"
  "b_eco_dc (rc_battery st) = b_eco_dc st"
  "b_power_lifting (rc_battery st) = b_power_lifting st"
  "b_eco_mode_ac (rc_battery st) = b_eco_mode_ac st"
  "b_eco_mode_dc (rc_battery st) = b_eco_mode_dc st"
  "b_charging_mode (rc_battery st) = b_charging_mode st"
  "b_display_time (rc_battery st) = b_display_time st"
  "b_soc_min (rc_battery st) = b_soc_min st"
  "b_soc_max (rc_battery st) = b_soc_max st"
  "b_serial (rc_battery st) = b_serial st"
  "b_model (rc_battery st) = b_model st"
  "b_ac_in_watts (rc_battery st) = b_ac_in_watts st"
  "b_ac_out_watts (rc_battery st) = b_ac_out_watts st"
  "b_dc_in_watts (rc_battery st) = b_dc_in_watts st"
  "b_dc_out_watts (rc_battery st) = b_dc_out_watts st"
  "b_ac_in_volts (rc_battery st) = b_ac_in_volts st"
  "b_output_watts (rc_battery st) = b_output_watts st"
  "b_input_watts (rc_battery st) = b_input_watts st"
  "b_ac_input_present (rc_battery st) = b_ac_input_present st"
  by (simp_all add: rc_battery_def Let_def)

lemma rc_charging_frame [simp]:
  "b_soc_pct (rc_charging st) = b_soc_pct st"
  "b_minutes_remaining (rc_charging st) = b_minutes_remaining st"
  "b_ac_switch (rc_charging st) = b_ac_switch st"
  "b_dc_switch (rc_charging st) = b_dc_switch st"
  "b_eco_ac (rc_charging st) = b_eco_ac st"
  "b_eco_dc (rc_charging st) = b_eco_dc st"
  "b_power_lifting (rc_charging st) = b_power_lifting st"
  "b_eco_mode_ac (rc_charging st) = b_eco_mode_ac st"
  "b_eco_mode_dc (rc_charging st) = b_eco_mode_dc st"
  "b_charging_mode (rc_charging st) = b_charging_mode st"
  "b_display_time (rc_charging st) = b_display_time st"
  "b_soc_min (rc_charging st) = b_soc_min st"
  "b_soc_max (rc_charging st) = b_soc_max st"
  "b_serial (rc_charging st) = b_serial st"
  "b_model (rc_charging st) = b_model st"
  "b_ac_in_watts (rc_charging st) = b_ac_in_watts st"
  "b_ac_out_watts (rc_charging st) = b_ac_out_watts st"
  "b_dc_in_watts (rc_charging st) = b_dc_in_watts st"
  "b_dc_out_watts (rc_charging st) = b_dc_out_watts st"
  "b_ac_in_volts (rc_charging st) = b_ac_in_volts st"
  "b_output_watts (rc_charging st) = b_output_watts st"
  "b_input_watts (rc_charging st) = b_input_watts st"
  "b_ac_input_present (rc_charging st) = b_ac_input_present st"
  "b_battery_watts (rc_charging st) = b_battery_watts st"
  by (simp_all add: rc_charging_def Let_def)

lemma recompute_frame [simp]:
  "b_soc_pct (recompute st) = b_soc_pct st"
  "b_minutes_remaining (recompute st) = b_minutes_remaining st"
  "b_ac_switch (recompute st) = b_ac_switch st"
  "b_dc_switch (recompute st) = b_dc_switch st"
  "b_eco_ac (recompute st) = b_eco_ac st"
  "b_eco_dc (recompute st) = b_eco_dc st"
  "b_power_lifting (recompute st) = b_power_lifting st"
  "b_eco_mode_ac (recompute st) = b_eco_mode_ac st"
  "b_eco_mode_dc (recompute st) = b_eco_mode_dc st"
  "b_charging_mode (recompute st) = b_charging_mode st"
  "b_display_time (recompute st) = b_display_time st"
  "b_soc_min (recompute st) = b_soc_min st"
  "b_soc_max (recompute st) = b_soc_max st"
  "b_serial (recompute st) = b_serial st"
  "b_model (recompute st) = b_model st"
  "b_ac_in_watts (recompute st) = b_ac_in_watts st"
  "b_ac_out_watts (recompute st) = b_ac_out_watts st"
  "b_dc_in_watts (recompute st) = b_dc_in_watts st"
  "b_dc_out_watts (recompute st) = b_dc_out_watts st"
  "b_ac_in_volts (recompute st) = b_ac_in_volts st"
  by (simp_all add: recompute_def Let_def)

lemma apply_telemetry_ranges:
  "control_ranges (fst acc) \<Longrightarrow> control_ranges (fst (apply_telemetry dev start data acc))"
  unfolding apply_telemetry_def Let_def
  by (intro take_field_preserves [where P = control_ranges])
    (use reg_bounds [of start data REG_TIME_REMAINING] swap_string_bound [of start data REG_DEVICE_TYPE 6]
      in \<open>auto simp: control_ranges_def snprintf_buf_bound\<close>)

lemma control_ranges_upd:
  assumes "control_ranges st"
  shows "v \<in> {- 1..100} \<Longrightarrow> control_ranges (st\<lparr>b_soc_pct := v\<rparr>)"
    and "v \<in> {- 1..1} \<Longrightarrow> control_ranges (st\<lparr>b_ac_switch := v\<rparr>)"
    and "v \<in> {- 1..1} \<Longrightarrow> control_ranges (st\<lparr>b_dc_switch := v\<rparr>)"
    and "v \<in> {- 1..1} \<Longrightarrow> control_ranges (st\<lparr>b_eco_ac := v\<rparr>)"
    and "v \<in> {- 1..1} \<Longrightarrow> control_ranges (st\<lparr>b_eco_dc := v\<rparr>)"
    and "v \<in> {- 1..1} \<Longrightarrow> control_ranges (st\<lparr>b_power_lifting := v\<rparr>)"
    and "v \<in> {- 1, 1, 2, 3, 4} \<Longrightarrow> control_ranges (st\<lparr>b_eco_mode_ac := v\<rparr>)"
    and "v \<in> {- 1, 1, 2, 3, 4} \<Longrightarrow> control_ranges (st\<lparr>b_eco_mode_dc := v\<rparr>)"
    and "v \<in> {- 1, 0, 1, 2, 4} \<Longrightarrow> control_ranges (st\<lparr>b_charging_mode := v\<rparr>)"
    and "v \<in> {- 1, 2, 3, 4, 5} \<Longrightarrow> control_ranges (st\<lparr>b_display_time := v\<rparr>)"
    and "v \<in> {- 1..100} \<Longrightarrow> control_ranges (st\<lparr>b_soc_min := v\<rparr>)"
    and "v \<in> {- 1..100} \<Longrightarrow> control_ranges (st\<lparr>b_soc_max := v\<rparr>)"
  using assms by (simp_all add: control_ranges_def)

lemma apply_controls_ranges:
  "control_ranges (fst acc) \<Longrightarrow> control_ranges (fst (apply_controls dev start data acc))"
  unfolding apply_controls_def Let_def
  by (cases "d_controls dev = 0", simp, simp only: if_False,
      intro take_field_preserves [where P = control_ranges], assumption) (erule control_ranges_upd; auto)+

section \<open>Properties\<close>

lemma bt_regs_apply_ranges:
  assumes "control_ranges st"
  shows "control_ranges (fst (bt_regs_apply dev start data now st))"
proof -
  have cap: "control_ranges (if c then st\<lparr>b_design_capacity_wh := w\<rparr> else st)" for c w
    using assms by (simp add: control_ranges_def)
  have fin: "control_ranges t \<Longrightarrow> control_ranges ((recompute t)\<lparr>b_valid := True, b_updated_us := now\<rparr>)" for t
    by (simp add: control_ranges_def)
  have "control_ranges (fst (apply_controls d start data (apply_telemetry d start data (if c then st\<lparr>b_design_capacity_wh := w\<rparr> else st, 0))))"
    for d c w by (intro apply_controls_ranges apply_telemetry_ranges) (use cap in simp)
  then show ?thesis
    unfolding bt_regs_apply_def Let_def by (auto split: prod.splits intro!: fin) (metis fst_conv)+
qed


text \<open>The snapshot a fresh link starts from: everything unknown.\<close>

definition ex_state :: bluetti_state where
  "ex_state = \<lparr>b_valid = False, b_sweep_done = False, b_updated_us = 0, b_soc_pct = - 1, b_soc_low_pct = 0,
     b_ac_input_present = False, b_charging = False, b_minutes_remaining = - 1, b_input_watts = - 1, b_output_watts = - 1,
     b_ac_in_watts = - 1, b_ac_out_watts = - 1, b_dc_in_watts = - 1, b_dc_out_watts = - 1, b_battery_watts = 0,
     b_battery_voltage = 0, b_battery_temp_c = - 1000, b_design_capacity_wh = 0, b_ac_in_volts = - 1, b_ac_in_amps = - 1,
     b_ac_out_volts = - 1, b_ac_switch = - 1, b_dc_switch = - 1, b_eco_ac = - 1, b_eco_dc = - 1, b_eco_mode_ac = - 1,
     b_eco_mode_dc = - 1, b_charging_mode = - 1, b_power_lifting = - 1, b_display_time = - 1, b_soc_min = - 1, b_soc_max = - 1,
     b_ups_mode_on = False, b_error_code = 0, b_serial = [], b_model = []\<rparr>"


lemma parse_ints_tables:
  "parse_ints ''1,2,3,4'' 8 = Some [1, 2, 3, 4]" "parse_ints ''0,1,2,4'' 8 = Some [0, 1, 2, 4]"
  "parse_ints ''2,3,4,5'' 8 = Some [2, 3, 4, 5]" "parse_ints ''0,100'' 8 = Some [0, 100]"
  by code_simp+

text \<open>The three tables of the controls agree. For every control and every model that has it, and
  every register value, the value is accepted for writing exactly when reading it back from the
  control's register decodes: then the snapshot shows that value under the same control; an
  unacceptable value is ignored and the snapshot is untouched.\<close>

theorem control_write_read_back:
  assumes "c \<in> set BT_CONTROLS" and "has_bit (d_controls dev) (ct_bit c)"
    and "v = int (unat hi) * 256 + int (unat lo)"
  shows "(bt_control_valid (Some c) v = Some True \<longrightarrow>
            bt_control_current c (fst (bt_regs_apply (Some dev) (ct_reg c) [hi, lo] now st)) = v) \<and>
         (bt_control_valid (Some c) v \<noteq> Some True \<longrightarrow>
            bt_control_valid (Some c) v = Some False \<and> snd (bt_regs_apply (Some dev) (ct_reg c) [hi, lo] now st) = 0 \<and>
            bt_control_current c (fst (bt_regs_apply (Some dev) (ct_reg c) [hi, lo] now st)) = bt_control_current c st)"
proof -
  have nz: "d_controls dev \<noteq> 0" using assms(2) by (auto simp: has_bit_def)
  have R: "reg a [hi, lo] x = (if x = a then v else - 1)" for a x
    unfolding assms(3) by (rule reg_single)
  have v0: "0 \<le> v" by (simp add: assms(3))
  have ranges: "1 \<le> v \<and> v \<le> 4 \<longleftrightarrow> v \<in> {1, 2, 3, 4}" "2 \<le> v \<and> v \<le> 5 \<longleftrightarrow> v \<in> {2, 3, 4, 5}" by auto
  show ?thesis
    using assms(1,2) v0 unfolding BT_CONTROLS_def list.set insert_iff empty_iff
    by (elim disjE) (simp_all add: bt_control_valid_def parse_ints_tables bt_regs_apply_def apply_telemetry_def
        apply_controls_def R nz bt_control_current_def ranges Let_def)
qed

theorem control_write_read_back_witness:
  "bt_control_current (BT_CONTROLS ! 6) (fst (bt_regs_apply (Some (DEVICES ! 1)) REG_CTRL_CHARGING_MODE [0, 4] 9 ex_state)) = 4"
proof -
  have "BT_CONTROLS ! 6 \<in> set BT_CONTROLS" by (simp add: BT_CONTROLS_def)
  moreover have "has_bit (d_controls (DEVICES ! 1)) (ct_bit (BT_CONTROLS ! 6))" "bt_control_valid (Some (BT_CONTROLS ! 6)) 4 = Some True"
    "ct_reg (BT_CONTROLS ! 6) = REG_CTRL_CHARGING_MODE" by code_simp+
  ultimately show ?thesis
    using control_write_read_back [of "BT_CONTROLS ! 6" "DEVICES ! 1" 4 0 4 9 ex_state] by simp
qed

text \<open>Power readings are whole numbers of a 16-bit register, or negative for unknown.\<close>

definition watts_ok :: "rat \<Rightarrow> bool" where
  "watts_ok w \<longleftrightarrow> w < 0 \<or> (\<exists>n. 0 \<le> n \<and> n \<le> 65535 \<and> w = of_int n)"

definition watts_inv :: "bluetti_state \<Rightarrow> bool" where
  "watts_inv st \<longleftrightarrow> watts_ok (b_ac_in_watts st) \<and> watts_ok (b_ac_out_watts st) \<and>
     watts_ok (b_dc_in_watts st) \<and> watts_ok (b_dc_out_watts st)"

definition known_watts :: "rat \<Rightarrow> rat" where
  "known_watts w = (if w \<ge> 0 then w else 0)"

lemma watts_ok_fl_reg: "reg start data a \<ge> 0 \<Longrightarrow> watts_ok (fl (of_int (reg start data a)))"
  using reg_bounds [of start data a] fl_exact [of "reg start data a"] by (auto simp: watts_ok_def)

lemma watts_ok_known: "watts_ok w \<Longrightarrow> \<exists>n. 0 \<le> n \<and> n \<le> 65535 \<and> known_watts w = of_int n"
  by (auto simp: watts_ok_def known_watts_def intro: exI [of _ 0])

lemma apply_watts:
  assumes "watts_inv (fst acc)"
  shows "watts_inv (fst (apply_controls dev start data (apply_telemetry dev start data acc)))"
proof -
  have "watts_inv (fst (apply_telemetry dev start data acc))"
    unfolding apply_telemetry_def Let_def
    by (intro take_field_preserves [where P = watts_inv], rule assms)
      (simp_all add: watts_inv_def watts_ok_fl_reg)
  then show ?thesis
    unfolding apply_controls_def Let_def
    by (cases "d_controls dev = 0", simp, simp only: if_False, intro take_field_preserves [where P = watts_inv], assumption)
      (simp_all add: watts_inv_def)
qed

lemma fadd_exact:
  assumes "0 \<le> m" "m \<le> 65535" "0 \<le> n" "n \<le> 65535"
  shows "fadd (of_int m) (of_int n) = of_int (m + n)"
  using fl_exact [of "m + n"] assms by (simp add: fadd_def)

lemma fsub_exact:
  assumes "0 \<le> m" "m \<le> 131070" "0 \<le> n" "n \<le> 131070"
  shows "fsub (of_int m) (of_int n) = of_int (m - n)"
  using fl_exact [of "m - n"] assms by (simp add: fsub_def)

lemma rc_battery_known:
  "b_input_watts st \<ge> 0 \<Longrightarrow> b_output_watts st \<ge> 0 \<Longrightarrow>
   b_battery_watts (rc_battery st) = fsub (b_output_watts st) (b_input_watts st)"
  by (simp add: rc_battery_def)

lemma rc_charging_known:
  "b_input_watts st \<ge> 0 \<Longrightarrow> b_output_watts st \<ge> 0 \<Longrightarrow>
   b_charging (rc_charging st) \<longleftrightarrow> b_battery_watts st < 0 \<and> 0 \<le> b_soc_pct st \<and> b_soc_pct st < 100"
  by (simp add: rc_charging_def)

lemma recompute_balance:
  assumes "watts_inv st" and "b_ac_out_watts st \<ge> 0 \<or> b_dc_out_watts st \<ge> 0" and "b_ac_in_watts st \<ge> 0 \<or> b_dc_in_watts st \<ge> 0"
  shows "b_output_watts (recompute st) = known_watts (b_ac_out_watts st) + known_watts (b_dc_out_watts st)"
    and "b_input_watts (recompute st) = known_watts (b_ac_in_watts st) + known_watts (b_dc_in_watts st)"
    and "b_battery_watts (recompute st) = b_output_watts (recompute st) - b_input_watts (recompute st)"
    and "b_charging (recompute st) \<longleftrightarrow> b_battery_watts (recompute st) < 0 \<and> 0 \<le> b_soc_pct st \<and> b_soc_pct st < 100"
proof -
  obtain ao d_o ai di where n:
    "0 \<le> ao" "ao \<le> 65535" "known_watts (b_ac_out_watts st) = of_int ao"
    "0 \<le> d_o" "d_o \<le> 65535" "known_watts (b_dc_out_watts st) = of_int d_o"
    "0 \<le> ai" "ai \<le> 65535" "known_watts (b_ac_in_watts st) = of_int ai"
    "0 \<le> di" "di \<le> 65535" "known_watts (b_dc_in_watts st) = of_int di"
    using assms(1) watts_ok_known unfolding watts_inv_def by meson
  have out: "b_output_watts (recompute st) = of_int (ao + d_o)" and inp: "b_input_watts (recompute st) = of_int (ai + di)"
  proof -
    have "b_output_watts (recompute st) = fadd (known_watts (b_ac_out_watts st)) (known_watts (b_dc_out_watts st))"
      "b_input_watts (recompute st) = fadd (known_watts (b_ac_in_watts st)) (known_watts (b_dc_in_watts st))"
      using assms(2,3) by (auto simp: recompute_def rc_output_def rc_input_def known_watts_def Let_def)
    then show "b_output_watts (recompute st) = of_int (ao + d_o)" "b_input_watts (recompute st) = of_int (ai + di)"
      using n by (simp_all only: fadd_exact)
  qed
  show "b_output_watts (recompute st) = known_watts (b_ac_out_watts st) + known_watts (b_dc_out_watts st)"
    "b_input_watts (recompute st) = known_watts (b_ac_in_watts st) + known_watts (b_dc_in_watts st)"
    using out inp n by simp_all
  have bat: "b_battery_watts (recompute st) = fsub (b_output_watts (recompute st)) (b_input_watts (recompute st))"
    and chg: "b_charging (recompute st) \<longleftrightarrow> b_battery_watts (recompute st) < 0 \<and> 0 \<le> b_soc_pct st \<and> b_soc_pct st < 100"
    if "b_output_watts (recompute st) \<ge> 0" "b_input_watts (recompute st) \<ge> 0"
    using that by (simp_all add: recompute_def rc_battery_known rc_charging_known)
  show "b_battery_watts (recompute st) = b_output_watts (recompute st) - b_input_watts (recompute st)"
    using bat out inp n fsub_exact [of "ao + d_o" "ai + di"] by simp
  show "b_charging (recompute st) \<longleftrightarrow> b_battery_watts (recompute st) < 0 \<and> 0 \<le> b_soc_pct st \<and> b_soc_pct st < 100"
    using chg out inp n by simp
qed

lemma apply_matched:
  assumes "bt_regs_apply dev start data now st = (st', m)" and "m > 0" and "watts_inv st"
  obtains t where "watts_inv t" and "st' = (recompute t)\<lparr>b_valid := True, b_updated_us := now\<rparr>"
proof -
  define d where "d = (case dev of None \<Rightarrow> BT_DEVICE_GENERIC | Some d \<Rightarrow> d)"
  define st1 where "st1 = (if d_wh d > 0 \<and> b_design_capacity_wh st \<le> 0 then st\<lparr>b_design_capacity_wh := uint (d_wh d)\<rparr> else st)"
  obtain t k where t: "apply_controls d start data (apply_telemetry d start data (st1, 0)) = (t, k)" by fastforce
  have "watts_inv st1" using assms(3) by (simp add: st1_def watts_inv_def)
  then have "watts_inv t" using apply_watts [of "(st1, 0)" d start data] t by simp
  moreover have "st' = (recompute t)\<lparr>b_valid := True, b_updated_us := now\<rparr>"
    using assms(1,2) t unfolding bt_regs_apply_def Let_def d_def [symmetric] st1_def [symmetric]
    by (auto split: if_splits)
  ultimately show ?thesis using that by blast
qed

text \<open>The derived figures are exact in spite of single-precision arithmetic: after any recognised
  response, once at least one output and one input reading are known, output and input are the
  exact sums of the known readings, the battery flow is their exact difference, the unit counts as
  charging exactly when the flow is into the battery and the charge is known and below 100 %, and
  mains counts as present exactly when AC input power or voltage is positive.\<close>

theorem energy_balance_exact:
  assumes "bt_regs_apply dev start data now st = (st', m)" and "m > 0" and "watts_inv st"
    and "b_ac_out_watts st' \<ge> 0 \<or> b_dc_out_watts st' \<ge> 0" and "b_ac_in_watts st' \<ge> 0 \<or> b_dc_in_watts st' \<ge> 0"
  shows "watts_inv st' \<and>
     b_output_watts st' = known_watts (b_ac_out_watts st') + known_watts (b_dc_out_watts st') \<and>
     b_input_watts st' = known_watts (b_ac_in_watts st') + known_watts (b_dc_in_watts st') \<and>
     b_battery_watts st' = b_output_watts st' - b_input_watts st' \<and>
     (b_charging st' \<longleftrightarrow> b_input_watts st' > b_output_watts st' \<and> 0 \<le> b_soc_pct st' \<and> b_soc_pct st' < 100) \<and>
     (b_ac_input_present st' \<longleftrightarrow> b_ac_in_watts st' > 0 \<or> b_ac_in_volts st' > 0)"
proof -
  obtain t where t: "watts_inv t" and st': "st' = (recompute t)\<lparr>b_valid := True, b_updated_us := now\<rparr>"
    by (rule apply_matched [OF assms(1-3)])
  have io: "b_ac_out_watts t \<ge> 0 \<or> b_dc_out_watts t \<ge> 0" "b_ac_in_watts t \<ge> 0 \<or> b_dc_in_watts t \<ge> 0"
    using assms(4,5) by (auto simp: st')
  note B = recompute_balance [OF t io]
  have mains: "b_ac_input_present (recompute t) \<longleftrightarrow> b_ac_in_watts t > 0 \<or> b_ac_in_volts t > 0"
    by (simp add: recompute_def rc_mains_def)
  show ?thesis using t B mains by (simp add: st' watts_inv_def)
qed

lemma ex_power_run:
  "case bt_regs_apply None REG_DC_OUTPUT_POWER [0, 10, 0, 0, 0, 90, 0, 0, 0, 20, 0, 0, 1, 44] 7 ex_state of
     (st', m) \<Rightarrow> m = 4 \<and> b_dc_out_watts st' = 10 \<and> b_ac_out_watts st' = 90 \<and> b_dc_in_watts st' = 20 \<and> b_ac_in_watts st' = 300"
  by code_simp

theorem energy_balance_exact_witness:
  "\<exists>st'. bt_regs_apply None REG_DC_OUTPUT_POWER [0, 10, 0, 0, 0, 90, 0, 0, 0, 20, 0, 0, 1, 44] 7 ex_state = (st', 4) \<and>
     b_battery_watts st' = - 220"
proof -
  obtain st' m where r: "bt_regs_apply None REG_DC_OUTPUT_POWER [0, 10, 0, 0, 0, 90, 0, 0, 0, 20, 0, 0, 1, 44] 7 ex_state = (st', m)"
    by fastforce
  have "watts_inv ex_state" by (simp add: watts_inv_def watts_ok_def ex_state_def)
  then show ?thesis
    using energy_balance_exact [OF r] ex_power_run r by (simp add: known_watts_def)
qed

lemma name_matches_iff: "name_matches d name \<longleftrightarrow> (\<exists>ds. name = d_name d @ ds \<and> list_all is_digit ds)"
  by (auto simp: name_matches_def has_prefix_iff list_all_iff)

text \<open>No name of the table is another name followed by digits.\<close>

lemma devices_separate:
  "list_all (\<lambda>d. list_all (\<lambda>e. d = e \<or> \<not> name_matches d (d_name e)) DEVICES) DEVICES"
  by code_simp

lemma devices_unique:
  assumes "d \<in> set DEVICES" and "e \<in> set DEVICES" and "name_matches d name" and "name_matches e name"
  shows "d = e"
proof -
  obtain ds es where name: "name = d_name d @ ds" "name = d_name e @ es" and digits: "list_all is_digit ds" "list_all is_digit es"
    using assms(3,4) unfolding name_matches_iff by blast
  then obtain us where "d_name d = d_name e @ us \<and> us @ ds = es \<or> d_name d @ us = d_name e \<and> ds = us @ es"
    by (metis append_eq_append_conv2)
  then have "name_matches e (d_name d) \<or> name_matches d (d_name e)"
    using digits unfolding name_matches_iff by auto
  then show ?thesis
    using devices_separate assms(1,2) unfolding list_all_iff by auto
qed

text \<open>A name identifies its model whatever the order of the table: the lookup answers with a model
  exactly when the name is that model's name followed by digits only, and for no name does that hold
  of two models.\<close>

theorem device_lookup_unique:
  "(bt_device_lookup (Some name) = Some d \<longleftrightarrow>
      d \<in> set DEVICES \<and> (\<exists>ds. name = d_name d @ ds \<and> list_all is_digit ds)) \<and>
   bt_device_lookup None = None"
proof (cases "bt_device_lookup (Some name)")
  case None
  then have "\<not> name_matches d name" if "d \<in> set DEVICES" for d
    using that by (auto simp: bt_device_lookup_def find_None_mem name_matches_iff DEVICES_def split: if_splits)
  then show ?thesis using None by (auto simp: name_matches_iff bt_device_lookup_def)
next
  case (Some e)
  then have "e \<in> set DEVICES" "name_matches e name"
    using find_Some_mem [of "\<lambda>d. name_matches d name" DEVICES e] by (auto simp: bt_device_lookup_def split: if_splits)
  then show ?thesis
    using Some devices_unique [of d e name] by (auto simp: name_matches_iff [symmetric] bt_device_lookup_def)
qed

end
