(* ===== verification/Bluetti_Ble.thy ===== *)
theory Bluetti_Ble
  imports Bt_Session Bt_Regs
begin

unbundle bit_operations_syntax

text \<open>
  The link to the power station, \<^verbatim>\<open>components/bluetti_ble/bluetti_ble.c\<close>: scan results, the
  connection life cycle, the polling of one register field per tick, the queue of control writes and
  the hand-over of decoded responses. The record \<open>ble\<close> is the file's static state \<^verbatim>\<open>b\<close>; the
  used parts of its fixed arrays are lists (\<open>plan_n\<close>, \<open>write_queue_n\<close> and \<open>seen_n\<close> are their
  lengths). Calls into the NimBLE stack, the timers and the two application callbacks are outputs,
  appended to \<open>k_out\<close>; what the stack answers is an argument. Callbacks of the session run while it
  is being fed and do not call back into it, so the model feeds the session first and then applies
  the callbacks it produced, in order. A step of service discovery is an answer of the stack
  (\<open>gatt\<close>); what it searches for next is an output.
\<close>

section \<open>Data\<close>

datatype ble_mode = MODE_IDLE | MODE_SCAN | MODE_CONNECT

record scan_entry =
  se_addr :: string
  se_name :: string
  se_rssi :: int
  se_looks_like_bluetti :: bool

datatype ble_out =
    GapTerminate | GapDisc bool | GapDiscCancel | GapConnect "byte list" | ExchangeMtu
  | DiscService | DiscAllServices | StateCb bluetti_state | ScanCb scan_entry
  | PollTimerStart nat | PollTimerStop | KexTimerStart | KexTimerStop | ScanTimerStart nat | ScanTimerStop
  | DiscWriteChr | DiscNotifyChr | Subscribe u16 | ProbeChrs u16 u16 | ProbeDscs u16 u16 | ProbeSubscribe u16
  | HostInit

record ble_config =
  bc_address :: "string option"
  bc_poll_interval_ms :: nat
  bc_low_battery_pct :: int
  bc_probe :: bool
  bc_controls :: bool

record 'pt ble =
  k_cfg :: ble_config
  k_has_state_cb :: bool
  k_has_scan_cb :: bool
  k_seen :: "(byte list \<times> bool) list"
  k_target_addr :: "byte list"
  k_have_target_addr :: bool
  k_device :: "bt_device option"
  k_mode :: ble_mode
  k_resume_connect :: bool
  k_synced :: bool
  k_conn_handle :: u16
  k_connected :: bool
  k_notify_handles :: "u16 list"
  k_write_handle :: u16
  k_write_with_rsp :: bool
  k_notify_handle :: u16
  k_notify_cccd :: u16
  k_session :: "'pt bt_session"
  k_plan :: "bt_reg_read list"
  k_plan_i :: nat
  k_sweep_reads :: nat
  k_req_in_flight :: bool
  k_req_sent_us :: int
  k_poll_fails :: nat
  k_write_queue :: "(u16 \<times> u16) list"
  k_state :: bluetti_state
  k_out :: "ble_out list"

definition out :: "ble_out \<Rightarrow> 'pt ble \<Rightarrow> 'pt ble" where
  "out x b = b\<lparr>k_out := k_out b @ [x]\<rparr>"

abbreviation PROBE_MAX :: nat where "PROBE_MAX \<equiv> 8"
abbreviation SEEN_MAX :: nat where "SEEN_MAX \<equiv> 24"
abbreviation WRITE_QUEUE_MAX :: nat where "WRITE_QUEUE_MAX \<equiv> 16"
abbreviation REQ_TIMEOUT_US :: int where "REQ_TIMEOUT_US \<equiv> 6000000"
abbreviation POLL_FAIL_LIMIT :: nat where "POLL_FAIL_LIMIT \<equiv> 5"

section \<open>Telemetry reset\<close>

text \<open>\<^verbatim>\<open>memset\<close> to zero, then the fields whose unknown value is not zero.\<close>

definition state_reset :: "bluetti_state \<Rightarrow> bluetti_state" where
  "state_reset st =
     \<lparr>b_valid = False, b_sweep_done = False, b_updated_us = 0, b_soc_pct = BLUETTI_UNKNOWN_I,
      b_soc_low_pct = b_soc_low_pct st, b_ac_input_present = False, b_charging = False,
      b_minutes_remaining = BLUETTI_UNKNOWN_I, b_input_watts = BLUETTI_UNKNOWN_F, b_output_watts = BLUETTI_UNKNOWN_F,
      b_ac_in_watts = BLUETTI_UNKNOWN_F, b_ac_out_watts = BLUETTI_UNKNOWN_F, b_dc_in_watts = BLUETTI_UNKNOWN_F,
      b_dc_out_watts = BLUETTI_UNKNOWN_F, b_battery_watts = BLUETTI_UNKNOWN_F, b_battery_voltage = 0,
      b_battery_temp_c = BLUETTI_UNKNOWN_F, b_design_capacity_wh = 0, b_ac_in_volts = BLUETTI_UNKNOWN_F,
      b_ac_in_amps = BLUETTI_UNKNOWN_F, b_ac_out_volts = BLUETTI_UNKNOWN_F, b_ac_switch = BLUETTI_UNKNOWN_I,
      b_dc_switch = BLUETTI_UNKNOWN_I, b_eco_ac = BLUETTI_UNKNOWN_I, b_eco_dc = BLUETTI_UNKNOWN_I,
      b_eco_mode_ac = BLUETTI_UNKNOWN_I, b_eco_mode_dc = BLUETTI_UNKNOWN_I, b_charging_mode = BLUETTI_UNKNOWN_I,
      b_power_lifting = BLUETTI_UNKNOWN_I, b_display_time = BLUETTI_UNKNOWN_I, b_soc_min = BLUETTI_UNKNOWN_I,
      b_soc_max = BLUETTI_UNKNOWN_I, b_ups_mode_on = False, b_error_code = 0, b_serial = [], b_model = []\<rparr>"

section \<open>Scan results\<close>

definition addr_to_str :: "byte list \<Rightarrow> string" where
  "addr_to_str v = snprintf_buf 18
     (hex2 (v ! 5) @ '':'' @ hex2 (v ! 4) @ '':'' @ hex2 (v ! 3) @ '':'' @ hex2 (v ! 2) @ '':'' @ hex2 (v ! 1) @ '':'' @ hex2 (v ! 0))"

text \<open>\<^verbatim>\<open>sscanf\<close> with six \<^verbatim>\<open>%x\<close> separated by colons. One \<^verbatim>\<open>%x\<close> skips white space, takes an
  optional sign and an optional \<^verbatim>\<open>0x\<close>, then hexadecimal digits; a number past 32 bits saturates. Only
  the low byte of each number is kept, and what follows the sixth is not looked at.\<close>

definition hex_val :: "char \<Rightarrow> nat option" where
  "hex_val c = (let n = ord c in
     if 48 \<le> n \<and> n \<le> 57 then Some (n - 48)
     else if 65 \<le> n \<and> n \<le> 70 then Some (n - 55)
     else if 97 \<le> n \<and> n \<le> 102 then Some (n - 87) else None)"

fun read_hex :: "nat \<Rightarrow> string \<Rightarrow> nat \<times> string" where
  "read_hex acc [] = (acc, [])"
| "read_hex acc (c # s) = (case hex_val c of None \<Rightarrow> (acc, c # s) | Some d \<Rightarrow> read_hex (acc * 16 + d) s)"

definition starts_hex :: "string \<Rightarrow> bool" where
  "starts_hex s \<longleftrightarrow> s \<noteq> [] \<and> hex_val (hd s) \<noteq> None"

definition scan_x :: "string \<Rightarrow> (u32 \<times> string) option" where
  "scan_x s =
     (let s = dropWhile is_space s;
          neg = (s \<noteq> [] \<and> hd s = CHR ''-'');
          s = (if s \<noteq> [] \<and> (hd s = CHR ''-'' \<or> hd s = CHR ''+'') then tl s else s);
          s = (if (take 2 s = ''0x'' \<or> take 2 s = ''0X'') \<and> starts_hex (drop 2 s) then drop 2 s else s)
      in if \<not> starts_hex s then None
         else case read_hex 0 s of (n, rest) \<Rightarrow>
           let v = (if n \<ge> 2 ^ 32 then - 1 else if neg then - of_nat n else of_nat n) in Some (v, rest))"

definition scan_sep :: "string \<Rightarrow> string option" where
  "scan_sep s = (case s of [] \<Rightarrow> None | c # r \<Rightarrow> if c = CHR '':'' then Some r else None)"

text \<open>\<open>scan_xs n\<close> is \<open>n + 1\<close> numbers; the bytes come out in reading order.\<close>

fun scan_xs :: "nat \<Rightarrow> string \<Rightarrow> byte list option" where
  "scan_xs 0 s = map_option (\<lambda>(v, r). [ucast v]) (scan_x s)"
| "scan_xs (Suc n) s =
     (case scan_x s of
        None \<Rightarrow> None
      | Some (v, r) \<Rightarrow>
          (case scan_sep r of None \<Rightarrow> None | Some r \<Rightarrow> map_option (\<lambda>vs. ucast v # vs) (scan_xs n r)))"

definition parse_addr :: "string option \<Rightarrow> byte list option" where
  "parse_addr str = (case str of None \<Rightarrow> None | Some s \<Rightarrow> map_option rev (scan_xs 5 s))"

definition BT_PREFIXES :: "string list" where
  "BT_PREFIXES = [''BLUETTI'', ''Bluetti'', ''AC'', ''EB'', ''EP'', ''AP'', ''EL'', ''AORA'', ''PR'', ''RV'']"

text \<open>The name is \<open>len\<close> bytes that need not be terminated; the copy made for the lookup ends at a
  zero byte if there is one.\<close>

definition name_looks_bluetti :: "string \<Rightarrow> bool" where
  "name_looks_bluetti name \<longleftrightarrow>
     length name < 33 \<and> bt_device_lookup (Some (takeWhile (\<lambda>c. c \<noteq> CHR 0x00) name)) \<noteq> None \<or>
     (\<exists>p \<in> set BT_PREFIXES. length p \<le> length name \<and> has_prefix p name)"

fun seen_index :: "(byte list \<times> bool) list \<Rightarrow> byte list \<Rightarrow> nat option" where
  "seen_index [] v = None"
| "seen_index ((a, n) # xs) v = (if a = v then Some 0 else map_option Suc (seen_index xs v))"

definition seen_add :: "(byte list \<times> bool) list \<Rightarrow> byte list \<Rightarrow> bool \<Rightarrow> (byte list \<times> bool) list option" where
  "seen_add seen v named = (if length seen \<ge> SEEN_MAX then None else Some (seen @ [(v, named)]))"

text \<open>One advertisement, already parsed by the stack: the address, the name field and the signal.\<close>

definition handle_scan_disc :: "'pt ble \<Rightarrow> byte list \<Rightarrow> string \<Rightarrow> int \<Rightarrow> 'pt ble" where
  "handle_scan_disc b addr name rssi =
     (let has_name = (length name > 0);
          upd = (case seen_index (k_seen b) addr of
                   Some i \<Rightarrow> if \<not> has_name \<or> snd (k_seen b ! i) then None
                             else Some ((k_seen b)[i := (fst (k_seen b ! i), True)])
                 | None \<Rightarrow> seen_add (k_seen b) addr has_name);
          e = \<lparr>se_addr = addr_to_str addr,
               se_name = (if has_name then takeWhile (\<lambda>c. c \<noteq> CHR 0x00) (take 31 name) else []),
               se_rssi = rssi, se_looks_like_bluetti = has_name \<and> name_looks_bluetti name\<rparr>
      in case upd of
           None \<Rightarrow> b
         | Some seen \<Rightarrow> let b = b\<lparr>k_seen := seen\<rparr> in if k_has_scan_cb b then out (ScanCb e) b else b)"

section \<open>Session callbacks\<close>

text \<open>\<open>radio k\<close> is what the stack answers to write number \<open>k\<close> of the session.\<close>

definition session_tx_env :: "bool \<Rightarrow> (nat \<Rightarrow> int) \<Rightarrow> 'pt ble \<Rightarrow> sess_env" where
  "session_tx_env trace radio b =
     \<lparr>env_trace = trace,
      env_tx = (\<lambda>k. if \<not> k_connected b \<or> k_write_handle b = 0 then - 1 else if radio k \<noteq> 0 then - 1 else 0)\<rparr>"

definition session_regs :: "'pt ble \<Rightarrow> u16 \<Rightarrow> byte list \<Rightarrow> int \<Rightarrow> 'pt ble" where
  "session_regs b addr data now =
     (let (st, matched) = bt_regs_apply (k_device b) addr data now (k_state b);
          b = b\<lparr>k_state := st\<rparr>;
          b = (if k_device b = None \<and> b_model (k_state b) \<noteq> [] then
                 let d = (case bt_device_lookup (Some (b_model (k_state b))) of Some d \<Rightarrow> d | None \<Rightarrow> BT_DEVICE_GENERIC)
                 in b\<lparr>k_device := Some d, k_plan := bt_regs_plan (Some d) (bc_controls (k_cfg b)) BT_REG_PLAN_MAX,
                      k_plan_i := 0, k_sweep_reads := 0,
                      k_state := fst (bt_regs_apply (Some d) addr data now (k_state b))\<rparr>
               else b);
          b = b\<lparr>k_state := (k_state b)\<lparr>b_soc_low_pct := bc_low_battery_pct (k_cfg b),
                  b_sweep_done := length (k_plan b) > 0 \<and> k_sweep_reads b \<ge> length (k_plan b)\<rparr>\<rparr>;
          b = b\<lparr>k_req_in_flight := False, k_poll_fails := 0\<rparr>
      in if matched > 0 \<and> k_has_state_cb b then out (StateCb (k_state b)) b else b)"

definition session_ack :: "'pt ble \<Rightarrow> 'pt ble" where
  "session_ack b = b\<lparr>k_req_in_flight := False, k_poll_fails := 0\<rparr>"

fun session_callback :: "int \<Rightarrow> sess_out \<Rightarrow> 'pt ble \<Rightarrow> 'pt ble" where
  "session_callback now (Regs addr data) b = session_regs b addr data now"
| "session_callback now (Ack addr val ok) b = session_ack b"
| "session_callback now (Tx data) b = b"

section \<open>Polling\<close>

text \<open>The three parts of \<^verbatim>\<open>poll_timer_cb\<close>: the outstanding request, the queued write, the next
  read. The first returns the link and whether the tick goes on.\<close>

definition poll_outstanding :: "'pt ble \<Rightarrow> int \<Rightarrow> 'pt ble \<times> bool" where
  "poll_outstanding b now =
     (if \<not> k_req_in_flight b then (b, True)
      else if now - k_req_sent_us b < REQ_TIMEOUT_US then (b, False)
      else
        let b = b\<lparr>k_req_in_flight := False, k_poll_fails := Suc (k_poll_fails b)\<rparr>
        in if k_poll_fails b \<ge> POLL_FAIL_LIMIT
           then (out GapTerminate (out PollTimerStop (b\<lparr>k_poll_fails := 0, k_connected := False\<rparr>)), False)
           else (b, True))"

definition poll_write :: "'pt mbedtls \<Rightarrow> sess_env \<Rightarrow> 'pt ble \<Rightarrow> int \<Rightarrow> u16 \<times> u16 \<Rightarrow> 'pt ble" where
  "poll_write M E b now rv =
     (case bt_session_write_reg M E (k_session b) (fst rv) (snd rv) of (rc, s) \<Rightarrow>
        let b = b\<lparr>k_session := s\<rparr>
        in if rc \<noteq> 0 then b else b\<lparr>k_req_in_flight := True, k_req_sent_us := now\<rparr>)"

definition poll_read :: "'pt mbedtls \<Rightarrow> sess_env \<Rightarrow> 'pt ble \<Rightarrow> int \<Rightarrow> 'pt ble" where
  "poll_read M E b now =
     (if length (k_plan b) = 0 then b
      else
        let f = k_plan b ! k_plan_i b;
            b = b\<lparr>k_plan_i := (k_plan_i b + 1) mod length (k_plan b),
                  k_sweep_reads := (if k_sweep_reads b < length (k_plan b) then Suc (k_sweep_reads b) else k_sweep_reads b)\<rparr>
        in case bt_session_read_regs M E (k_session b) (rr_addr f) (ucast (rr_words f)) of (rc, s) \<Rightarrow>
             let b = b\<lparr>k_session := s\<rparr>
             in if rc \<noteq> 0 then b else b\<lparr>k_req_in_flight := True, k_req_sent_us := now\<rparr>)"

definition poll_timer_cb :: "'pt mbedtls \<Rightarrow> bool \<Rightarrow> (nat \<Rightarrow> int) \<Rightarrow> 'pt ble \<Rightarrow> int \<Rightarrow> 'pt ble" where
  "poll_timer_cb M trace radio b now =
     (if \<not> k_connected b \<or> \<not> bt_session_ready (k_session b) \<or> length (k_plan b) = 0 then b
      else case poll_outstanding b now of (b, go) \<Rightarrow>
        if \<not> go then b
        else case k_write_queue b of
               rv # rest \<Rightarrow> poll_write M (session_tx_env trace radio b) (b\<lparr>k_write_queue := rest\<rparr>) now rv
             | [] \<Rightarrow> poll_read M (session_tx_env trace radio b) b now)"

definition kex_timer_cb :: "'pt ble \<Rightarrow> 'pt ble" where
  "kex_timer_cb b =
     (if k_connected b \<and> s_state (k_session b) = BT_SESS_IDLE
      then b\<lparr>k_session := bt_session_use_plain (k_session b)\<rparr> else b)"

text \<open>Notifications are on: the plan of an unknown unit, and the two timers.\<close>

definition on_sub :: "'pt ble \<Rightarrow> int \<Rightarrow> 'pt ble" where
  "on_sub b status =
     (if status \<noteq> 0 then b
      else
        let b = b\<lparr>k_plan := bt_regs_plan (Some BT_DEVICE_GENERIC) False BT_REG_PLAN_MAX, k_plan_i := 0,
                  k_sweep_reads := 0, k_poll_fails := 0, k_req_in_flight := False\<rparr>;
            period = (if bc_poll_interval_ms (k_cfg b) \<noteq> 0 then bc_poll_interval_ms (k_cfg b) else 5000);
            tick_ms = max 250 (period div (length (k_plan b) + 6));
            b = out (PollTimerStart (tick_ms * 1000)) (out PollTimerStop b)
        in if bc_probe (k_cfg b) then b else out KexTimerStart (out KexTimerStop b))"

section \<open>Connection life cycle\<close>

definition start_disc :: "bool \<Rightarrow> 'pt ble \<Rightarrow> 'pt ble" where
  "start_disc report_all b = out (GapDisc report_all) b"

definition start_connect_scan :: "'pt ble \<Rightarrow> 'pt ble" where
  "start_connect_scan b = (if k_mode b \<noteq> MODE_CONNECT then b else start_disc False b)"

definition try_connect :: "int \<Rightarrow> 'pt ble \<Rightarrow> byte list \<Rightarrow> 'pt ble" where
  "try_connect connect_rc b addr =
     (let b = out (GapConnect addr) (out GapDiscCancel b)
      in if connect_rc \<noteq> 0 then start_connect_scan b else b)"

text \<open>The events of the stack, each with what the stack parsed for it. An advertisement whose
  fields do not parse carries \<open>None\<close>; a notification is the characteristic's handle and the bytes
  the stack copied out, at most 256.\<close>

datatype gap_ev =
    GapDiscEv "byte list" "string option" int
  | GapConnectEv int u16
  | GapDisconnectEv
  | GapNotifyRx u16 u16 "byte list option"
  | GapDiscComplete

text \<open>Feeding the session and running the callbacks it made.\<close>

definition feed_session :: "'pt mbedtls \<Rightarrow> sess_env \<Rightarrow> 'pt ble \<Rightarrow> byte list \<Rightarrow> int \<Rightarrow> 'pt ble option" where
  "feed_session M E b data now =
     (case bt_session_feed M E (k_session b) data of
        None \<Rightarrow> None
      | Some s \<Rightarrow>
          Some (fold (session_callback now) (drop (length (s_out (k_session b))) (s_out s)) (b\<lparr>k_session := s\<rparr>)))"

fun gap_event ::
    "'pt mbedtls \<Rightarrow> bool \<Rightarrow> (nat \<Rightarrow> int) \<Rightarrow> int \<Rightarrow> int \<Rightarrow> gap_ev \<Rightarrow> 'pt ble \<Rightarrow> 'pt ble option" where
  "gap_event M trace radio connect_rc now (GapDiscEv addr name rssi) b =
     Some (if k_mode b = MODE_SCAN then
             (case name of None \<Rightarrow> b | Some nm \<Rightarrow> handle_scan_disc b addr nm rssi)
           else if k_mode b = MODE_CONNECT then
             (if name = None then b
              else if addr = k_target_addr b then try_connect connect_rc b addr else b)
           else b)"
| "gap_event M trace radio connect_rc now (GapConnectEv status handle) b =
     Some (if status = 0 then
             let b = b\<lparr>k_conn_handle := handle, k_connected := True, k_notify_handles := [], k_write_handle := 0, k_notify_handle := 0,
                       k_notify_cccd := 0, k_write_with_rsp := False, k_plan := [], k_plan_i := 0, k_sweep_reads := 0,
                       k_req_in_flight := False, k_poll_fails := 0, k_state := state_reset (k_state b),
                       k_session := bt_session_reset (k_session b), k_device := None\<rparr>;
                 b = out ExchangeMtu b
             in if bc_probe (k_cfg b) then out DiscAllServices b else out DiscService b
           else start_connect_scan b)"
| "gap_event M trace radio connect_rc now GapDisconnectEv b =
     Some (let b = out KexTimerStop (out PollTimerStop (b\<lparr>k_connected := False\<rparr>));
               b = b\<lparr>k_session := bt_session_reset (k_session b), k_device := None\<rparr>
           in if k_mode b = MODE_SCAN then start_disc True b
              else if k_mode b = MODE_CONNECT then start_connect_scan b else b)"
| "gap_event M trace radio connect_rc now (GapNotifyRx conn attr data) b =
     (if conn \<noteq> k_conn_handle b then Some b
      else case data of
             None \<Rightarrow> Some b
           | Some d \<Rightarrow>
               if bc_probe (k_cfg b) then Some b
               else if attr = k_notify_handle b
               then feed_session M (session_tx_env trace radio b) b (take 256 d) now
               else Some b)"
| "gap_event M trace radio connect_rc now GapDiscComplete b =
     Some (if k_mode b = MODE_SCAN then b\<lparr>k_mode := MODE_IDLE\<rparr> else b)"

section \<open>Service discovery\<close>

text \<open>What the stack tells a discovery callback: an item, the end of the list, or another status
  (also a zero status without an item).\<close>

datatype 'a gatt = Found 'a | Edone | Status int

record gatt_chr =
  gc_handle :: u16
  gc_write :: bool
  gc_notify :: bool

text \<open>The service itself is only looked for; the two characteristics are searched in the whole
  range. The client configuration descriptor is taken to follow the value.\<close>

definition on_disc_svc :: "'pt ble \<Rightarrow> (u16 \<times> u16) gatt \<Rightarrow> 'pt ble" where
  "on_disc_svc b a =
     (case a of
        Found svc \<Rightarrow> b
      | Edone \<Rightarrow> out DiscWriteChr b
      | Status e \<Rightarrow> if e \<noteq> 0 then out GapTerminate b else b)"

definition on_disc_write_chr :: "'pt ble \<Rightarrow> gatt_chr gatt \<Rightarrow> 'pt ble" where
  "on_disc_write_chr b a =
     (case a of
        Found c \<Rightarrow> b\<lparr>k_write_handle := gc_handle c, k_write_with_rsp := gc_write c\<rparr>
      | Edone \<Rightarrow> out DiscNotifyChr b
      | Status e \<Rightarrow> b)"

definition on_disc_notify_chr :: "'pt ble \<Rightarrow> gatt_chr gatt \<Rightarrow> 'pt ble" where
  "on_disc_notify_chr b a =
     (case a of
        Found c \<Rightarrow> b\<lparr>k_notify_handle := gc_handle c, k_notify_cccd := gc_handle c + 1\<rparr>
      | Edone \<Rightarrow> if k_notify_cccd b = 0 \<or> k_write_handle b = 0 then out GapTerminate b
                 else out (Subscribe (k_notify_cccd b)) b
      | Status e \<Rightarrow> b)"

section \<open>Probe\<close>

text \<open>Debugging mode enumerates everything and subscribes to whatever notifies. A descriptor comes
  with its 16-bit identifier.\<close>

definition on_probe_svc :: "'pt ble \<Rightarrow> (u16 \<times> u16) gatt \<Rightarrow> 'pt ble" where
  "on_probe_svc b a = (case a of Found (first, final) \<Rightarrow> out (ProbeChrs first final) b | _ \<Rightarrow> b)"

definition on_probe_chr :: "'pt ble \<Rightarrow> gatt_chr gatt \<Rightarrow> 'pt ble" where
  "on_probe_chr b a =
     (case a of
        Found c \<Rightarrow>
          if gc_notify c then
            (let b = (if length (k_notify_handles b) < PROBE_MAX
                      then b\<lparr>k_notify_handles := k_notify_handles b @ [gc_handle c]\<rparr> else b)
             in out (ProbeDscs (gc_handle c) (gc_handle c + 2)) b)
          else b
      | _ \<Rightarrow> b)"

definition on_probe_dsc :: "'pt ble \<Rightarrow> (u16 \<times> u16) gatt \<Rightarrow> 'pt ble" where
  "on_probe_dsc b a =
     (case a of Found (uuid, handle) \<Rightarrow> if uuid = 0x2902 then out (ProbeSubscribe handle) b else b | _ \<Rightarrow> b)"

section \<open>Public interface\<close>

text \<open>The stack lost or regained its controller; \<open>addr_ok\<close> is whether it could set up an address.\<close>

definition on_reset :: "'pt ble \<Rightarrow> 'pt ble" where
  "on_reset b = b\<lparr>k_synced := False\<rparr>"

definition on_sync :: "'pt ble \<Rightarrow> bool \<Rightarrow> 'pt ble" where
  "on_sync b addr_ok =
     (if \<not> addr_ok then b
      else
        let b = b\<lparr>k_synced := True\<rparr>
        in if k_mode b = MODE_CONNECT then start_connect_scan b
           else if k_mode b = MODE_SCAN then start_disc True b else b)"

text \<open>Bringing up the host, once: \<open>inited\<close> is the function's static flag, and the outcomes of the
  allocations and of the wait for the stack are arguments.\<close>

definition bluetti_ble_host_init :: "bool \<Rightarrow> bool \<Rightarrow> bool \<Rightarrow> bool \<Rightarrow> 'pt ble \<Rightarrow> int \<times> bool \<times> 'pt ble" where
  "bluetti_ble_host_init inited have_sems have_session synced_in_time b =
     (if inited then (if k_synced b then 0 else - 1, True, b)
      else if \<not> have_sems then (- 1, False, b)
      else
        let b = b\<lparr>k_conn_handle := 0xFFFF, k_mode := MODE_IDLE\<rparr>
        in if \<not> have_session then (- 1, False, b)
           else (if synced_in_time then 0 else - 1, True, out HostInit (b\<lparr>k_session := bt_session_new True True\<rparr>)))"

definition bluetti_ble_scan :: "'pt ble \<Rightarrow> nat \<Rightarrow> bool \<Rightarrow> 'pt ble" where
  "bluetti_ble_scan b duration_ms has_cb =
     (let b = b\<lparr>k_has_scan_cb := has_cb, k_seen := [], k_resume_connect := (k_mode b = MODE_CONNECT), k_mode := MODE_SCAN\<rparr>;
          b = out (ScanTimerStart (duration_ms * 1000)) (out ScanTimerStop b)
      in if k_connected b then out GapTerminate b
         else if k_synced b then start_disc True (out GapDiscCancel b) else b)"

definition bluetti_ble_scan_stop :: "'pt ble \<Rightarrow> 'pt ble" where
  "bluetti_ble_scan_stop b =
     (let b = out GapDiscCancel (out ScanTimerStop b)
      in if k_mode b \<noteq> MODE_SCAN then b
         else if k_resume_connect b then start_connect_scan (b\<lparr>k_resume_connect := False, k_mode := MODE_CONNECT\<rparr>)
         else b\<lparr>k_mode := MODE_IDLE\<rparr>)"

definition scan_timer_cb :: "'pt ble \<Rightarrow> 'pt ble" where
  "scan_timer_cb b = bluetti_ble_scan_stop b"

definition bluetti_ble_scanning :: "'pt ble \<Rightarrow> bool" where
  "bluetti_ble_scanning b \<longleftrightarrow> k_mode b = MODE_SCAN"

definition bluetti_ble_get_state :: "'pt ble \<Rightarrow> bool \<times> bluetti_state" where
  "bluetti_ble_get_state b = (b_valid (k_state b), k_state b)"

definition bluetti_ble_connected :: "'pt ble \<Rightarrow> bool" where
  "bluetti_ble_connected b \<longleftrightarrow> k_connected b"

definition bluetti_ble_set_controls :: "'pt ble \<Rightarrow> bool \<Rightarrow> 'pt ble" where
  "bluetti_ble_set_controls b on =
     (let b = b\<lparr>k_cfg := (k_cfg b)\<lparr>bc_controls := on\<rparr>\<rparr>;
          b = (if \<not> on then b\<lparr>k_write_queue := []\<rparr> else b)
      in case k_device b of
           None \<Rightarrow> b
         | Some d \<Rightarrow> b\<lparr>k_plan := bt_regs_plan (Some d) on BT_REG_PLAN_MAX, k_plan_i := 0, k_sweep_reads := 0\<rparr>)"

text \<open>The queue of writes: a register already queued gets its value replaced in place.\<close>

definition queue_write :: "(u16 \<times> u16) list \<Rightarrow> u16 \<Rightarrow> u16 \<Rightarrow> (u16 \<times> u16) list option" where
  "queue_write q r v =
     (if \<exists>e \<in> set q. fst e = r then Some (update_first (\<lambda>e. fst e = r) (\<lambda>e. (r, v)) q)
      else if length q \<ge> WRITE_QUEUE_MAX then None
      else Some (q @ [(r, v)]))"

definition bluetti_ble_write_control :: "'pt ble \<Rightarrow> string option \<Rightarrow> int \<Rightarrow> int \<times> 'pt ble" where
  "bluetti_ble_write_control b field value =
     (case bt_control_lookup field of
        None \<Rightarrow> (- 1, b)
      | Some c \<Rightarrow>
          if bt_control_valid (Some c) value \<noteq> Some True then (- 1, b)
          else if \<not> bc_controls (k_cfg b) then (- 1, b)
          else case k_device b of
                 None \<Rightarrow> (- 1, b)
               | Some d \<Rightarrow>
                   if \<not> k_connected b \<or> \<not> bt_session_ready (k_session b) then (- 1, b)
                   else if \<not> has_bit (d_controls d) (ct_bit c) then (- 1, b)
                   else if bt_control_current c (k_state b) < 0 then (- 1, b)
                   else case queue_write (k_write_queue b) (ct_reg c) (of_int value) of
                          None \<Rightarrow> (- 1, b)
                        | Some q \<Rightarrow> (0, b\<lparr>k_write_queue := q\<rparr>))"

definition json_bool :: "bool \<Rightarrow> string" where
  "json_bool x = (if x then ''true'' else ''false'')"

definition kind_name :: "bt_ctrl_kind \<Rightarrow> string" where
  "kind_name k = (case k of BT_KIND_BOOL \<Rightarrow> ''bool'' | BT_KIND_ENUM \<Rightarrow> ''enum'' | BT_KIND_RANGE \<Rightarrow> ''range'')"

definition control_item :: "bluetti_state \<Rightarrow> bool \<Rightarrow> bt_control \<Rightarrow> string" where
  "control_item st first c =
     (if first then [] else '','') @ ''{\"field\":\"'' @ ct_field c @ ''\",\"kind\":\"'' @ kind_name (ct_kind c) @
     ''\",\"allowed\":\"'' @ ct_allowed c @ ''\",\"value\":'' @ show_int (bt_control_current c st) @ ''}''"

text \<open>\<^verbatim>\<open>n\<close> counts what the formatting would have produced; \<open>- 1\<close> is returned when that does not fit
  the buffer, and the text is complete otherwise.\<close>

definition bluetti_ble_controls_json :: "'pt ble \<Rightarrow> nat \<Rightarrow> string option" where
  "bluetti_ble_controls_json b len =
     (let m = (case k_device b of None \<Rightarrow> 0 | Some d \<Rightarrow> d_controls d);
          avail = (k_connected b \<and> m \<noteq> 0 \<and> bt_session_ready (k_session b));
          st = k_state b;
          items = filter (\<lambda>c. has_bit m (ct_bit c)) BT_CONTROLS;
          txt = ''{\"available\":'' @ json_bool avail @ '',\"enabled\":'' @ json_bool (bc_controls (k_cfg b)) @
                '',\"model\":\"'' @ (case k_device b of None \<Rightarrow> [] | Some d \<Rightarrow> d_name d) @ ''\",\"on_battery\":'' @
                json_bool (b_valid st \<and> b_sweep_done st \<and> \<not> b_ac_input_present st) @ '',\"items\":['' @
                concat (map (\<lambda>(i, c). control_item st (i = 0) c) (zip [0..<length items] items)) @ '']}''
      in if length txt < len then Some txt else None)"

definition bluetti_ble_start :: "'pt ble \<Rightarrow> ble_config \<Rightarrow> bool \<Rightarrow> bool \<Rightarrow> int \<times> 'pt ble" where
  "bluetti_ble_start b cfg host_ok has_cb =
     (if \<not> host_ok then (- 1, b)
      else
        let b = bluetti_ble_scan_stop b;
            b = b\<lparr>k_cfg := cfg, k_has_state_cb := has_cb,
                  k_state := state_reset ((k_state b)\<lparr>b_soc_low_pct := bc_low_battery_pct cfg\<rparr>),
                  k_device := None, k_plan := [], k_plan_i := 0, k_sweep_reads := 0\<rparr>
        in case (if bc_address cfg = Some [] then None else parse_addr (bc_address cfg)) of
             None \<Rightarrow> (- 1, b\<lparr>k_have_target_addr := False\<rparr>)
           | Some a \<Rightarrow> (0, start_connect_scan (b\<lparr>k_have_target_addr := True, k_target_addr := a, k_mode := MODE_CONNECT\<rparr>)))"

section \<open>Reachable links\<close>

definition ble_init :: "bluetti_state \<Rightarrow> ble_config \<Rightarrow> 'pt ble" where
  "ble_init st cfg =
     \<lparr>k_cfg = cfg, k_has_state_cb = False, k_has_scan_cb = False, k_seen = [], k_target_addr = replicate 6 0,
      k_have_target_addr = False, k_device = None, k_mode = MODE_IDLE, k_resume_connect = False, k_synced = False,
      k_conn_handle = 0xFFFF, k_connected = False, k_notify_handles = [], k_write_handle = 0, k_write_with_rsp = False, k_notify_handle = 0,
      k_notify_cccd = 0, k_session = bt_session_new True True, k_plan = [], k_plan_i = 0, k_sweep_reads = 0,
      k_req_in_flight = False, k_req_sent_us = 0, k_poll_fails = 0, k_write_queue = [], k_state = st, k_out = []\<rparr>"

inductive ble_reachable :: "'pt mbedtls \<Rightarrow> 'pt ble \<Rightarrow> bool" for M where
  init: "ble_reachable M (ble_init st cfg)"
| reset: "ble_reachable M b \<Longrightarrow> ble_reachable M (on_reset b)"
| sync: "ble_reachable M b \<Longrightarrow> ble_reachable M (on_sync b ok)"
| gap: "ble_reachable M b \<Longrightarrow> gap_event M trace radio rc now ev b = Some b' \<Longrightarrow> ble_reachable M b'"
| host_init: "ble_reachable M b \<Longrightarrow> ble_reachable M (snd (snd (bluetti_ble_host_init inited sems sess wait b)))"
| svc: "ble_reachable M b \<Longrightarrow> ble_reachable M (on_disc_svc b a)"
| probe_svc: "ble_reachable M b \<Longrightarrow> ble_reachable M (on_probe_svc b a)"
| probe_chr: "ble_reachable M b \<Longrightarrow> ble_reachable M (on_probe_chr b c)"
| probe_dsc: "ble_reachable M b \<Longrightarrow> ble_reachable M (on_probe_dsc b a)"
| write_chr: "ble_reachable M b \<Longrightarrow> ble_reachable M (on_disc_write_chr b c)"
| notify_chr: "ble_reachable M b \<Longrightarrow> ble_reachable M (on_disc_notify_chr b c)"
| sub: "ble_reachable M b \<Longrightarrow> ble_reachable M (on_sub b status)"
| poll: "ble_reachable M b \<Longrightarrow> ble_reachable M (poll_timer_cb M trace radio b now)"
| kex: "ble_reachable M b \<Longrightarrow> ble_reachable M (kex_timer_cb b)"
| scan: "ble_reachable M b \<Longrightarrow> ble_reachable M (bluetti_ble_scan b ms cb)"
| scan_stop: "ble_reachable M b \<Longrightarrow> ble_reachable M (bluetti_ble_scan_stop b)"
| set_controls: "ble_reachable M b \<Longrightarrow> ble_reachable M (bluetti_ble_set_controls b on)"
| write_control: "ble_reachable M b \<Longrightarrow> ble_reachable M (snd (bluetti_ble_write_control b field v))"
| start: "ble_reachable M b \<Longrightarrow> ble_reachable M (snd (bluetti_ble_start b cfg ok cb))"

definition write_ok :: "u16 \<times> u16 \<Rightarrow> bool" where
  "write_ok e \<longleftrightarrow> (\<exists>c \<in> set BT_CONTROLS. ct_reg c = fst e \<and> bt_control_valid (Some c) (uint (snd e)) = Some True)"

definition queue_inv :: "(u16 \<times> u16) list \<Rightarrow> bool" where
  "queue_inv q \<longleftrightarrow> distinct (map fst q) \<and> (\<forall>e \<in> set q. write_ok e)"

text \<open>The steps that do not touch the queue.\<close>

lemma queue_frame [simp]:
  "k_write_queue (out x b) = k_write_queue b" "k_write_queue (start_disc r b) = k_write_queue b"
  "k_write_queue (start_connect_scan b) = k_write_queue b" "k_write_queue (try_connect rc b a) = k_write_queue b"
  "k_write_queue (handle_scan_disc b a nm rssi) = k_write_queue b" "k_write_queue (session_ack b) = k_write_queue b"
  "k_write_queue (snd (snd (bluetti_ble_host_init i m n t b))) = k_write_queue b"
  "k_write_queue (on_disc_svc b g) = k_write_queue b" "k_write_queue (on_probe_svc b g) = k_write_queue b"
  "k_write_queue (on_probe_chr b c) = k_write_queue b" "k_write_queue (on_probe_dsc b g) = k_write_queue b"
  "k_write_queue (on_disc_write_chr b c) = k_write_queue b" "k_write_queue (on_disc_notify_chr b c) = k_write_queue b"
  "k_write_queue (on_sub b s) = k_write_queue b" "k_write_queue (kex_timer_cb b) = k_write_queue b"
  "k_write_queue (bluetti_ble_scan b ms cb) = k_write_queue b" "k_write_queue (bluetti_ble_scan_stop b) = k_write_queue b"
  "k_write_queue (on_reset b) = k_write_queue b" "k_write_queue (on_sync b ok) = k_write_queue b"
  by (simp_all add: on_reset_def on_sync_def out_def start_disc_def start_connect_scan_def try_connect_def handle_scan_disc_def session_ack_def
      on_disc_write_chr_def on_disc_notify_chr_def on_disc_svc_def on_probe_svc_def on_probe_chr_def on_probe_dsc_def
      bluetti_ble_host_init_def
      on_sub_def kex_timer_cb_def bluetti_ble_scan_def
      bluetti_ble_scan_stop_def Let_def split: option.splits prod.splits gatt.splits)

lemma session_regs_queue [simp]: "k_write_queue (session_regs b a d now) = k_write_queue b"
  by (simp add: session_regs_def Let_def split: prod.splits)

lemma session_callback_queue [simp]: "k_write_queue (session_callback now x b) = k_write_queue b"
  by (cases x) auto

lemma fold_callback_queue [simp]: "k_write_queue (fold (session_callback now) xs b) = k_write_queue b"
  by (induction xs arbitrary: b) auto

lemma gap_event_queue: "gap_event M trace radio rc now ev b = Some b' \<Longrightarrow> k_write_queue b' = k_write_queue b"
  by (cases ev) (auto simp: feed_session_def Let_def split: if_splits option.splits)

lemma poll_queue: "k_write_queue (poll_timer_cb M trace radio b now) = k_write_queue b \<or>
    k_write_queue (poll_timer_cb M trace radio b now) = tl (k_write_queue b)"
  by (auto simp: poll_timer_cb_def poll_outstanding_def poll_write_def poll_read_def out_def Let_def
      split: if_splits list.splits prod.splits)

lemma start_queue: "k_write_queue (snd (bluetti_ble_start b cfg ok cb)) = k_write_queue b"
  by (simp add: bluetti_ble_start_def Let_def split: option.splits)

lemma control_values_small:
  assumes "c \<in> set BT_CONTROLS" and "bt_control_valid (Some c) v = Some True"
  shows "0 \<le> v \<and> v \<le> 100"
  using assms unfolding BT_CONTROLS_def list.set insert_iff empty_iff
  by (elim disjE) (auto simp: bt_control_valid_def parse_ints_tables)

lemma queue_inv_length:
  assumes "queue_inv q"
  shows "length q \<le> 11"
proof -
  have sub: "set (map fst q) \<subseteq> set (map ct_reg BT_CONTROLS)"
    using assms by (force simp: queue_inv_def write_ok_def)
  have "length q = card (set (map fst q))"
    using assms by (simp only: queue_inv_def distinct_card length_map)
  also have "\<dots> \<le> card (set (map ct_reg BT_CONTROLS))" using sub by (rule card_mono [rotated]) simp
  also have "\<dots> \<le> length (map ct_reg BT_CONTROLS)" by (rule card_length)
  finally show ?thesis by (simp add: BT_CONTROLS_def)
qed

lemma queue_write_inv:
  assumes "queue_inv q" and "c \<in> set BT_CONTROLS" and "bt_control_valid (Some c) v = Some True"
    and "queue_write q (ct_reg c) (of_int v) = Some q'"
  shows "queue_inv q'"
proof -
  have "uint (of_int v :: u16) = v"
    using control_values_small [OF assms(2,3)] by (simp add: uint_word_of_int_eq take_bit_int_eq_self)
  then have new: "write_ok (ct_reg c, of_int v)" using assms(2,3) by (auto simp: write_ok_def)
  show ?thesis
  proof (cases "\<exists>e \<in> set q. fst e = ct_reg c")
    case True
    have keys: "map fst (update_first (\<lambda>e. fst e = ct_reg c) (\<lambda>e. (ct_reg c, of_int v)) q) = map fst q"
      by (rule map_update_first) auto
    have "e \<in> set q \<or> e = (ct_reg c, of_int v)"
      if "e \<in> set (update_first (\<lambda>e. fst e = ct_reg c) (\<lambda>e. (ct_reg c, of_int v :: u16)) q)" for e
      using that by (induction q) (auto split: if_splits)
    then have "\<forall>e \<in> set q'. write_ok e"
      using True assms(1,4) new by (auto simp: queue_write_def queue_inv_def)
    then show ?thesis
      using True assms(1,4) keys by (auto simp: queue_write_def queue_inv_def)
  next
    case False
    then have "q' = q @ [(ct_reg c, of_int v)]" "ct_reg c \<notin> set (map fst q)"
      using assms(4) by (auto simp: queue_write_def split: if_splits)
    then show ?thesis using assms(1) new by (auto simp: queue_inv_def)
  qed
qed

lemma control_lookup_mem: "bt_control_lookup field = Some c \<Longrightarrow> c \<in> set BT_CONTROLS"
  unfolding bt_control_lookup_def by (cases field) (auto dest: find_Some_mem)

text \<open>Everything the caller of a control has to satisfy, apart from room in the queue.\<close>

definition control_allowed :: "'pt ble \<Rightarrow> string option \<Rightarrow> int \<Rightarrow> bt_control \<Rightarrow> bool" where
  "control_allowed b field v c \<longleftrightarrow>
     bt_control_lookup field = Some c \<and> bt_control_valid (Some c) v = Some True \<and> bc_controls (k_cfg b) \<and>
     (\<exists>d. k_device b = Some d \<and> has_bit (d_controls d) (ct_bit c)) \<and>
     k_connected b \<and> bt_session_ready (k_session b) \<and> 0 \<le> bt_control_current c (k_state b)"

lemma write_control_allowed:
  assumes "control_allowed b field v c"
  shows "bluetti_ble_write_control b field v =
    (case queue_write (k_write_queue b) (ct_reg c) (of_int v) of
       None \<Rightarrow> (- 1, b) | Some q \<Rightarrow> (0, b\<lparr>k_write_queue := q\<rparr>))"
  using assms by (auto simp: control_allowed_def bluetti_ble_write_control_def)

lemma write_control_refused:
  assumes "\<not> (\<exists>c. control_allowed b field v c)"
  shows "bluetti_ble_write_control b field v = (- 1, b)"
proof (cases "bt_control_lookup field")
  case (Some c)
  then have "\<not> control_allowed b field v c" using assms by blast
  then show ?thesis using Some
    by (cases "k_device b") (auto simp: control_allowed_def bluetti_ble_write_control_def)
qed (simp add: bluetti_ble_write_control_def)

lemma reachable_queue: "ble_reachable M b \<Longrightarrow> queue_inv (k_write_queue b)"
proof (induction rule: ble_reachable.induct)
  case (gap b trace radio rc now ev b')
  then show ?case by (simp add: gap_event_queue)
next
  case (poll b trace radio now)
  then have "queue_inv (tl (k_write_queue b))"
    by (cases "k_write_queue b") (auto simp: queue_inv_def)
  then show ?case using poll poll_queue [of M trace radio b now] by auto
next
  case (set_controls b on)
  then show ?case by (auto simp: bluetti_ble_set_controls_def queue_inv_def Let_def split: option.splits)
next
  case (write_control b field v)
  show ?case
  proof (cases "\<exists>c. control_allowed b field v c")
    case True
    then obtain c where c: "control_allowed b field v c" ..
    then have "bt_control_lookup field = Some c" "bt_control_valid (Some c) v = Some True"
      by (auto simp: control_allowed_def)
    then show ?thesis
      using write_control.IH queue_write_inv [OF write_control.IH control_lookup_mem]
      by (auto simp: write_control_allowed [OF c] split: option.split)
  qed (use write_control in \<open>simp add: write_control_refused\<close>)
qed (auto simp: ble_init_def queue_inv_def start_queue)

section \<open>The link invariant\<close>

text \<open>What the fixed arrays and counters of the link need: the plan fits its array, the index is one
  of its entries, the timeout counter stays under its limit, the scan list fits.\<close>

definition link_inv :: "'pt ble \<Rightarrow> bool" where
  "link_inv b \<longleftrightarrow>
     length (k_plan b) \<le> BT_REG_PLAN_MAX \<and> (k_plan b \<noteq> [] \<longrightarrow> k_plan_i b < length (k_plan b)) \<and>
     k_sweep_reads b \<le> length (k_plan b) \<and> k_poll_fails b < POLL_FAIL_LIMIT \<and> length (k_seen b) \<le> SEEN_MAX \<and>
     length (k_notify_handles b) \<le> PROBE_MAX"

lemma plan_length: "length (bt_regs_plan dev wc mx) \<le> mx"
  by (simp add: bt_regs_plan_def)

lemma plan_nonempty: "bt_regs_plan dev wc BT_REG_PLAN_MAX \<noteq> []"
  by (simp add: bt_regs_plan_def PLAN_COMMON_def)

lemma link_inv_plan [simp]:
  "link_inv b \<Longrightarrow> link_inv (b\<lparr>k_plan := bt_regs_plan dev wc BT_REG_PLAN_MAX, k_plan_i := 0, k_sweep_reads := 0\<rparr>)"
  using plan_length [of dev wc BT_REG_PLAN_MAX] plan_nonempty [of dev wc] by (simp add: link_inv_def)

lemma link_inv_upd [simp]:
  "link_inv (b\<lparr>k_state := st\<rparr>) = link_inv b" "link_inv (b\<lparr>k_session := s\<rparr>) = link_inv b"
  "link_inv (b\<lparr>k_device := dv\<rparr>) = link_inv b" "link_inv (b\<lparr>k_write_queue := q\<rparr>) = link_inv b"
  "link_inv (b\<lparr>k_connected := cn\<rparr>) = link_inv b" "link_inv (b\<lparr>k_mode := m\<rparr>) = link_inv b"
  "link_inv (b\<lparr>k_req_in_flight := rif\<rparr>) = link_inv b" "link_inv (b\<lparr>k_req_sent_us := t\<rparr>) = link_inv b"
  "link_inv (b\<lparr>k_cfg := c\<rparr>) = link_inv b" "link_inv (b\<lparr>k_resume_connect := rs\<rparr>) = link_inv b"
  "link_inv (b\<lparr>k_has_state_cb := hs\<rparr>) = link_inv b" "link_inv (b\<lparr>k_synced := sy\<rparr>) = link_inv b"
  "link_inv (b\<lparr>k_have_target_addr := ha\<rparr>) = link_inv b" "link_inv (b\<lparr>k_target_addr := ta\<rparr>) = link_inv b"
  "link_inv (out x b) = link_inv b" "link_inv (start_disc r b) = link_inv b"
  "link_inv (start_connect_scan b) = link_inv b" "link_inv (try_connect rc b a) = link_inv b"
  by (simp_all add: link_inv_def out_def start_disc_def start_connect_scan_def try_connect_def Let_def)

lemma link_inv_scan_disc: "link_inv b \<Longrightarrow> link_inv (handle_scan_disc b a nm rssi)"
  by (auto simp: handle_scan_disc_def Let_def seen_add_def link_inv_def out_def split: option.splits if_splits)

lemma link_inv_fails: "link_inv b \<Longrightarrow> link_inv (b\<lparr>k_poll_fails := 0\<rparr>)"
  by (simp add: link_inv_def)

lemma link_inv_regs: "link_inv b \<Longrightarrow> link_inv (session_regs b a d now)"
  using plan_length [of _ _ BT_REG_PLAN_MAX] plan_nonempty
  by (auto simp: session_regs_def Let_def link_inv_def out_def split: prod.splits)

lemma link_inv_callback: "link_inv b \<Longrightarrow> link_inv (session_callback now x b)"
  by (cases x) (simp_all add: link_inv_regs session_ack_def link_inv_fails)

lemma link_inv_callbacks: "link_inv b \<Longrightarrow> link_inv (fold (session_callback now) xs b)"
  by (induction xs arbitrary: b) (auto simp: link_inv_callback)

lemma link_inv_gap: "link_inv b \<Longrightarrow> gap_event M trace radio rc now ev b = Some b' \<Longrightarrow> link_inv b'"
proof (cases ev)
  case (GapDiscEv a nm r)
  assume "link_inv b" "gap_event M trace radio rc now ev b = Some b'"
  then show ?thesis using GapDiscEv by (auto simp: link_inv_scan_disc split: if_splits option.splits)
next
  case (GapConnectEv st h)
  assume "link_inv b" "gap_event M trace radio rc now ev b = Some b'"
  then show ?thesis using GapConnectEv
    by (auto simp: Let_def link_inv_def start_connect_scan_def start_disc_def out_def split: if_splits)
next
  case (GapNotifyRx cn at d)
  assume "link_inv b" "gap_event M trace radio rc now ev b = Some b'"
  then show ?thesis using GapNotifyRx
    by (auto simp: feed_session_def Let_def link_inv_callbacks split: if_splits option.splits)
qed (auto simp: Let_def split: if_splits)

lemma link_inv_poll: "link_inv b \<Longrightarrow> link_inv (poll_timer_cb M trace radio b now)"
proof -
  assume inv: "link_inv b"
  obtain b1 go where p: "poll_outstanding b now = (b1, go)" by fastforce
  have 1: "link_inv b1" using inv p
    by (auto simp: poll_outstanding_def Let_def link_inv_def out_def split: if_splits)
  have w: "link_inv (poll_write M E b2 now rv)" if "link_inv b2" for E b2 rv
    using that by (auto simp: poll_write_def Let_def split: prod.splits)
  have r: "link_inv (poll_read M E b2 now)" if "link_inv b2" for E b2
  proof -
    have "link_inv (b2\<lparr>k_plan_i := (k_plan_i b2 + 1) mod length (k_plan b2),
        k_sweep_reads := (if k_sweep_reads b2 < length (k_plan b2) then Suc (k_sweep_reads b2) else k_sweep_reads b2)\<rparr>)"
      using that by (simp add: link_inv_def)
    then show ?thesis using that by (auto simp: poll_read_def Let_def simp del: if_split_asm split: prod.splits)
  qed
  show ?thesis using inv 1 by (auto simp: poll_timer_cb_def p w r split: list.splits)
qed

lemma link_inv_scan_stop: "link_inv (bluetti_ble_scan_stop b) = link_inv b"
  by (simp add: bluetti_ble_scan_stop_def Let_def)

lemma link_inv_no_plan: "link_inv b \<Longrightarrow> link_inv (b\<lparr>k_plan := [], k_plan_i := 0, k_sweep_reads := 0\<rparr>)"
  by (simp add: link_inv_def)

lemma reachable_link: "ble_reachable M b \<Longrightarrow> link_inv b"
proof (induction rule: ble_reachable.induct)
  case (init st cfg)
  then show ?case by (simp add: ble_init_def link_inv_def)
next
  case (gap b trace radio rc now ev b')
  then show ?case by (blast intro: link_inv_gap)
next
  case (notify_chr b c)
  then show ?case by (auto simp: on_disc_notify_chr_def link_inv_def out_def split: gatt.splits)
next
  case (write_chr b c)
  then show ?case by (auto simp: on_disc_write_chr_def link_inv_def out_def split: gatt.splits)
next
  case (host_init b inited sems sess wait)
  then show ?case by (simp add: bluetti_ble_host_init_def link_inv_def out_def Let_def)
next
  case (svc b a)
  then show ?case by (auto simp: on_disc_svc_def link_inv_def out_def split: gatt.splits)
next
  case (probe_svc b a)
  then show ?case by (auto simp: on_probe_svc_def link_inv_def out_def split: gatt.splits)
next
  case (probe_chr b c)
  then show ?case by (cases c) (auto simp: on_probe_chr_def link_inv_def out_def Let_def)
next
  case (probe_dsc b a)
  then show ?case by (auto simp: on_probe_dsc_def link_inv_def out_def split: gatt.splits)
next
  case (sub b status)
  then show ?case using plan_length [of _ _ BT_REG_PLAN_MAX] plan_nonempty
    by (auto simp: on_sub_def Let_def link_inv_def out_def)
next
  case (scan b ms cb)
  then show ?case by (auto simp: bluetti_ble_scan_def Let_def start_disc_def out_def link_inv_def)
next
  case (set_controls b on)
  then show ?case by (auto simp: bluetti_ble_set_controls_def Let_def split: option.splits)
next
  case (write_control b field v)
  then show ?case
    by (cases "\<exists>c. control_allowed b field v c")
      (auto simp: write_control_allowed write_control_refused split: option.split)
next
  case (start b cfg ok cb)
  then show ?case
    by (auto simp: bluetti_ble_start_def Let_def link_inv_no_plan link_inv_scan_stop split: option.splits)
qed (auto simp: link_inv_poll kex_timer_cb_def link_inv_scan_stop on_reset_def on_sync_def Let_def)

section \<open>Properties\<close>

text \<open>A link with controls switched on, for the witnesses.\<close>

definition ex_link_cfg :: ble_config where
  "ex_link_cfg = \<lparr>bc_address = None, bc_poll_interval_ms = 5000, bc_low_battery_pct = 20, bc_probe = False, bc_controls = True\<rparr>"

lemma map_of_update_first:
  "distinct (map fst q) \<Longrightarrow> (\<exists>e \<in> set q. fst e = r) \<Longrightarrow>
    map_of (update_first (\<lambda>e. fst e = r) (\<lambda>e. (r, v)) q) = (map_of q)(r \<mapsto> v)"
proof (induction q)
  case (Cons e q)
  then show ?case
    by (cases "fst e = r") (auto simp: fun_upd_twist dest: bspec)
qed simp

lemma queue_write_some:
  assumes "queue_inv q"
  obtains q' where "queue_write q r v = Some q'" and "map_of q' = (map_of q)(r \<mapsto> v)"
proof (cases "\<exists>e \<in> set q. fst e = r")
  case True
  moreover have "map_of (update_first (\<lambda>e. fst e = r) (\<lambda>e. (r, v)) q) = (map_of q)(r \<mapsto> v)"
    using assms True by (intro map_of_update_first) (simp_all add: queue_inv_def)
  ultimately show ?thesis using that by (simp add: queue_write_def)
next
  case False
  then have "map_of q r = None" by (auto simp: map_of_eq_None_iff)
  then have "map_of (q @ [(r, v)]) = (map_of q)(r \<mapsto> v)"
    by (auto simp: fun_eq_iff map_add_def split: option.splits)
  then show ?thesis
    using that False queue_inv_length [OF assms] by (auto simp: queue_write_def)
qed



lemma poll_write_out:
  "\<exists>fs. s_out (k_session (poll_write M E b now rv)) = s_out (k_session b) @ fs \<and> length fs \<le> 1"
  "k_plan_i (poll_write M E b now rv) = k_plan_i b" "k_write_queue (poll_write M E b now rv) = k_write_queue b"
  by (auto simp: poll_write_def bt_session_write_reg_def send_def Let_def split: prod.splits option.splits)

lemma poll_read_out:
  "\<exists>fs. s_out (k_session (poll_read M E b now)) = s_out (k_session b) @ fs \<and> length fs \<le> 1"
  "k_write_queue (poll_read M E b now) = k_write_queue b"
  by (auto simp: poll_read_def bt_session_read_regs_def send_def Let_def split: prod.splits option.splits)

lemma poll_outstanding_frame:
  assumes "poll_outstanding b now = (b1, go)"
  shows "k_session b1 = k_session b" "k_plan_i b1 = k_plan_i b" "k_write_queue b1 = k_write_queue b"
  using assms by (auto simp: poll_outstanding_def Let_def out_def split: if_splits)



text \<open>On every reachable link the poll plan fits its array and the next field is an entry of it,
  the scan list holds at most 24 addresses, fewer than five timeouts are counted, and the write queue
  holds at most eleven entries (of sixteen), no register twice, each a known control's register with a
  value that control accepts.\<close>

theorem link_arrays_in_bounds:
  assumes "ble_reachable M b"
  shows "link_inv b \<and> length (k_write_queue b) \<le> 11 \<and> queue_inv (k_write_queue b)"
  using reachable_link [OF assms] reachable_queue [OF assms] queue_inv_length by blast

theorem link_arrays_in_bounds_witness:
  "link_inv (on_sub (ble_init ex_state ex_link_cfg :: byte list ble) 0)"
  using link_arrays_in_bounds [OF ble_reachable.sub [OF ble_reachable.init [of ex_mbedtls ex_state ex_link_cfg]], of 0]
  by simp

text \<open>A full sweep is announced by counting requests, not answers: after a sweep in which every
  request failed to be sent, the next response of any field marks the state as swept although no
  other field was read.\<close>

theorem sweep_counts_requests:
  assumes "k_plan b \<noteq> []" and "k_device b \<noteq> None" and "k_sweep_reads b = length (k_plan b)"
  shows "b_sweep_done (k_state (session_regs b addr data now))"
  using assms by (auto simp: session_regs_def Let_def out_def split: prod.splits)

theorem sweep_counts_requests_witness:
  "b_sweep_done (k_state (session_regs ((ble_init ex_state ex_link_cfg :: byte list ble)
     \<lparr>k_plan := [single REG_CTRL_SOC_MIN], k_sweep_reads := 1, k_device := Some BT_DEVICE_GENERIC\<rparr>) 0 [] 5))"
  by (rule sweep_counts_requests) simp_all

section \<open>The outcome of a discovery\<close>

text \<open>The answers of the stack to a search that goes through: the characteristics found, then its end.\<close>

definition discover :: "gatt_chr list \<Rightarrow> gatt_chr list \<Rightarrow> 'pt ble \<Rightarrow> 'pt ble" where
  "discover writes notifies b =
     (let b = on_disc_svc b Edone;
          b = on_disc_write_chr (fold (\<lambda>c b. on_disc_write_chr b (Found c)) writes b) Edone
      in on_disc_notify_chr (fold (\<lambda>c b. on_disc_notify_chr b (Found c)) notifies b) Edone)"

lemma writes_found:
  "fold (\<lambda>c b. on_disc_write_chr b (Found c)) cs b =
     (if cs = [] then b else b\<lparr>k_write_handle := gc_handle (last cs), k_write_with_rsp := gc_write (last cs)\<rparr>)"
  by (induction cs arbitrary: b) (simp_all add: on_disc_write_chr_def)

lemma notifies_found:
  "fold (\<lambda>c b. on_disc_notify_chr b (Found c)) cs b =
     (if cs = [] then b else b\<lparr>k_notify_handle := gc_handle (last cs), k_notify_cccd := gc_handle (last cs) + 1\<rparr>)"
  by (induction cs arbitrary: b) (simp_all add: on_disc_notify_chr_def)

lemma fresh_connection:
  assumes "gap_event M trace radio rc now (GapConnectEv 0 handle) b = Some b'" "\<not> bc_probe (k_cfg b)"
  shows "k_connected b'" "k_plan b' = []" "k_write_handle b' = 0" "k_notify_cccd b' = 0"
    "k_out b' = k_out b @ [ExchangeMtu, DiscService]"
  using assms by (auto simp: out_def Let_def)



section \<open>Addresses\<close>

lemma hex_digit_facts:
  assumes "n < 16"
  shows "hex_val (hex_digit n) = Some n" "\<not> is_space (hex_digit n)" "hex_digit n \<noteq> CHR ''-''"
    "hex_digit n \<noteq> CHR ''+''" "hex_digit n \<noteq> CHR ''x''" "hex_digit n \<noteq> CHR ''X''"
proof -
  have code: "ord (hex_digit n) = (if n < 10 then 48 + n else 55 + n)"
    using assms by (simp add: hex_digit_def)
  then have ne: "ord (hex_digit n) \<noteq> k" if "k < 48 \<or> 70 < k" for k using assms that by auto
  show "hex_val (hex_digit n) = Some n" using assms by (auto simp: hex_val_def code)
  show "\<not> is_space (hex_digit n)" using assms by (simp add: is_space_def code)
  show "hex_digit n \<noteq> CHR ''-''" "hex_digit n \<noteq> CHR ''+''" "hex_digit n \<noteq> CHR ''x''" "hex_digit n \<noteq> CHR ''X''"
    using ne [of 45] ne [of 43] ne [of 120] ne [of 88] by auto
qed

lemma byte_bound: "unat (v :: byte) < 256"
  using unsigned_less [of v] by simp

lemma byte_through_u32 [simp]: "ucast (ucast (v :: byte) :: u32) = v"
  by transfer simp

lemma scan_x_hex2:
  assumes "r = [] \<or> hd r = CHR '':''"
  shows "scan_x (hex2 v @ r) = Some (ucast v, r)"
proof -
  have d: "unat v div 16 < 16" "unat v mod 16 < 16" using byte_bound [of v] by auto
  note [simp] = hex_digit_facts [OF d(1)] hex_digit_facts [OF d(2)]
  have stop: "read_hex n r = (n, r)" for n
    using assms by (cases r) (auto simp: hex_val_def)
  have "take 2 (hex2 v @ r) \<noteq> ''0x''" "take 2 (hex2 v @ r) \<noteq> ''0X''"
    by (auto simp: hex2_def)
  moreover have "starts_hex (hex2 v @ r)" by (simp add: hex2_def starts_hex_def)
  moreover have "read_hex 0 (hex2 v @ r) = (unat v, r)"
    by (simp add: hex2_def stop)
  moreover have "dropWhile is_space (hex2 v @ r) = hex2 v @ r" "hd (hex2 v @ r) \<noteq> CHR ''-''"
    "hd (hex2 v @ r) \<noteq> CHR ''+''" by (simp_all add: hex2_def)
  moreover have "unat v < 2 ^ 32" using byte_bound [of v] by simp
  ultimately show ?thesis by (simp add: scan_x_def Let_def)
qed

text \<open>Reading back the printed form of a device address gives the six bytes it was printed from,
  so an address picked from the scan list names the same unit when it is saved and used to connect.\<close>

theorem address_round_trip:
  assumes "length v = 6"
  shows "parse_addr (Some (addr_to_str v)) = Some v"
proof -
  obtain a0 a1 a2 a3 a4 a5 where v: "v = [a0, a1, a2, a3, a4, a5]"
    using assms by (auto simp: numeral_eq_Suc length_Suc_conv)
  have "addr_to_str v = hex2 a5 @ '':'' @ hex2 a4 @ '':'' @ hex2 a3 @ '':'' @ hex2 a2 @ '':'' @ hex2 a1 @ '':'' @ hex2 a0"
    by (simp add: addr_to_str_def v snprintf_buf_def hex2_def)
  then show ?thesis
    using scan_x_hex2 [of "[]"]
    by (simp add: parse_addr_def numeral_eq_Suc scan_x_hex2 scan_sep_def v)
qed

theorem address_round_trip_witness:
  "parse_addr (Some (addr_to_str [1, 2, 3, 0xAB, 0xCD, 0xEF])) = Some [1, 2, 3, 0xAB, 0xCD, 0xEF]"
  by (rule address_round_trip) simp

end
