(* ===== verification/Var_Store.thy ===== *)
theory Var_Store
  imports Main
begin

text \<open>
  The contract between the NUT variable table and the code that publishes readings into it: a store of
  bounded capacity whose lookup behaves like a finite map under setting and clearing, for names that
  fit and while the names in use do not exceed the capacity. The client's lemma is about a whole
  sequence of calls, which is what one publication of a reading is.
\<close>

datatype var_op = SetVar string string | ClearVar string

fun op_name :: "var_op \<Rightarrow> string" where
  "op_name (SetVar n v) = n"
| "op_name (ClearVar n) = n"

fun apply_op :: "(string \<Rightarrow> string \<Rightarrow> 's \<Rightarrow> 's) \<Rightarrow> (string \<Rightarrow> 's \<Rightarrow> 's) \<Rightarrow> var_op \<Rightarrow> 's \<Rightarrow> 's" where
  "apply_op put del (SetVar n v) s = put n v s"
| "apply_op put del (ClearVar n) s = del n s"

text \<open>The abstract store: a partial function from names to clipped values.\<close>

fun spec_op :: "(string \<Rightarrow> string) \<Rightarrow> var_op \<Rightarrow> (string \<rightharpoonup> string) \<Rightarrow> (string \<rightharpoonup> string)" where
  "spec_op clip (SetVar n v) m = m(n \<mapsto> clip v)"
| "spec_op clip (ClearVar n) m = m(n := None)"

definition ops_names :: "var_op list \<Rightarrow> string set" where
  "ops_names ops = op_name ` set ops"

lemma ops_names_simps [simp]:
  "ops_names [] = {}" "ops_names (x # ops) = insert (op_name x) (ops_names ops)"
  "ops_names (xs @ ys) = ops_names xs \<union> ops_names ys" "finite (ops_names ops)"
  by (auto simp: ops_names_def)

lemma spec_op_dom: "dom (spec_op clip x m) \<subseteq> insert (op_name x) (dom m)"
  by (cases x) auto

lemma spec_op_other: "op_name x \<noteq> n \<Longrightarrow> spec_op clip x m n = m n"
  by (cases x) auto

lemma spec_ops_other: "n \<notin> ops_names ops \<Longrightarrow> fold (spec_op clip) ops m n = m n"
  by (induction ops arbitrary: m) (auto simp: spec_op_other)

lemma spec_ops_last: "n \<notin> ops_names post \<Longrightarrow> fold (spec_op clip) (pre @ SetVar n v # post) m n = Some (clip v)"
  by (simp add: spec_ops_other)

locale var_store =
  fixes lookup :: "'s \<Rightarrow> string \<Rightarrow> string option"
    and put :: "string \<Rightarrow> string \<Rightarrow> 's \<Rightarrow> 's"
    and del :: "string \<Rightarrow> 's \<Rightarrow> 's"
    and inv :: "'s \<Rightarrow> bool"
    and fits :: "string \<Rightarrow> bool"
    and clip :: "string \<Rightarrow> string"
    and cap :: nat
  assumes put_lookup: "inv s \<Longrightarrow> fits n \<Longrightarrow> card (insert n (dom (lookup s))) \<le> cap \<Longrightarrow> lookup (put n v s) = (lookup s)(n \<mapsto> clip v)"
    and put_inv: "inv s \<Longrightarrow> fits n \<Longrightarrow> inv (put n v s)"
    and del_lookup: "inv s \<Longrightarrow> fits n \<Longrightarrow> lookup (del n s) = (lookup s)(n := None)"
    and del_inv: "inv s \<Longrightarrow> fits n \<Longrightarrow> inv (del n s)"
    and finite_dom: "inv s \<Longrightarrow> finite (dom (lookup s))"
begin

lemma op_refines:
  assumes "inv s" "fits (op_name x)" "card (insert (op_name x) (dom (lookup s))) \<le> cap"
  shows "lookup (apply_op put del x s) = spec_op clip x (lookup s) \<and> inv (apply_op put del x s)"
  using assms by (cases x) (auto simp: put_lookup put_inv del_lookup del_inv)

lemma ops_refine:
  assumes "inv s" "\<forall>n \<in> ops_names ops. fits n" "card (dom (lookup s) \<union> ops_names ops) \<le> cap"
  shows "lookup (fold (apply_op put del) ops s) = fold (spec_op clip) ops (lookup s) \<and> inv (fold (apply_op put del) ops s)"
  using assms
proof (induction ops arbitrary: s)
  case (Cons x ops)
  have fin: "finite (dom (lookup s) \<union> ops_names (x # ops))" using finite_dom [OF Cons.prems(1)] by simp
  have "card (insert (op_name x) (dom (lookup s))) \<le> card (dom (lookup s) \<union> ops_names (x # ops))"
    by (rule card_mono [OF fin]) auto
  then have step: "lookup (apply_op put del x s) = spec_op clip x (lookup s)" "inv (apply_op put del x s)"
    using op_refines [of s x] Cons.prems by auto
  have "dom (spec_op clip x (lookup s)) \<union> ops_names ops \<subseteq> dom (lookup s) \<union> ops_names (x # ops)"
    using spec_op_dom [of clip x "lookup s"] by auto
  from card_mono [OF fin this] have "card (dom (lookup (apply_op put del x s)) \<union> ops_names ops) \<le> cap"
    unfolding step(1) using Cons.prems(3) by linarith
  then show ?case using Cons.IH [OF step(2)] Cons.prems(2) step by simp
qed simp

end

end
