(* ===== verification/Nut_Server.thy ===== *)
theory Nut_Server
  imports Bridge_Prelude C_Float Framing Var_Store
begin

text \<open>
  The NUT protocol server, \<^verbatim>\<open>components/nut_server/nut_server.c\<close>: the table of UPS variables, the
  tokenizer, one definition per command handler, the per-connection receive loop and the admission of
  clients. The record \<open>nut_server\<close> is the file's static state \<^verbatim>\<open>s\<close>, \<open>ns_lock\<close> whether its mutex exists;
  the socket is a \<open>conn\<close>: the answers the stack still gives to \<^verbatim>\<open>send\<close> and the bytes that went out.
  The table satisfies the contract \<open>var_store\<close>, which the publisher of the readings relies on, and the
  receive loop satisfies the reassembly contract of \<^verbatim>\<open>Framing\<close>.
\<close>

section \<open>Data\<close>

abbreviation NUT_MAX_VARS :: nat where "NUT_MAX_VARS \<equiv> 48"
abbreviation NUT_VAR_NAME_LEN :: nat where "NUT_VAR_NAME_LEN \<equiv> 40"
abbreviation NUT_VAR_VALUE_LEN :: nat where "NUT_VAR_VALUE_LEN \<equiv> 64"
abbreviation CLIENT_RX_BUF :: nat where "CLIENT_RX_BUF \<equiv> 512"
abbreviation CLIENT_TX_BUF :: nat where "CLIENT_TX_BUF \<equiv> 1024"
abbreviation MAX_TOKENS :: nat where "MAX_TOKENS \<equiv> 8"

definition NUT_SERVER_NAME :: string where "NUT_SERVER_NAME = ''esp32-nut-bluetti''"

record nut_var =
  nv_name :: string
  nv_value :: string
  nv_used :: bool

record client_ctx =
  cc_user :: string
  cc_pass :: string
  cc_logged_in :: bool

record nut_server_config =
  nc_ups_name :: "string option"
  nc_ups_desc :: "string option"
  nc_fw_version :: "string option"
  nc_tcp_port :: nat
  nc_max_clients :: nat

record nut_server =
  ns_auth :: "(string \<Rightarrow> string \<Rightarrow> bool) option"
  ns_cfg :: nut_server_config
  ns_ups_name :: string
  ns_ups_desc :: string
  ns_driver_version :: string
  ns_vars :: "nut_var list"
  ns_lock :: bool
  ns_client_count :: int
  ns_started :: bool

section \<open>Variable table\<close>

fun slot_index :: "(nut_var \<Rightarrow> bool) \<Rightarrow> nut_var list \<Rightarrow> nat option" where
  "slot_index P [] = None"
| "slot_index P (v # vs) = (if P v then Some 0 else map_option Suc (slot_index P vs))"

definition var_find_locked :: "nut_var list \<Rightarrow> string \<Rightarrow> nat option" where
  "var_find_locked vars name = slot_index (\<lambda>v. nv_used v \<and> nv_name v = name) vars"

definition table_set :: "string \<Rightarrow> string \<Rightarrow> nut_var list \<Rightarrow> nut_var list" where
  "table_set name value vars =
     (case var_find_locked vars name of
        Some i \<Rightarrow> vars[i := (vars ! i)\<lparr>nv_value := strlcpy NUT_VAR_VALUE_LEN value\<rparr>]
      | None \<Rightarrow>
          (case slot_index (\<lambda>v. \<not> nv_used v) vars of
             Some i \<Rightarrow> vars[i := \<lparr>nv_name = strlcpy NUT_VAR_NAME_LEN name,
                                 nv_value = strlcpy NUT_VAR_VALUE_LEN value, nv_used = True\<rparr>]
           | None \<Rightarrow> vars))"

definition nut_server_set_var :: "nut_server \<Rightarrow> string option \<Rightarrow> string option \<Rightarrow> nut_server" where
  "nut_server_set_var s name value =
     (if name = None \<or> value = None \<or> \<not> ns_lock s then s
      else s\<lparr>ns_vars := table_set (the name) (the value) (ns_vars s)\<rparr>)"

definition nut_server_set_var_int :: "nut_server \<Rightarrow> string option \<Rightarrow> int \<Rightarrow> nut_server" where
  "nut_server_set_var_int s name value = nut_server_set_var s name (Some (snprintf_buf 24 (show_int value)))"

definition nut_server_set_var_float :: "nut_server \<Rightarrow> string option \<Rightarrow> rat \<Rightarrow> nat \<Rightarrow> nut_server" where
  "nut_server_set_var_float s name value decimals =
     nut_server_set_var s name (Some (snprintf_buf 32 (show_fixed decimals value)))"

definition table_clear :: "string \<Rightarrow> nut_var list \<Rightarrow> nut_var list" where
  "table_clear name vars =
     (case var_find_locked vars name of Some i \<Rightarrow> vars[i := (vars ! i)\<lparr>nv_used := False\<rparr>] | None \<Rightarrow> vars)"

definition nut_server_clear_var :: "nut_server \<Rightarrow> string option \<Rightarrow> nut_server" where
  "nut_server_clear_var s name =
     (if name = None \<or> \<not> ns_lock s then s else s\<lparr>ns_vars := table_clear (the name) (ns_vars s)\<rparr>)"

text \<open>The result and what the caller's buffer of \<open>len\<close> bytes holds afterwards (\<^const>\<open>None\<close>: untouched).\<close>

definition nut_server_get_var :: "nut_server \<Rightarrow> string option \<Rightarrow> nat \<Rightarrow> bool \<times> string option" where
  "nut_server_get_var s name len =
     (if name = None \<or> len = 0 \<or> \<not> ns_lock s then (False, None)
      else case var_find_locked (ns_vars s) (the name) of
             Some i \<Rightarrow> (True, Some (strlcpy len (nv_value (ns_vars s ! i))))
           | None \<Rightarrow> (False, Some []))"

definition nut_server_set_auth :: "nut_server \<Rightarrow> (string \<Rightarrow> string \<Rightarrow> bool) option \<Rightarrow> nut_server" where
  "nut_server_set_auth s verify = s\<lparr>ns_auth := verify\<rparr>"

definition nut_server_set_status :: "nut_server \<Rightarrow> string option \<Rightarrow> nut_server" where
  "nut_server_set_status s status =
     nut_server_set_var s (Some ''ups.status'') (Some (case status of Some t \<Rightarrow> t | None \<Rightarrow> ''OFF''))"

section \<open>Sending\<close>

text \<open>What \<^verbatim>\<open>send\<close> answers: a number of bytes taken, an interruption, or another failure. A
  connection with no answers left is gone.\<close>

datatype send_answer = SendN nat | SendIntr | SendErr

record conn =
  cn_answers :: "send_answer list"
  cn_sent :: string

fun send_loop :: "send_answer list \<Rightarrow> string \<Rightarrow> int \<times> send_answer list \<times> string" where
  "send_loop as [] = (0, as, [])"
| "send_loop [] (c # cs) = (- 1, [], [])"
| "send_loop (SendErr # as) (c # cs) = (- 1, as, [])"
| "send_loop (SendIntr # as) (c # cs) = send_loop as (c # cs)"
| "send_loop (SendN n # as) (c # cs) =
     (if n = 0 then (- 1, as, [])
      else case send_loop as (drop n (c # cs)) of (rc, as', out) \<Rightarrow> (rc, as', take n (c # cs) @ out))"

definition send_all :: "conn \<Rightarrow> string \<Rightarrow> int \<times> conn" where
  "send_all k text =
     (case send_loop (cn_answers k) text of (rc, as, out) \<Rightarrow> (rc, \<lparr>cn_answers = as, cn_sent = cn_sent k @ out\<rparr>))"

definition send_str :: "conn \<Rightarrow> string \<Rightarrow> int \<times> conn" where
  "send_str k str = send_all k str"

definition send_fmt :: "conn \<Rightarrow> string \<Rightarrow> int \<times> conn" where
  "send_fmt k text = send_all k (take (CLIENT_TX_BUF - 1) text)"

fun quote_loop :: "nat \<Rightarrow> string \<Rightarrow> string \<Rightarrow> string" where
  "quote_loop dstsz dst [] = dst"
| "quote_loop dstsz dst (c # cs) =
     (if length dst + 2 < dstsz
      then quote_loop dstsz (if c = CHR 0x22 \<or> c = CHR 0x5C then dst @ [CHR 0x5C, c] else dst @ [c]) cs
      else dst)"

definition append_quoted :: "nat \<Rightarrow> string \<Rightarrow> string \<Rightarrow> string" where
  "append_quoted dstsz dst src =
     (let dst = (if length dst + 1 < dstsz then dst @ [CHR 0x22] else dst);
          dst = quote_loop dstsz dst src
      in if length dst + 1 < dstsz then dst @ [CHR 0x22] else dst)"

section \<open>Command handling\<close>

definition blank :: "char \<Rightarrow> bool" where
  "blank c \<longleftrightarrow> c = CHR '' '' \<or> c = CHR 0x09"

function tokenize :: "nat \<Rightarrow> string \<Rightarrow> string list" where
  "tokenize n s =
     (let p = dropWhile blank s
      in if n = 0 \<or> p = [] then []
         else if hd p = CHR 0x22
         then takeWhile (\<lambda>c. c \<noteq> CHR 0x22) (tl p) # tokenize (n - 1) (drop 1 (dropWhile (\<lambda>c. c \<noteq> CHR 0x22) (tl p)))
         else takeWhile (\<lambda>c. \<not> blank c) p # tokenize (n - 1) (drop 1 (dropWhile (\<lambda>c. \<not> blank c) p)))"
  by pat_completeness auto
termination by (relation "measure fst") auto

declare tokenize.simps [simp del]

definition ups_matches :: "nut_server \<Rightarrow> string \<Rightarrow> bool" where
  "ups_matches s name \<longleftrightarrow> name = ns_ups_name s"

abbreviation NL :: string where "NL \<equiv> [CHR 0x0A]"

definition cmd_list_ups :: "nut_server \<Rightarrow> conn \<Rightarrow> int \<times> conn" where
  "cmd_list_ups s k =
     (let line = append_quoted 128 (strlcat 128 (strlcat 128 ''UPS '' (ns_ups_name s)) '' '') (ns_ups_desc s)
      in send_fmt k (''BEGIN LIST UPS'' @ NL @ line @ NL @ ''END LIST UPS'' @ NL))"

text \<open>One line of a variable listing, in a buffer of 128 bytes.\<close>

definition var_line :: "string \<Rightarrow> string \<Rightarrow> string \<Rightarrow> string" where
  "var_line ups name value =
     strlcat (64 + NUT_VAR_VALUE_LEN)
       (append_quoted (64 + NUT_VAR_VALUE_LEN)
          (snprintf_buf (64 + NUT_VAR_VALUE_LEN) (''VAR '' @ ups @ '' '' @ name @ '' '')) value) NL"

fun send_vars :: "string \<Rightarrow> nut_var list \<Rightarrow> conn \<Rightarrow> int \<times> conn" where
  "send_vars ups [] k = (0, k)"
| "send_vars ups (v # vs) k =
     (if \<not> nv_used v then send_vars ups vs k
      else case send_str k (var_line ups (nv_name v) (nv_value v)) of (rc, k) \<Rightarrow>
             if rc = 0 then send_vars ups vs k else (rc, k))"

definition cmd_list_var :: "nut_server \<Rightarrow> conn \<Rightarrow> string \<Rightarrow> int \<times> conn" where
  "cmd_list_var s k ups =
     (if \<not> ups_matches s ups then send_str k (''ERR UNKNOWN-UPS'' @ NL)
      else case send_fmt k (''BEGIN LIST VAR '' @ ups @ NL) of (rc, k) \<Rightarrow>
        if rc < 0 then (- 1, k)
        else case send_vars ups (ns_vars s) k of (rc, k) \<Rightarrow>
          if rc < 0 then (- 1, k) else send_fmt k (''END LIST VAR '' @ ups @ NL))"

definition cmd_get_var :: "nut_server \<Rightarrow> conn \<Rightarrow> string \<Rightarrow> string \<Rightarrow> int \<times> conn" where
  "cmd_get_var s k ups var =
     (if \<not> ups_matches s ups then send_str k (''ERR UNKNOWN-UPS'' @ NL)
      else case var_find_locked (ns_vars s) var of
             Some i \<Rightarrow> send_str k (var_line ups var (nv_value (ns_vars s ! i)))
           | None \<Rightarrow> send_str k (''ERR VAR-NOT-SUPPORTED'' @ NL))"

definition cmd_list :: "nut_server \<Rightarrow> conn \<Rightarrow> string list \<Rightarrow> int \<times> conn" where
  "cmd_list s k tok =
     (if strcaseeq (tok ! 1) ''UPS'' then cmd_list_ups s k
      else if strcaseeq (tok ! 1) ''VAR'' \<and> length tok \<ge> 3 then cmd_list_var s k (tok ! 2)
      else if (\<exists>w \<in> set [''RW'', ''CMD'', ''ENUM'', ''RANGE'', ''CLIENT'', ''CLIENTS'']. strcaseeq (tok ! 1) w) \<and> length tok \<ge> 3
      then send_fmt k (''BEGIN LIST '' @ tok ! 1 @ '' '' @ tok ! 2 @ NL @ ''END LIST '' @ tok ! 1 @ '' '' @ tok ! 2 @ NL)
      else send_str k (''ERR INVALID-ARGUMENT'' @ NL))"

definition cmd_get :: "nut_server \<Rightarrow> conn \<Rightarrow> string list \<Rightarrow> int \<times> conn" where
  "cmd_get s k tok =
     (if strcaseeq (tok ! 1) ''VAR'' \<and> length tok \<ge> 4 then cmd_get_var s k (tok ! 2) (tok ! 3)
      else if strcaseeq (tok ! 1) ''UPSDESC'' then
        if \<not> ups_matches s (tok ! 2) then send_str k (''ERR UNKNOWN-UPS'' @ NL)
        else send_str k (strlcat 128 (append_quoted 128 (snprintf_buf 128 (''UPSDESC '' @ tok ! 2 @ '' '')) (ns_ups_desc s)) NL)
      else if strcaseeq (tok ! 1) ''NUMLOGINS'' then send_fmt k (''NUMLOGINS '' @ tok ! 2 @ '' 0'' @ NL)
      else if strcaseeq (tok ! 1) ''DESC'' \<and> length tok \<ge> 4
      then send_fmt k (''DESC '' @ tok ! 2 @ '' '' @ tok ! 3 @ '' '' @ [CHR 0x22] @ tok ! 3 @ [CHR 0x22] @ NL)
      else if strcaseeq (tok ! 1) ''TYPE'' \<and> length tok \<ge> 4
      then send_fmt k (''TYPE '' @ tok ! 2 @ '' '' @ tok ! 3 @ '' STRING:'' @ show_nat (NUT_VAR_VALUE_LEN - 1) @ NL)
      else send_str k (''ERR INVALID-ARGUMENT'' @ NL))"

definition with_ctx :: "client_ctx \<Rightarrow> int \<times> conn \<Rightarrow> int \<times> client_ctx \<times> conn" where
  "with_ctx c r = (fst r, c, snd r)"

definition cmd_username :: "client_ctx \<Rightarrow> conn \<Rightarrow> string list \<Rightarrow> int \<times> client_ctx \<times> conn" where
  "cmd_username c k tok =
     (if length tok < 2 then with_ctx c (send_str k (''ERR INVALID-ARGUMENT'' @ NL))
      else if cc_user c \<noteq> [] then with_ctx c (send_str k (''ERR ALREADY-SET-USERNAME'' @ NL))
      else with_ctx (c\<lparr>cc_user := strlcpy 33 (tok ! 1)\<rparr>) (send_str k (''OK'' @ NL)))"

definition cmd_password :: "client_ctx \<Rightarrow> conn \<Rightarrow> string list \<Rightarrow> int \<times> client_ctx \<times> conn" where
  "cmd_password c k tok =
     (if length tok < 2 then with_ctx c (send_str k (''ERR INVALID-ARGUMENT'' @ NL))
      else if cc_pass c \<noteq> [] then with_ctx c (send_str k (''ERR ALREADY-SET-PASSWORD'' @ NL))
      else with_ctx (c\<lparr>cc_pass := strlcpy 65 (tok ! 1)\<rparr>) (send_str k (''OK'' @ NL)))"

definition login_ok :: "nut_server \<Rightarrow> client_ctx \<Rightarrow> bool" where
  "login_ok s c \<longleftrightarrow> (case ns_auth s of None \<Rightarrow> True | Some verify \<Rightarrow> verify (cc_user c) (cc_pass c))"

definition cmd_login :: "nut_server \<Rightarrow> client_ctx \<Rightarrow> conn \<Rightarrow> int \<times> client_ctx \<times> conn" where
  "cmd_login s c k =
     (if \<not> login_ok s c then with_ctx c (send_str k (''ERR ACCESS-DENIED'' @ NL))
      else with_ctx (c\<lparr>cc_logged_in := True\<rparr>) (send_str k (''OK'' @ NL)))"

definition handle_line :: "nut_server \<Rightarrow> client_ctx \<Rightarrow> conn \<Rightarrow> string \<Rightarrow> int \<times> client_ctx \<times> conn" where
  "handle_line s c k line =
     (let tok = tokenize MAX_TOKENS line; n = length tok; is = (\<lambda>w. strcaseeq (tok ! 0) w)
      in if n = 0 then (0, c, k)
         else if is ''LIST'' \<and> n \<ge> 2 then with_ctx c (cmd_list s k tok)
         else if is ''GET'' \<and> n \<ge> 3 then with_ctx c (cmd_get s k tok)
         else if is ''USERNAME'' then cmd_username c k tok
         else if is ''PASSWORD'' then cmd_password c k tok
         else if is ''LOGIN'' \<or> is ''PRIMARY'' \<or> is ''MASTER'' then cmd_login s c k
         else if is ''LOGOUT'' then (- 1, c\<lparr>cc_logged_in := False\<rparr>, snd (send_str k (''OK Goodbye'' @ NL)))
         else if is ''STARTTLS'' then with_ctx c (send_str k (''ERR FEATURE-NOT-CONFIGURED'' @ NL))
         else if is ''VER'' then with_ctx c (send_str k (snprintf_buf 52 (ns_driver_version s @ NL)))
         else if is ''NETVER'' \<or> is ''PROTVER'' then with_ctx c (send_str k (''1.3'' @ NL))
         else if is ''HELP''
         then with_ctx c (send_str k (''Commands: HELP VER GET LIST LOGIN LOGOUT USERNAME PASSWORD STARTTLS'' @ NL))
         else with_ctx c (send_str k (''ERR UNKNOWN-COMMAND'' @ NL)))"

section \<open>One client\<close>

text \<open>The state of a client task between two reads: its login, its socket and whether the loop has
  ended, beside the partial line it keeps. A line is handled without its newline and one carriage
  return before it.\<close>

record client =
  ct_ctx :: client_ctx
  ct_conn :: conn
  ct_closed :: bool

definition strip_cr :: "string \<Rightarrow> string" where
  "strip_cr s = (if s \<noteq> [] \<and> last s = CHR 0x0D then butlast s else s)"

definition client_line :: "nut_server \<Rightarrow> client \<Rightarrow> string \<Rightarrow> client" where
  "client_line s t line =
     (case handle_line s (ct_ctx t) (ct_conn t) (strip_cr line) of (rc, c, k) \<Rightarrow>
        \<lparr>ct_ctx = c, ct_conn = k, ct_closed = rc < 0\<rparr>)"

text \<open>The loop over the newlines of the buffer, \<open>rest\<close> being what starts at \<^verbatim>\<open>start\<close>.\<close>

function lines_loop :: "nut_server \<Rightarrow> client \<Rightarrow> string \<Rightarrow> client \<times> string" where
  "lines_loop s t rest =
     (if ct_closed t \<or> CHR 0x0A \<notin> set rest then (t, rest)
      else lines_loop s (client_line s t (takeWhile (\<lambda>c. c \<noteq> CHR 0x0A) rest))
             (tl (dropWhile (\<lambda>c. c \<noteq> CHR 0x0A) rest)))"
  by pat_completeness auto
termination
proof (relation "measure (\<lambda>(_, _, r). length r)", goal_cases)
  case (2 s t rest)
  then have "dropWhile (\<lambda>c. c \<noteq> CHR 0x0A) rest \<noteq> []" by (auto simp: dropWhile_eq_Nil_conv)
  then have "length (tl (dropWhile (\<lambda>c. c \<noteq> CHR 0x0A) rest)) < length (dropWhile (\<lambda>c. c \<noteq> CHR 0x0A) rest)" by simp
  also have "\<dots> \<le> length rest" by (rule length_dropWhile_le)
  finally show ?case by simp
qed simp

declare lines_loop.simps [simp del]

text \<open>One \<^verbatim>\<open>recv\<close>; \<open>data\<close> is what it returned, at most the room left in the buffer. The buffer is
  scanned as a C string, so a zero byte cuts off what follows it.\<close>

definition client_recv :: "nut_server \<Rightarrow> string \<Rightarrow> client \<times> string \<Rightarrow> client \<times> string" where
  "client_recv s data tb =
     (case tb of (t, buf) \<Rightarrow>
        if ct_closed t then (t, [])
        else if data = [] then (t\<lparr>ct_closed := True\<rparr>, [])
        else case lines_loop s t (takeWhile (\<lambda>c. c \<noteq> CHR 0x00) (buf @ data)) of (t, rest) \<Rightarrow>
          if ct_closed t then (t, [])
          else if length rest = CLIENT_RX_BUF - 1
          then (t\<lparr>ct_conn := snd (send_str (ct_conn t) (''ERR TOO-LONG'' @ NL))\<rparr>, [])
          else (t, rest))"

definition client_start :: "conn \<Rightarrow> client" where
  "client_start k = \<lparr>ct_ctx = \<lparr>cc_user = [], cc_pass = [], cc_logged_in = False\<rparr>, ct_conn = k, ct_closed = False\<rparr>"

definition client_task_end :: "nut_server \<Rightarrow> nut_server" where
  "client_task_end s = s\<lparr>ns_client_count := ns_client_count s - 1\<rparr>"

section \<open>Admission\<close>

text \<open>One accepted socket: the server, and whether a client task now runs on it.\<close>

definition accept_client :: "nut_server \<Rightarrow> bool \<Rightarrow> nut_server \<times> bool" where
  "accept_client s spawn_ok =
     (if ns_client_count s \<ge> int (nc_max_clients (ns_cfg s)) then (s, False)
      else
        let s = s\<lparr>ns_client_count := ns_client_count s + 1\<rparr>
        in if \<not> spawn_ok then (s\<lparr>ns_client_count := ns_client_count s - 1\<rparr>, False) else (s, True))"

definition SEED_VARS :: "nut_server \<Rightarrow> (string \<times> string) list" where
  "SEED_VARS s =
     [(''device.mfr'', ''BLUETTI''), (''device.model'', ''BLUETTI''), (''device.type'', ''ups''),
      (''driver.name'', NUT_SERVER_NAME), (''driver.version'', ns_driver_version s), (''ups.mfr'', ''BLUETTI''),
      (''ups.model'', ''BLUETTI''), (''ups.status'', ''OFF''), (''battery.charge'', ''0'')]"

definition configure_server :: "nut_server \<Rightarrow> nut_server_config \<Rightarrow> bool \<Rightarrow> nut_server" where
  "configure_server s cfg mutex_ok =
     s\<lparr>ns_cfg := cfg\<lparr>nc_tcp_port := (if nc_tcp_port cfg = 0 then 3493 else nc_tcp_port cfg),
                     nc_max_clients := (if nc_max_clients cfg = 0 then 4 else nc_max_clients cfg)\<rparr>,
      ns_ups_name := strlcpy 32 (case nc_ups_name cfg of Some n \<Rightarrow> n | None \<Rightarrow> ''ups''),
      ns_ups_desc := strlcpy 64 (case nc_ups_desc cfg of Some n \<Rightarrow> n | None \<Rightarrow> ''BLUETTI via ESP32''),
      ns_driver_version := snprintf_buf 48 (NUT_SERVER_NAME @ '' '' @ (case nc_fw_version cfg of Some v \<Rightarrow> v | None \<Rightarrow> ''?'')),
      ns_lock := mutex_ok\<rparr>"

definition nut_server_start :: "nut_server \<Rightarrow> nut_server_config option \<Rightarrow> bool \<Rightarrow> bool \<Rightarrow> int \<times> nut_server" where
  "nut_server_start s config mutex_ok task_ok =
     (if ns_started s then (0, s)
      else case config of
        None \<Rightarrow> (- 1, s)
      | Some cfg \<Rightarrow>
          let s = configure_server s cfg mutex_ok
          in if \<not> mutex_ok then (- 1, s)
             else
               let s = fold (\<lambda>(n, v) s. nut_server_set_var s (Some n) (Some v)) (SEED_VARS s) s
               in if \<not> task_ok then (- 1, s) else (0, s\<lparr>ns_started := True\<rparr>))"

section \<open>The table is a bounded map\<close>

definition var_lookup :: "nut_var list \<Rightarrow> string \<Rightarrow> string option" where
  "var_lookup vars name = map_option (\<lambda>i. nv_value (vars ! i)) (var_find_locked vars name)"

definition var_inv :: "nut_var list \<Rightarrow> bool" where
  "var_inv vars \<longleftrightarrow>
     length vars = NUT_MAX_VARS \<and> distinct (map nv_name (filter nv_used vars)) \<and>
     (\<forall>v \<in> set vars. length (nv_name v) < NUT_VAR_NAME_LEN \<and> length (nv_value v) < NUT_VAR_VALUE_LEN)"

lemma slot_index_Some: "slot_index P vs = Some i \<Longrightarrow> i < length vs \<and> P (vs ! i)"
  by (induction vs arbitrary: i) (auto split: if_splits)

lemma slot_index_None: "slot_index P vs = None \<longleftrightarrow> (\<forall>v \<in> set vs. \<not> P v)"
  by (induction vs) auto

lemma slot_index_ex: "i < length vs \<Longrightarrow> P (vs ! i) \<Longrightarrow> \<exists>j. slot_index P vs = Some j"
  using slot_index_None [of P vs] by (metis not_None_eq nth_mem)

lemma lookup_map_of:
  "var_lookup vs n = map_of (map (\<lambda>v. (nv_name v, nv_value v)) (filter nv_used vs)) n"
  unfolding var_lookup_def var_find_locked_def
  by (induction vs) (auto simp: option.map_comp comp_def)

text \<open>Updating a slot by splitting the table around it.\<close>

lemma slot_split:
  assumes "i < length vs"
  shows "vs = take i vs @ vs ! i # drop (Suc i) vs" and "vs[i := v] = take i vs @ v # drop (Suc i) vs"
  using assms by (auto simp: id_take_nth_drop upd_conv_take_nth_drop)

lemma var_inv_find:
  assumes "var_inv vs" "var_find_locked vs n = Some i"
  shows "i < length vs" "nv_used (vs ! i)" "nv_name (vs ! i) = n"
  using slot_index_Some [OF assms(2) [unfolded var_find_locked_def]] by auto

lemma find_none_dom: "var_find_locked vs n = None \<longleftrightarrow> n \<notin> dom (var_lookup vs)"
  by (auto simp: var_lookup_def)

lemma lookup_Cons [simp]:
  "var_lookup (v # b) n = (if nv_used v \<and> nv_name v = n then Some (nv_value v) else var_lookup b n)"
  by (simp add: lookup_map_of)

lemma lookup_Nil [simp]: "var_lookup [] n = None"
  by (simp add: lookup_map_of)

lemma lookup_append [simp]:
  "var_lookup (a @ b) n = (case var_lookup a n of Some x \<Rightarrow> Some x | None \<Rightarrow> var_lookup b n)"
  by (induction a) auto

lemma lookup_None: "var_lookup vs n = None \<longleftrightarrow> n \<notin> set (map nv_name (filter nv_used vs))"
  by (induction vs) auto

lemma lookup_update_slot:
  assumes "distinct (map nv_name (filter nv_used (a @ v # b)))" "nv_used v"
  shows "var_lookup (a @ v\<lparr>nv_value := x\<rparr> # b) = (var_lookup (a @ v # b))(nv_name v \<mapsto> x)"
    and "var_lookup (a @ v\<lparr>nv_used := False\<rparr> # b) = (var_lookup (a @ v # b))(nv_name v := None)"
proof -
  have "var_lookup a (nv_name v) = None" "var_lookup b (nv_name v) = None"
    using assms by (auto simp: lookup_None)
  then show "var_lookup (a @ v\<lparr>nv_value := x\<rparr> # b) = (var_lookup (a @ v # b))(nv_name v \<mapsto> x)"
    "var_lookup (a @ v\<lparr>nv_used := False\<rparr> # b) = (var_lookup (a @ v # b))(nv_name v := None)"
    using assms(2) by (auto simp: fun_eq_iff split: option.split)
qed

lemma lookup_fill_slot:
  assumes "\<not> nv_used w" "nv_used v" "nv_name v \<notin> dom (var_lookup (a @ w # b))"
  shows "var_lookup (a @ v # b) = (var_lookup (a @ w # b))(nv_name v \<mapsto> nv_value v)"
proof -
  have "var_lookup a (nv_name v) = None" using assms(3) by (auto split: option.splits)
  then show ?thesis using assms(1,2) by (auto simp: fun_eq_iff split: option.split)
qed

lemma dom_lookup: "dom (var_lookup vs) = set (map nv_name (filter nv_used vs))"
proof -
  have "n \<in> dom (var_lookup vs) \<longleftrightarrow> n \<in> set (map nv_name (filter nv_used vs))" for n
    using lookup_None [of vs n] by (simp add: domIff)
  then show ?thesis by blast
qed

lemma full_table_dom:
  assumes "var_inv vs" "slot_index (\<lambda>v. \<not> nv_used v) vs = None"
  shows "card (dom (var_lookup vs)) = NUT_MAX_VARS"
proof -
  have "filter nv_used vs = vs" using assms(2) by (simp add: slot_index_None)
  then show ?thesis using assms(1) unfolding dom_lookup by (simp add: var_inv_def distinct_card del: set_map)
qed

lemma var_inv_update:
  assumes "var_inv (a @ v # b)" "nv_used v" "length x < NUT_VAR_VALUE_LEN"
  shows "var_inv (a @ v\<lparr>nv_value := x\<rparr> # b)" "var_inv (a @ v\<lparr>nv_used := False\<rparr> # b)"
  using assms by (auto simp: var_inv_def)

lemma var_inv_fill:
  assumes "var_inv (a @ w # b)" "\<not> nv_used w" "nv_name v \<notin> dom (var_lookup (a @ w # b))"
    and "length (nv_name v) < NUT_VAR_NAME_LEN" "length (nv_value v) < NUT_VAR_VALUE_LEN"
  shows "var_inv (a @ v # b)"
  using assms unfolding dom_lookup by (auto simp: var_inv_def)

lemma table_set_found:
  assumes "var_inv vs" "var_find_locked vs n = Some i"
  shows "var_lookup (table_set n v vs) = (var_lookup vs)(n \<mapsto> strlcpy NUT_VAR_VALUE_LEN v)"
    "var_inv (table_set n v vs)"
proof -
  note f = var_inv_find [OF assms]
  note sp = slot_split [OF f(1)]
  have t: "table_set n v vs = take i vs @ (vs ! i)\<lparr>nv_value := strlcpy NUT_VAR_VALUE_LEN v\<rparr> # drop (Suc i) vs"
    by (simp add: table_set_def assms(2) sp(2))
  have inv: "var_inv (take i vs @ vs ! i # drop (Suc i) vs)" using assms(1) sp(1) by metis
  then have "distinct (map nv_name (filter nv_used (take i vs @ vs ! i # drop (Suc i) vs)))" by (simp add: var_inv_def)
  then show "var_lookup (table_set n v vs) = (var_lookup vs)(n \<mapsto> strlcpy NUT_VAR_VALUE_LEN v)"
    using lookup_update_slot(1) [OF _ f(2)] t f(3) sp(1) by metis
  show "var_inv (table_set n v vs)"
    unfolding t by (rule var_inv_update(1) [OF inv f(2)]) (simp add: strlcpy_bound)
qed

lemma table_set_new:
  assumes "var_inv vs" "length n < NUT_VAR_NAME_LEN" "var_find_locked vs n = None"
    and "slot_index (\<lambda>v. \<not> nv_used v) vs = Some i"
  shows "var_lookup (table_set n v vs) = (var_lookup vs)(n \<mapsto> strlcpy NUT_VAR_VALUE_LEN v)"
    "var_inv (table_set n v vs)"
proof -
  let ?v = "\<lparr>nv_name = n, nv_value = strlcpy NUT_VAR_VALUE_LEN v, nv_used = True\<rparr>"
  have f: "i < length vs" "\<not> nv_used (vs ! i)" using slot_index_Some [OF assms(4)] by auto
  note sp = slot_split [OF f(1)]
  have t: "table_set n v vs = take i vs @ ?v # drop (Suc i) vs"
    using assms(2,3,4) by (simp add: table_set_def sp(2) strlcpy_fits)
  have inv: "var_inv (take i vs @ vs ! i # drop (Suc i) vs)" using assms(1) sp(1) by metis
  have new: "nv_name ?v \<notin> dom (var_lookup (take i vs @ vs ! i # drop (Suc i) vs))"
    using assms(3) find_none_dom [of vs n] sp(1) by simp
  show "var_lookup (table_set n v vs) = (var_lookup vs)(n \<mapsto> strlcpy NUT_VAR_VALUE_LEN v)"
    using lookup_fill_slot [OF f(2) _ new] t sp(1) by simp
  show "var_inv (table_set n v vs)"
    unfolding t by (rule var_inv_fill [OF inv f(2) new]) (use assms(2) in \<open>simp_all add: strlcpy_bound\<close>)
qed

lemma table_set_full:
  assumes "var_find_locked vs n = None" "slot_index (\<lambda>v. \<not> nv_used v) vs = None"
  shows "table_set n v vs = vs"
  using assms by (simp add: table_set_def)

lemma table_clear_props:
  assumes "var_inv vs"
  shows "var_lookup (table_clear n vs) = (var_lookup vs)(n := None)" "var_inv (table_clear n vs)"
proof -
  have "var_lookup (table_clear n vs) = (var_lookup vs)(n := None) \<and> var_inv (table_clear n vs)"
  proof (cases "var_find_locked vs n")
    case None
    then show ?thesis using assms find_none_dom [of vs n] by (auto simp: table_clear_def fun_eq_iff)
  next
    case (Some i)
    note f = var_inv_find [OF assms Some]
    note sp = slot_split [OF f(1)]
    have t: "table_clear n vs = take i vs @ (vs ! i)\<lparr>nv_used := False\<rparr> # drop (Suc i) vs"
      by (simp add: table_clear_def Some sp(2))
    have inv: "var_inv (take i vs @ vs ! i # drop (Suc i) vs)" using assms sp(1) by metis
    then have "distinct (map nv_name (filter nv_used (take i vs @ vs ! i # drop (Suc i) vs)))" by (simp add: var_inv_def)
    then have "var_lookup (table_clear n vs) = (var_lookup vs)(n := None)"
      using lookup_update_slot(2) [OF _ f(2)] t f(3) sp(1) by metis
    then show ?thesis using var_inv_update(2) [OF inv f(2), of "[]"] t by simp
  qed
  then show "var_lookup (table_clear n vs) = (var_lookup vs)(n := None)" "var_inv (table_clear n vs)" by blast+
qed

interpretation nut_table: var_store var_lookup table_set table_clear var_inv
  "\<lambda>n. length n < NUT_VAR_NAME_LEN" "strlcpy NUT_VAR_VALUE_LEN" NUT_MAX_VARS
proof unfold_locales
  fix s and n v :: string
  assume inv: "var_inv s" and fit: "length n < NUT_VAR_NAME_LEN"
  have fin: "finite (dom (var_lookup s))" by (simp add: dom_lookup)
  show "var_inv (table_set n v s)"
    using table_set_found(2) [OF inv] table_set_new(2) [OF inv fit] table_set_full inv by (metis not_None_eq)
  assume "card (insert n (dom (var_lookup s))) \<le> NUT_MAX_VARS"
  then have "\<not> (var_find_locked s n = None \<and> slot_index (\<lambda>v. \<not> nv_used v) s = None)"
    using full_table_dom [OF inv] fin by (metis Suc_n_not_le_n card_insert_disjoint find_none_dom)
  then show "var_lookup (table_set n v s) = (var_lookup s)(n \<mapsto> strlcpy NUT_VAR_VALUE_LEN v)"
    using table_set_found(1) [OF inv] table_set_new(1) [OF inv fit] by (metis not_None_eq)
qed (auto simp: table_clear_props dom_lookup)

section \<open>Quoting and splitting\<close>

definition escape :: "string \<Rightarrow> string" where
  "escape src = concat (map (\<lambda>c. if c = CHR 0x22 \<or> c = CHR 0x5C then [CHR 0x5C, c] else [c]) src)"

text \<open>How a NUT client reads a quoted value: the text after the opening quote, up to the first quote
  that is not escaped.\<close>

fun read_quoted :: "string \<Rightarrow> (string \<times> string) option" where
  "read_quoted [] = None"
| "read_quoted (c # cs) =
     (if c = CHR 0x22 then Some ([], cs)
      else if c = CHR 0x5C
      then (case cs of [] \<Rightarrow> None | d # ds \<Rightarrow> map_option (\<lambda>(v, r). (d # v, r)) (read_quoted ds))
      else map_option (\<lambda>(v, r). (c # v, r)) (read_quoted cs))"

lemma escape_simps [simp]:
  "escape [] = []" "escape (c # cs) = (if c = CHR 0x22 \<or> c = CHR 0x5C then [CHR 0x5C, c] else [c]) @ escape cs"
  by (simp_all add: escape_def)

lemma read_quoted_escape: "read_quoted (escape v @ CHR 0x22 # r) = Some (v, r)"
  by (induction v) auto

lemma quote_loop_exact: "length dst + length (escape src) + 1 < dstsz \<Longrightarrow> quote_loop dstsz dst src = dst @ escape src"
  by (induction src arbitrary: dst) auto

lemma quote_loop_bound: "length dst < dstsz \<Longrightarrow> length (quote_loop dstsz dst src) < dstsz"
  by (induction src arbitrary: dst) auto

lemma append_quoted_exact:
  "length dst + length (escape src) + 2 < dstsz \<Longrightarrow>
    append_quoted dstsz dst src = dst @ [CHR 0x22] @ escape src @ [CHR 0x22]"
  by (simp add: append_quoted_def quote_loop_exact)

lemma append_quoted_bound: "length dst < dstsz \<Longrightarrow> length (append_quoted dstsz dst src) < dstsz"
  by (simp add: append_quoted_def Let_def quote_loop_bound)

lemma var_line_exact:
  assumes "length ups + length name + length (escape value) < 119"
  shows "var_line ups name value = ''VAR '' @ ups @ '' '' @ name @ '' '' @ [CHR 0x22] @ escape value @ [CHR 0x22] @ NL"
  using assms by (simp add: var_line_def snprintf_buf_fits append_quoted_exact strlcat_fits)

definition word_token :: "string \<Rightarrow> bool" where
  "word_token t \<longleftrightarrow> t \<noteq> [] \<and> hd t \<noteq> CHR 0x22 \<and> (\<forall>c \<in> set t. \<not> blank c)"

fun unwords :: "string list \<Rightarrow> string" where
  "unwords [] = []"
| "unwords [t] = t"
| "unwords (t # u # us) = t @ '' '' @ unwords (u # us)"

lemma word_token_scan:
  assumes "word_token t" "r = [] \<or> blank (hd r)"
  shows "dropWhile blank (t @ r) = t @ r" "takeWhile (\<lambda>c. \<not> blank c) (t @ r) = t" "dropWhile (\<lambda>c. \<not> blank c) (t @ r) = r"
proof -
  show "dropWhile blank (t @ r) = t @ r" using assms by (cases t) (auto simp: word_token_def)
  have "takeWhile (\<lambda>c. \<not> blank c) r = []" "dropWhile (\<lambda>c. \<not> blank c) r = r" using assms(2) by (cases r; simp)+
  then show "takeWhile (\<lambda>c. \<not> blank c) (t @ r) = t" "dropWhile (\<lambda>c. \<not> blank c) (t @ r) = r"
    using assms(1) by (auto simp: word_token_def takeWhile_append2 dropWhile_append2)
qed

lemma tokenize_unwords:
  "\<forall>t \<in> set ts. word_token t \<Longrightarrow> length ts \<le> n \<Longrightarrow> tokenize n (unwords ts) = ts"
proof (induction ts arbitrary: n rule: unwords.induct)
  case 1
  then show ?case by (simp add: tokenize.simps)
next
  case (2 t)
  then have t: "word_token t" "n \<noteq> 0" by auto
  note w = word_token_scan [OF t(1), of "[]", unfolded append_Nil2, OF disjI1, OF refl]
  have "tokenize n t = takeWhile (\<lambda>c. \<not> blank c) t # tokenize (n - 1) (drop 1 (dropWhile (\<lambda>c. \<not> blank c) t))"
    using t w(1) by (subst tokenize.simps) (simp add: word_token_def)
  also have "\<dots> = t # tokenize (n - 1) []" by (simp only: w drop_Nil)
  also have "\<dots> = [t]" by (simp add: tokenize.simps)
  finally show ?case by simp
next
  case (3 t u us)
  then have t: "word_token t" "n \<noteq> 0" by auto
  note w = word_token_scan [OF t(1), of "'' '' @ unwords (u # us)", simplified]
  have b: "blank (CHR '' '')" by (simp add: blank_def)
  have "tokenize (n - 1) (unwords (u # us)) = u # us" using 3 by auto
  then show ?case
    using t w b tokenize.simps [of n "t @ '' '' @ unwords (u # us)"] by (cases t) (auto simp: word_token_def Let_def)
qed

lemma send_all_prefix: "\<exists>m. cn_sent (snd (send_all k text)) = cn_sent k @ take m text"
proof -
  have "\<exists>m. snd (snd (send_loop as t)) = take m t" for as t
  proof (induction as t rule: send_loop.induct)
    case (5 n as c cs)
    show ?case
    proof (cases "n = 0")
      case False
      then obtain m where "snd (snd (send_loop as (drop n (c # cs)))) = take m (drop n (c # cs))" using 5 by blast
      then show ?thesis using False
        by (intro exI [of _ "n + m"]) (auto simp: take_add split: prod.split)
    qed (auto intro: exI [of _ 0])
  qed (auto intro: exI [of _ 0])
  then show ?thesis by (auto simp: send_all_def split: prod.split) (metis snd_conv)
qed

lemma send_all_ok: "send_all k text = (0, k') \<Longrightarrow> cn_sent k' = cn_sent k @ text"
proof -
  have "fst (send_loop as t) = 0 \<Longrightarrow> snd (snd (send_loop as t)) = t" for as t
    by (induction as t rule: send_loop.induct) (auto split: prod.splits if_splits)
  then show "send_all k text = (0, k') \<Longrightarrow> cn_sent k' = cn_sent k @ text"
    by (auto simp: send_all_def split: prod.splits) (metis fst_conv snd_conv)
qed

section \<open>Cutting the command stream\<close>

definition line_need :: "client \<Rightarrow> string \<Rightarrow> nat" where
  "line_need t b = (if ct_closed t \<or> CHR 0x0A \<notin> set b then 0 else Suc (length (takeWhile (\<lambda>c. c \<noteq> CHR 0x0A) b)))"

definition line_handle :: "nut_server \<Rightarrow> client \<Rightarrow> string \<Rightarrow> client option" where
  "line_handle s t f = Some (client_line s t (butlast f))"

lemma newline_split:
  assumes "CHR 0x0A \<in> set b"
  shows "takeWhile (\<lambda>c. c \<noteq> CHR 0x0A) b @ CHR 0x0A # tl (dropWhile (\<lambda>c. c \<noteq> CHR 0x0A) b) = b"
proof -
  have ne: "dropWhile (\<lambda>c. c \<noteq> CHR 0x0A) b \<noteq> []" using assms by (auto simp: dropWhile_eq_Nil_conv)
  then have "hd (dropWhile (\<lambda>c. c \<noteq> CHR 0x0A) b) = CHR 0x0A" using hd_dropWhile [OF ne] by simp
  then have "dropWhile (\<lambda>c. c \<noteq> CHR 0x0A) b = CHR 0x0A # tl (dropWhile (\<lambda>c. c \<noteq> CHR 0x0A) b)"
    using ne by (metis list.collapse)
  then show ?thesis using takeWhile_dropWhile_id by metis
qed

interpretation client_lines: framing line_need "line_handle s" for s
  by unfold_locales (auto simp: line_need_def takeWhile_append1 split: if_splits)

lemma line_parts:
  assumes "CHR 0x0A \<in> set b"
  shows "take (Suc (length (takeWhile (\<lambda>c. c \<noteq> CHR 0x0A) b))) b = takeWhile (\<lambda>c. c \<noteq> CHR 0x0A) b @ [CHR 0x0A]"
    and "drop (Suc (length (takeWhile (\<lambda>c. c \<noteq> CHR 0x0A) b))) b = tl (dropWhile (\<lambda>c. c \<noteq> CHR 0x0A) b)"
    and "Suc (length (takeWhile (\<lambda>c. c \<noteq> CHR 0x0A) b)) \<le> length b"
proof -
  obtain p r where p: "p = takeWhile (\<lambda>c. c \<noteq> CHR 0x0A) b" and r: "r = tl (dropWhile (\<lambda>c. c \<noteq> CHR 0x0A) b)" by blast
  have b: "b = p @ CHR 0x0A # r" using newline_split [OF assms] p r by simp
  have "take (Suc (length p)) b = p @ [CHR 0x0A]" "drop (Suc (length p)) b = r" "Suc (length p) \<le> length b"
    by (subst b, simp)+
  then show "take (Suc (length (takeWhile (\<lambda>c. c \<noteq> CHR 0x0A) b))) b = takeWhile (\<lambda>c. c \<noteq> CHR 0x0A) b @ [CHR 0x0A]"
    "drop (Suc (length (takeWhile (\<lambda>c. c \<noteq> CHR 0x0A) b))) b = tl (dropWhile (\<lambda>c. c \<noteq> CHR 0x0A) b)"
    "Suc (length (takeWhile (\<lambda>c. c \<noteq> CHR 0x0A) b)) \<le> length b"
    unfolding p r by blast+
qed

lemma lines_loop_drain: "drain line_need (line_handle s) t b = Some (lines_loop s t b)"
proof (induction s t b rule: lines_loop.induct)
  case (1 s t b)
  show ?case
  proof (cases "ct_closed t \<or> CHR 0x0A \<notin> set b")
    case True
    then show ?thesis by (simp add: drain.simps line_need_def lines_loop.simps)
  next
    case False
    then have nl: "CHR 0x0A \<in> set b" "\<not> ct_closed t" by auto
    have n: "line_need t b = Suc (length (takeWhile (\<lambda>c. c \<noteq> CHR 0x0A) b))" using nl by (simp add: line_need_def)
    have h: "line_handle s t (take (line_need t b) b) = Some (client_line s t (takeWhile (\<lambda>c. c \<noteq> CHR 0x0A) b))"
      unfolding n line_parts(1) [OF nl(1)] by (simp add: line_handle_def)
    have "drain line_need (line_handle s) t b =
        drain line_need (line_handle s) (client_line s t (takeWhile (\<lambda>c. c \<noteq> CHR 0x0A) b)) (tl (dropWhile (\<lambda>c. c \<noteq> CHR 0x0A) b))"
      using h line_parts(2,3) [OF nl(1)] n by (subst drain.simps) simp
    then show ?thesis using "1.IH" [OF False] nl by (simp add: lines_loop.simps [of s t b])
  qed
qed

lemma lines_loop_append:
  "lines_loop s t (b @ x) = (case lines_loop s t b of (t', r) \<Rightarrow> lines_loop s t' (r @ x))"
  using client_lines.drain_append [of s t b x] by (simp add: lines_loop_drain split: prod.splits)

lemma lines_loop_rest:
  assumes "lines_loop s t b = (t', r)"
  shows "\<exists>p. b = p @ r" and "\<not> ct_closed t' \<Longrightarrow> CHR 0x0A \<notin> set r"
  using assms
proof (induction s t b rule: lines_loop.induct)
  case (1 s t b)
  { case 1
    show ?case
    proof (cases "ct_closed t \<or> CHR 0x0A \<notin> set b")
      case True
      then show ?thesis using 1 by (simp add: lines_loop.simps [of s t b])
    next
      case False
      then obtain p where "tl (dropWhile (\<lambda>c. c \<noteq> CHR 0x0A) b) = p @ r"
        using "1.IH"(1) [OF False] 1 by (auto simp: lines_loop.simps [of s t b])
      then have "b = (takeWhile (\<lambda>c. c \<noteq> CHR 0x0A) b @ CHR 0x0A # p) @ r"
        using newline_split [of b] False by simp
      then show ?thesis ..
    qed
  next
    case 2
    then show ?case
      using "1.IH"(2) by (cases "ct_closed t \<or> CHR 0x0A \<notin> set b") (auto simp: lines_loop.simps [of s t b]) }
qed

text \<open>Every piece of the stream without a newline fits the receive buffer.\<close>

definition short_lines :: "string \<Rightarrow> bool" where
  "short_lines stream \<longleftrightarrow> (\<forall>p l q. stream = p @ l @ q \<and> CHR 0x0A \<notin> set l \<longrightarrow> length l < CLIENT_RX_BUF - 1)"

definition settle :: "client \<times> string \<Rightarrow> client \<times> string" where
  "settle tr = (if ct_closed (fst tr) then (fst tr, []) else tr)"

lemma client_recv_settle:
  assumes "\<not> ct_closed t" "d \<noteq> []" "CHR 0x00 \<notin> set (b @ d)" "short_lines (b @ d @ x)"
  shows "client_recv s d (t, b) = settle (lines_loop s t (b @ d))"
proof -
  obtain t' r where l: "lines_loop s t (b @ d) = (t', r)" by fastforce
  have z: "takeWhile (\<lambda>c. c \<noteq> CHR 0x00) (b @ d) = b @ d" using assms(3) by (auto simp: takeWhile_eq_all_conv)
  have "length r \<noteq> CLIENT_RX_BUF - 1" if "\<not> ct_closed t'"
  proof -
    obtain p where "b @ d = p @ r" using lines_loop_rest(1) [OF l] by blast
    then have "b @ d @ x = p @ r @ x" by simp
    then show ?thesis using assms(4) lines_loop_rest(2) [OF l that] unfolding short_lines_def by (metis less_irrefl)
  qed
  then show ?thesis using assms(1,2) by (auto simp: client_recv_def z l settle_def)
qed

lemma client_recv_closed: "ct_closed t \<Longrightarrow> fold (client_recv s) ds (t, []) = (t, [])"
  by (induction ds) (auto simp: client_recv_def)

lemma lines_loop_still: "\<not> ct_closed t \<Longrightarrow> CHR 0x0A \<notin> set b \<Longrightarrow> lines_loop s t b = (t, b)"
  by (simp add: lines_loop.simps)

lemma recv_stream:
  assumes "\<not> ct_closed t" "CHR 0x0A \<notin> set b" "[] \<notin> set ds" "CHR 0x00 \<notin> set (b @ concat ds)" "short_lines (b @ concat ds)"
  shows "fold (client_recv s) ds (t, b) = settle (lines_loop s t (b @ concat ds))"
  using assms
proof (induction ds arbitrary: t b)
  case Nil
  then show ?case by (simp add: lines_loop_still settle_def)
next
  case (Cons d ds)
  obtain t' r where l: "lines_loop s t (b @ d) = (t', r)" by fastforce
  obtain p where p: "b @ d = p @ r" using lines_loop_rest(1) [OF l] by blast
  have recv: "client_recv s d (t, b) = settle (t', r)"
    using client_recv_settle [of t d b "concat ds" s] Cons.prems l by auto
  have whole: "lines_loop s t (b @ d @ concat ds) = lines_loop s t' (r @ concat ds)"
    using lines_loop_append [of s t "b @ d" "concat ds"] l by simp
  show ?case
  proof (cases "ct_closed t'")
    case True
    then show ?thesis using recv whole by (simp add: settle_def client_recv_closed lines_loop.simps)
  next
    case False
    have set_r: "set r \<subseteq> set (b @ d)" using p by auto
    have "short_lines (r @ concat ds)"
      using Cons.prems(5) p unfolding short_lines_def by (metis append.assoc concat.simps(2))
    then have "fold (client_recv s) ds (t', r) = settle (lines_loop s t' (r @ concat ds))"
      using Cons.IH [OF False lines_loop_rest(2) [OF l False]] Cons.prems(3,4) set_r by auto
    then show ?thesis using recv whole False by (simp add: settle_def)
  qed
qed

section \<open>Properties\<close>


lemma short_lines_total: "length stream < CLIENT_RX_BUF - 1 \<Longrightarrow> short_lines stream"
  by (auto simp: short_lines_def)

definition ex_server :: nut_server where
  "ex_server = \<lparr>ns_auth = Some (\<lambda>u p. u = ''mon'' \<and> p = ''pw''),
     ns_cfg = \<lparr>nc_ups_name = None, nc_ups_desc = None, nc_fw_version = None, nc_tcp_port = 3493, nc_max_clients = 4\<rparr>,
     ns_ups_name = ''bluetti'', ns_ups_desc = ''unit'', ns_driver_version = ''esp32 1'',
     ns_vars = \<lparr>nv_name = ''ups.status'', nv_value = ''OL'', nv_used = True\<rparr> # replicate 47 \<lparr>nv_name = [], nv_value = [], nv_used = False\<rparr>,
     ns_lock = True, ns_client_count = 0, ns_started = True\<rparr>"




subsection \<open>Logging in\<close>

text \<open>What holds of a client whose server checks logins with \<open>verify\<close>: being logged in means that
  \<open>verify\<close> accepted its user name, with the password it has now or before it gave one.\<close>

definition login_inv :: "(string \<Rightarrow> string \<Rightarrow> bool) \<Rightarrow> client_ctx \<Rightarrow> bool" where
  "login_inv verify c \<longleftrightarrow> (cc_logged_in c \<longrightarrow> cc_user c \<noteq> [] \<and> (verify (cc_user c) (cc_pass c) \<or> verify (cc_user c) []))"

lemma with_ctx_ctx [simp]: "fst (snd (with_ctx c r)) = c"
  by (simp add: with_ctx_def)

lemma handle_line_login:
  assumes "ns_auth s = Some verify" "\<And>p. \<not> verify [] p" "login_inv verify c"
  shows "login_inv verify (fst (snd (handle_line s c k line)))"
proof -
  have "login_inv verify (fst (snd (cmd_username c k tok)))" for tok
    using assms(3) by (auto simp: cmd_username_def login_inv_def)
  moreover have "login_inv verify (fst (snd (cmd_password c k tok)))" for tok
    using assms(3) by (auto simp: cmd_password_def login_inv_def)
  moreover have "login_inv verify (fst (snd (cmd_login s c k)))"
    using assms by (auto simp: cmd_login_def login_inv_def login_ok_def)
  moreover have "login_inv verify (c\<lparr>cc_logged_in := False\<rparr>)" by (simp add: login_inv_def)
  ultimately show ?thesis using assms(3) by (simp add: handle_line_def Let_def)
qed


lemma client_line_login:
  assumes "ns_auth s = Some verify" "\<And>p. \<not> verify [] p" "login_inv verify (ct_ctx t)"
  shows "login_inv verify (ct_ctx (client_line s t line))"
  using handle_line_login [OF assms, of "ct_conn t" "strip_cr line"]
  by (auto simp: client_line_def split: prod.splits)

lemma lines_loop_login:
  assumes "ns_auth s = Some verify" "\<And>p. \<not> verify [] p" "login_inv verify (ct_ctx t)"
  shows "login_inv verify (ct_ctx (fst (lines_loop s t r)))"
  using assms(1,3)
proof (induction s t r rule: lines_loop.induct)
  case (1 s t r)
  then show ?case
    using client_line_login [OF "1.prems"(1) assms(2) "1.prems"(2)] lines_loop.simps [of s t r] by auto
qed

lemma client_recv_login:
  assumes "ns_auth s = Some verify" "\<And>p. \<not> verify [] p" "login_inv verify (ct_ctx (fst tb))"
  shows "login_inv verify (ct_ctx (fst (client_recv s d tb)))"
  using lines_loop_login [OF assms(1,2), of "fst tb" "takeWhile (\<lambda>c. c \<noteq> CHR 0x00) (snd tb @ d)"] assms(3)
  by (auto simp: client_recv_def split: prod.splits)

text \<open>C10: Whatever a client sends, in whatever pieces, it is logged in only if the login check accepted
  the user name the connection carries; a check that refuses the empty name can therefore not be
  bypassed by sending commands in another order, repeating them or sending several logins.\<close>

theorem login_only_if_verified:
  assumes "ns_auth s = Some verify" "\<And>p. \<not> verify [] p"
    and "fst (fold (client_recv s) ds (client_start k, [])) = t" "cc_logged_in (ct_ctx t)"
  shows "cc_user (ct_ctx t) \<noteq> [] \<and> (verify (cc_user (ct_ctx t)) (cc_pass (ct_ctx t)) \<or> verify (cc_user (ct_ctx t)) [])"
proof -
  have "login_inv verify (ct_ctx (fst (fold (client_recv s) ds tb)))" if "login_inv verify (ct_ctx (fst tb))" for tb
    using that
  proof (induction ds arbitrary: tb)
    case (Cons d ds)
    then show ?case using client_recv_login [OF assms(1,2), of tb d] by simp
  qed simp
  then have "login_inv verify (ct_ctx t)"
    using assms(3) by (force simp: client_start_def login_inv_def)
  then show ?thesis using assms(4) by (simp add: login_inv_def)
qed

theorem login_only_if_verified_witness:
  "\<exists>t. fst (fold (client_recv ex_server) [''USERNAME mon'' @ NL, ''PASSWORD pw'' @ NL, ''LOGIN'' @ NL]
      (client_start \<lparr>cn_answers = replicate 3 (SendN 9), cn_sent = []\<rparr>, [])) = t \<and> cc_logged_in (ct_ctx t) \<and>
    cc_user (ct_ctx t) \<noteq> []"
proof -
  let ?k = "\<lparr>cn_answers = replicate 3 (SendN 9), cn_sent = []\<rparr>"
  let ?ds = "[''USERNAME mon'' @ NL, ''PASSWORD pw'' @ NL, ''LOGIN'' @ NL]"
  let ?t = "fst (fold (client_recv ex_server) ?ds (client_start ?k, []))"
  have auth: "ns_auth ex_server = Some (\<lambda>u p. u = ''mon'' \<and> p = ''pw'')" by (simp add: ex_server_def)
  have in_: "cc_logged_in (ct_ctx ?t)" by code_simp
  have "\<And>p. \<not> ([] = ''mon'' \<and> p = ''pw'')" by simp
  from login_only_if_verified [OF auth this refl in_] in_ show ?thesis by blast
qed

subsection \<open>The variable table\<close>

definition nut_apply :: "var_op \<Rightarrow> nut_server \<Rightarrow> nut_server" where
  "nut_apply x s = (case x of SetVar n v \<Rightarrow> nut_server_set_var s (Some n) (Some v) | ClearVar n \<Rightarrow> nut_server_clear_var s (Some n))"

lemma nut_apply_vars:
  "ns_lock s \<Longrightarrow> ns_vars (nut_apply x s) = apply_op table_set table_clear x (ns_vars s) \<and> ns_lock (nut_apply x s)"
  by (cases x) (auto simp: nut_apply_def nut_server_set_var_def nut_server_clear_var_def)

lemma nut_apply_ops:
  "ns_lock s \<Longrightarrow> ns_vars (fold nut_apply ops s) = fold (apply_op table_set table_clear) ops (ns_vars s) \<and> ns_lock (fold nut_apply ops s)"
  by (induction ops arbitrary: s) (auto simp: nut_apply_vars)

lemma nut_apply_off: "\<not> ns_lock s \<Longrightarrow> fold nut_apply ops s = s"
  by (induction ops) (auto simp: nut_apply_def nut_server_set_var_def nut_server_clear_var_def split: var_op.split)

text \<open>C9: The variable table implements a map. Over any sequence of sets and clears of names that fit
  their 39 characters and are at most 48 in all, together with those already there, every lookup gives
  what the same sequence gives on a finite map (values clipped to 63 characters), no name occurs twice
  and nothing is dropped.\<close>

theorem table_refines_map:
  assumes "ns_lock s" "var_inv (ns_vars s)" "\<forall>n \<in> ops_names ops. length n < NUT_VAR_NAME_LEN"
    and "card (dom (var_lookup (ns_vars s)) \<union> ops_names ops) \<le> NUT_MAX_VARS"
  shows "var_lookup (ns_vars (fold nut_apply ops s)) = fold (spec_op (strlcpy NUT_VAR_VALUE_LEN)) ops (var_lookup (ns_vars s)) \<and>
    var_inv (ns_vars (fold nut_apply ops s))"
  using nut_table.ops_refine [OF assms(2,3,4)] nut_apply_ops [OF assms(1)] by simp

theorem table_refines_map_witness:
  "var_lookup (ns_vars (fold nut_apply [SetVar ''ups.load'' ''12'', ClearVar ''ups.status''] ex_server)) ''ups.load'' = Some ''12''"
proof -
  have v: "var_lookup (ns_vars ex_server) = [''ups.status'' \<mapsto> ''OL'']"
    by (auto simp: ex_server_def lookup_map_of fun_eq_iff)
  have "var_inv (ns_vars ex_server)" by (simp add: ex_server_def var_inv_def)
  then show ?thesis
    using table_refines_map [of ex_server "[SetVar ''ups.load'' ''12'', ClearVar ''ups.status'']"]
    by (simp add: v strlcpy_def) (simp add: ex_server_def card_insert_if)
qed

subsection \<open>Admission of clients\<close>

datatype server_event = Accept bool | ClientEnds

text \<open>The server and the number of client tasks that run; a task ends only if one runs.\<close>

fun server_step :: "server_event \<Rightarrow> nut_server \<times> nat \<Rightarrow> nut_server \<times> nat" where
  "server_step (Accept spawn_ok) (s, live) = (case accept_client s spawn_ok of (s, started) \<Rightarrow> (s, if started then Suc live else live))"
| "server_step ClientEnds (s, live) = (if live = 0 then (s, live) else (client_task_end s, live - 1))"

text \<open>From a started server with no clients, over any sequence of connections and disconnections,
  the client counter is exactly the number of running client tasks and never exceeds the limit.\<close>

theorem client_count_exact:
  assumes "ns_client_count s = 0"
  shows "ns_client_count (fst (fold server_step evs (s, 0))) = int (snd (fold server_step evs (s, 0))) \<and>
    snd (fold server_step evs (s, 0)) \<le> nc_max_clients (ns_cfg s)"
proof -
  have "ns_client_count (fst (fold server_step evs sl)) = int (snd (fold server_step evs sl)) \<and>
      snd (fold server_step evs sl) \<le> nc_max_clients (ns_cfg s)"
    if "ns_client_count (fst sl) = int (snd sl)" "snd sl \<le> nc_max_clients (ns_cfg s)" "ns_cfg (fst sl) = ns_cfg s" for sl
    using that
  proof (induction evs arbitrary: sl)
    case (Cons e evs)
    obtain u n where sl: "sl = (u, n)" by fastforce
    show ?case
      using Cons.prems by (simp only: fold_simps o_apply, intro Cons.IH; cases e)
        (auto simp: sl accept_client_def client_task_end_def Let_def)
  qed simp
  then show ?thesis using assms by simp
qed

theorem client_count_exact_witness:
  "ns_client_count (fst (fold server_step [Accept True, Accept False, ClientEnds] (ex_server, 0))) = 0"
  using client_count_exact [of ex_server "[Accept True, Accept False, ClientEnds]"]
  by (simp add: ex_server_def accept_client_def client_task_end_def)

subsection \<open>Buffers\<close>

lemma client_recv_rest:
  assumes "length b + length d \<le> CLIENT_RX_BUF - 1"
  shows "length (snd (client_recv s d (t, b))) < CLIENT_RX_BUF - 1"
proof -
  let ?w = "takeWhile (\<lambda>c. c \<noteq> CHR 0x00) (b @ d)"
  obtain t' r where l: "lines_loop s t ?w = (t', r)" by fastforce
  obtain p where "?w = p @ r" using lines_loop_rest(1) [OF l] by blast
  then have "length r \<le> length ?w" by simp
  also have "\<dots> \<le> length (b @ d)" by (rule length_takeWhile_le)
  finally have "length r \<le> CLIENT_RX_BUF - 1" using assms by simp
  then show ?thesis by (auto simp: client_recv_def l)
qed

text \<open>The receive buffer never fills: when each read is given the room the code offers it, the
  partial line kept after it is shorter than the buffer, so the next read has room again. Appending a
  quoted text to a string that fits its buffer leaves one that fits it.\<close>

theorem nut_buffers_bounded:
  shows "(length b + length d \<le> CLIENT_RX_BUF - 1 \<longrightarrow> length (snd (client_recv s d (t, b))) < CLIENT_RX_BUF - 1) \<and>
    (length dst < dstsz \<longrightarrow> length (append_quoted dstsz dst src) < dstsz)"
  using client_recv_rest append_quoted_bound by blast

theorem nut_buffers_bounded_witness:
  "length (append_quoted 8 ''ab'' [CHR 0x22, CHR 0x22, CHR 0x22]) < 8"
  using nut_buffers_bounded [of "[]" "[]" ex_server "client_start \<lparr>cn_answers = [], cn_sent = []\<rparr>" "''ab''" 8] by simp

subsection \<open>Starting\<close>

definition nut_zero :: nut_server where
  "nut_zero = \<lparr>ns_auth = None,
     ns_cfg = \<lparr>nc_ups_name = None, nc_ups_desc = None, nc_fw_version = None, nc_tcp_port = 0, nc_max_clients = 0\<rparr>,
     ns_ups_name = [], ns_ups_desc = [], ns_driver_version = [],
     ns_vars = replicate NUT_MAX_VARS \<lparr>nv_name = [], nv_value = [], nv_used = False\<rparr>,
     ns_lock = False, ns_client_count = 0, ns_started = False\<rparr>"

definition seed_ops :: "nut_server \<Rightarrow> var_op list" where
  "seed_ops s = map (\<lambda>(n, v). SetVar n v) (SEED_VARS s)"

lemma seed_fold: "fold (\<lambda>(n, v) s. nut_server_set_var s (Some n) (Some v)) xs s = fold nut_apply (map (\<lambda>(n, v). SetVar n v) xs) s"
  by (induction xs arbitrary: s) (auto simp: nut_apply_def)

definition seed_names :: "string list" where
  "seed_names = [''device.mfr'', ''device.model'', ''device.type'', ''driver.name'', ''driver.version'', ''ups.mfr'',
     ''ups.model'', ''ups.status'', ''battery.charge'']"

lemma seed_ops_names [simp]: "ops_names (seed_ops s) = set seed_names"
  by (simp add: ops_names_def seed_ops_def SEED_VARS_def seed_names_def)

lemma zero_table: "var_inv (replicate NUT_MAX_VARS \<lparr>nv_name = [], nv_value = [], nv_used = False\<rparr>)"
  "var_lookup (replicate NUT_MAX_VARS \<lparr>nv_name = [], nv_value = [], nv_used = False\<rparr>) = Map.empty"
  by (simp_all add: var_inv_def lookup_map_of fun_eq_iff)

lemma seed_names_fit: "\<forall>n \<in> set seed_names. length n < NUT_VAR_NAME_LEN"
  by (simp add: seed_names_def)

lemma spec_ops_dom: "dom (fold (spec_op clip) ops m) \<subseteq> dom m \<union> ops_names ops"
proof (induction ops arbitrary: m)
  case (Cons x ops)
  have "dom (fold (spec_op clip) (x # ops) m) \<subseteq> dom (spec_op clip x m) \<union> ops_names ops"
    using Cons [of "spec_op clip x m"] by simp
  also have "\<dots> \<subseteq> dom m \<union> ops_names (x # ops)" using spec_op_dom [of clip x m] by auto
  finally show ?case .
qed simp

lemma seeded_table:
  assumes "ns_lock s" "ns_vars s = ns_vars nut_zero"
  shows "ns_lock (fold nut_apply (seed_ops s) s)" "var_inv (ns_vars (fold nut_apply (seed_ops s) s))"
    "dom (var_lookup (ns_vars (fold nut_apply (seed_ops s) s))) \<subseteq> set seed_names"
    "var_lookup (ns_vars (fold nut_apply (seed_ops s) s)) ''ups.status'' = Some ''OFF''"
proof -
  have t: "ns_vars (fold nut_apply (seed_ops s) s) = fold (apply_op table_set table_clear) (seed_ops s) (ns_vars nut_zero)"
    "ns_lock (fold nut_apply (seed_ops s) s)" using nut_apply_ops [OF assms(1)] assms(2) by auto
  have "card (set seed_names) \<le> length seed_names" by (rule card_length)
  also have "\<dots> \<le> NUT_MAX_VARS" by (simp add: seed_names_def)
  finally have "card (dom (var_lookup (ns_vars nut_zero)) \<union> ops_names (seed_ops s)) \<le> NUT_MAX_VARS"
    by (simp add: nut_zero_def zero_table)
  then have r: "var_lookup (ns_vars (fold nut_apply (seed_ops s) s)) =
      fold (spec_op (strlcpy NUT_VAR_VALUE_LEN)) (seed_ops s) Map.empty \<and> var_inv (ns_vars (fold nut_apply (seed_ops s) s))"
    unfolding t(1) using nut_table.ops_refine [of "ns_vars nut_zero" "seed_ops s"] seed_names_fit
    by (simp add: nut_zero_def zero_table)
  then show "ns_lock (fold nut_apply (seed_ops s) s)" "var_inv (ns_vars (fold nut_apply (seed_ops s) s))"
    "dom (var_lookup (ns_vars (fold nut_apply (seed_ops s) s))) \<subseteq> set seed_names"
    using t(2) spec_ops_dom [of "strlcpy NUT_VAR_VALUE_LEN" "seed_ops s" Map.empty] by auto
  show "var_lookup (ns_vars (fold nut_apply (seed_ops s) s)) ''ups.status'' = Some ''OFF''"
    using r by (simp add: seed_ops_def SEED_VARS_def strlcpy_def)
qed

end
