(* ===== verification/Notify.thy ===== *)
theory Notify
  imports Bridge_Prelude "HOL-Library.Signed_Division"
begin

text \<open>
  Telegram notifications, \<^verbatim>\<open>components/notify/notify.c\<close>: the edge detection that turns the stream of
  NUT status strings into messages, the bounded queue between it and the worker, and the worker with
  its retries. The record \<open>notify\<close> is the file's static state \<^verbatim>\<open>N\<close>. The FreeRTOS queue is a
  parameter (\<open>queue_ops\<close>, with \<open>queue_ok\<close> its documented behaviour); the HTTP client and the JSON
  printer are parameters too (\<open>tg_env\<close>: what post number \<open>k\<close> meets), and the posts written to the network
  are logged. The clock is read once per call. The mutex around the configuration is not modelled.

  The lemmas show that the tracked state is the one the history of statuses determines, that every
  power transition is announced (the repeat guard never holds one back), that a drain raises a
  bounded number of reminders, and that the worker delivers a message at the first attempt that
  succeeds or drops it after the last.
\<close>

section \<open>Data\<close>

abbreviation MSG_MAX :: nat where "MSG_MAX \<equiv> 256"
abbreviation QUEUE_DEPTH :: nat where "QUEUE_DEPTH \<equiv> 6"
abbreviation REPEAT_GUARD_US :: int where "REPEAT_GUARD_US \<equiv> 60 * 1000 * 1000"
abbreviation SEND_ATTEMPTS :: nat where "SEND_ATTEMPTS \<equiv> 15"
abbreviation BACKOFF_CAP_MS :: nat where "BACKOFF_CAP_MS \<equiv> 5 * 60 * 1000"
abbreviation LATE_AFTER_US :: int where "LATE_AFTER_US \<equiv> 90 * 1000 * 1000"

record notify_config =
  nc_enabled :: bool
  nc_bot_token :: string
  nc_chat_id :: string
  nc_on_power :: bool
  nc_on_low_batt :: bool
  nc_on_link :: bool
  nc_on_battery_pct :: bool

record msg =
  m_text :: string
  m_queued_us :: int

datatype power_state = PWR_UNKNOWN | PWR_LINE | PWR_BATTERY | PWR_OFFLINE

record 'q notify =
  n_cfg :: notify_config
  n_label :: string
  n_q :: "'q option"
  n_started :: bool
  n_cfg_lock :: bool
  n_power :: power_state
  n_low_batt :: bool
  n_last_event_us :: int
  n_last_event_state :: power_state
  n_batt_decile :: int

text \<open>The queue of the operating system: sending without waiting fails when it is full, receiving
  waits (\<^const>\<open>None\<close>) when it is empty.\<close>

record 'q queue_ops =
  q_send :: "'q \<Rightarrow> msg \<Rightarrow> 'q option"
  q_receive :: "'q \<Rightarrow> (msg \<times> 'q) option"

definition queue_ok :: "'q queue_ops \<Rightarrow> ('q \<Rightarrow> msg list) \<Rightarrow> bool" where
  "queue_ok Q contents \<longleftrightarrow>
     (\<forall>q m. if length (contents q) < QUEUE_DEPTH
            then (case q_send Q q m of None \<Rightarrow> False | Some q' \<Rightarrow> contents q' = contents q @ [m])
            else q_send Q q m = None) \<and>
     (\<forall>q. case contents q of
            [] \<Rightarrow> q_receive Q q = None
          | m # ms \<Rightarrow> (case q_receive Q q of None \<Rightarrow> False | Some (m', q') \<Rightarrow> m' = m \<and> contents q' = ms))"

section \<open>Posting to Telegram\<close>

text \<open>What one post meets: whether the JSON object could be built and printed, whether the client
  could be created, the result of opening the connection, the status of the answer and what reading
  its body gave.\<close>

record tg_answer =
  tg_object_ok :: bool
  tg_print_ok :: bool
  tg_client_ok :: bool
  tg_open_rc :: int
  tg_status :: int
  tg_resp :: string

record tg_env =
  tg_json :: "string \<Rightarrow> string \<Rightarrow> string"
  tg_answers :: "nat \<Rightarrow> tg_answer"
  tg_err_name :: "int \<Rightarrow> string"

record tg_state =
  tg_k :: nat
  tg_sent :: "(string \<times> string) list"

fun after_first :: "string \<Rightarrow> string \<Rightarrow> string option" where
  "after_first p [] = (if p = [] then Some [] else None)"
| "after_first p (c # s) = (if has_prefix p (c # s) then Some (drop (length p) (c # s)) else after_first p s)"

definition DESCRIPTION :: string where
  "DESCRIPTION = CHR 0x22 # ''description'' @ [CHR 0x22] @ '':'' @ [CHR 0x22]"

text \<open>The reason shown for a refused post: the description in the answer when there is one.\<close>

definition post_error :: "int \<Rightarrow> string \<Rightarrow> nat \<Rightarrow> string" where
  "post_error status resp err_sz =
     (case after_first DESCRIPTION resp of
        Some why \<Rightarrow> snprintf_buf err_sz (take (err_sz - 1) (takeWhile (\<lambda>c. c \<noteq> CHR 0x22) why))
      | None \<Rightarrow> snprintf_buf err_sz (''Telegram HTTP '' @ show_int status))"

definition telegram_post ::
    "tg_env \<Rightarrow> notify_config \<Rightarrow> string \<Rightarrow> string \<Rightarrow> nat \<Rightarrow> tg_state \<Rightarrow> (int \<times> string) \<times> tg_state" where
  "telegram_post T cfg text err err_sz ts =
     (if nc_bot_token cfg = [] \<or> nc_chat_id cfg = []
      then ((- 1, snprintf_buf err_sz ''bot token and chat id are required''), ts)
      else
        let a = tg_answers T (tg_k ts); ts = ts\<lparr>tg_k := Suc (tg_k ts)\<rparr>
        in if \<not> tg_object_ok a then ((- 1, snprintf_buf err_sz ''out of memory''), ts)
           else if \<not> tg_print_ok a then ((- 1, snprintf_buf err_sz ''json build failed''), ts)
           else
             let body = tg_json T (nc_chat_id cfg) text;
                 url = snprintf_buf 128 (''https://api.telegram.org/bot'' @ nc_bot_token cfg @ ''/sendMessage'')
             in if \<not> tg_client_ok a then ((- 1, snprintf_buf err_sz ''http init failed''), ts)
                else if tg_open_rc a \<noteq> 0
                then ((- 1, snprintf_buf err_sz (''connect failed: '' @ tg_err_name T (tg_open_rc a))), ts)
                else
                  let ts = ts\<lparr>tg_sent := tg_sent ts @ [(url, body)]\<rparr>
                  in if tg_status a = 200 then ((0, err), ts)
                     else ((- 1, post_error (tg_status a) (take 191 (tg_resp a)) err_sz), ts))"

section \<open>The worker\<close>

text \<open>\<^verbatim>\<open>backoff_ms\<close>: the loop runs \<open>attempt - 1\<close> times at most; the product stays far below 32 bits.\<close>

fun backoff_loop :: "nat \<Rightarrow> nat \<Rightarrow> nat" where
  "backoff_loop 0 ms = ms"
| "backoff_loop (Suc n) ms = (if ms < BACKOFF_CAP_MS then backoff_loop n (ms * 3) else ms)"

definition backoff_ms :: "nat \<Rightarrow> nat" where
  "backoff_ms attempt = (let ms = backoff_loop (attempt - 1) 5000 in if ms > BACKOFF_CAP_MS then BACKOFF_CAP_MS else ms)"

text \<open>The text sent for a message: past a minute and a half it says how late it is.\<close>

definition late_text :: "msg \<Rightarrow> int \<Rightarrow> string" where
  "late_text m now =
     (let late_us = now - m_queued_us m
      in if late_us > LATE_AFTER_US
         then snprintf_buf (MSG_MAX + 32) (m_text m @ '' ('' @ show_int (late_us div 60000000) @ '' min ago)'')
         else snprintf_buf (MSG_MAX + 32) (m_text m))"

text \<open>The worker's locals: the message still owed a delivery, the attempts made for it, and the delays
  it has asked for since it took the message.\<close>

record worker_state =
  wk_held :: "msg option"
  wk_attempt :: nat
  wk_delays :: "nat list"

text \<open>One iteration of the worker's loop, at clock reading \<open>now\<close>. With nothing held and an empty queue
  it stays blocked in the receive.\<close>

definition worker_take :: "'q queue_ops \<Rightarrow> 'q notify \<times> worker_state \<Rightarrow> 'q notify \<times> worker_state" where
  "worker_take Q nw =
     (case nw of (N, w) \<Rightarrow>
        if wk_held w \<noteq> None then (N, w)
        else case Option.bind (n_q N) (q_receive Q) of
               None \<Rightarrow> (N, w)
             | Some (m, q') \<Rightarrow> (N\<lparr>n_q := Some q'\<rparr>, w\<lparr>wk_held := Some m, wk_attempt := 0, wk_delays := []\<rparr>))"

definition worker_deliver ::
    "tg_env \<Rightarrow> notify_config \<Rightarrow> int \<Rightarrow> worker_state \<times> tg_state \<Rightarrow> worker_state \<times> tg_state" where
  "worker_deliver T cfg now wt =
     (case wt of (w, ts) \<Rightarrow>
        case wk_held w of
          None \<Rightarrow> (w, ts)
        | Some m \<Rightarrow>
            if \<not> nc_enabled cfg then (w\<lparr>wk_held := None\<rparr>, ts)
            else case telegram_post T cfg (late_text m now) [] 96 ts of ((rc, _), ts) \<Rightarrow>
              if rc = 0 then (w\<lparr>wk_held := None\<rparr>, ts)
              else let w = w\<lparr>wk_attempt := Suc (wk_attempt w)\<rparr>
                   in if wk_attempt w \<ge> SEND_ATTEMPTS then (w\<lparr>wk_held := None\<rparr>, ts)
                      else (w\<lparr>wk_delays := wk_delays w @ [backoff_ms (wk_attempt w)]\<rparr>, ts))"

definition worker ::
    "tg_env \<Rightarrow> 'q queue_ops \<Rightarrow> int \<Rightarrow> 'q notify \<times> worker_state \<times> tg_state \<Rightarrow> 'q notify \<times> worker_state \<times> tg_state" where
  "worker T Q now st =
     (case st of (N, w, ts) \<Rightarrow>
        case worker_take Q (N, w) of (N, w) \<Rightarrow>
          case worker_deliver T (n_cfg N) now (w, ts) of (w, ts) \<Rightarrow> (N, w, ts))"

section \<open>Raising messages\<close>

definition notify_send :: "'q queue_ops \<Rightarrow> int \<Rightarrow> string option \<Rightarrow> 'q notify \<Rightarrow> bool \<times> 'q notify" where
  "notify_send Q now text N =
     (case text of
        None \<Rightarrow> (False, N)
      | Some text \<Rightarrow>
          if \<not> n_started N then (False, N)
          else if \<not> nc_enabled (n_cfg N) then (False, N)
          else
            let m = \<lparr>m_text = snprintf_buf MSG_MAX
                       ((if n_label N \<noteq> [] then n_label N else []) @ (if n_label N \<noteq> [] then '': '' else []) @ text),
                     m_queued_us = now\<rparr>
            in case Option.bind (n_q N) (\<lambda>q. q_send Q q m) of
                 None \<Rightarrow> (False, N)
               | Some q' \<Rightarrow> (True, N\<lparr>n_q := Some q'\<rparr>))"

definition guard_allows :: "power_state \<Rightarrow> int \<Rightarrow> 'q notify \<Rightarrow> bool \<times> 'q notify" where
  "guard_allows s now N =
     (if s = n_last_event_state N \<and> now - n_last_event_us N < REPEAT_GUARD_US then (False, N)
      else (True, N\<lparr>n_last_event_state := s, n_last_event_us := now\<rparr>))"

text \<open>What a status string says of the power; \<^const>\<open>None\<close> where the code returns early.\<close>

definition classify :: "string \<Rightarrow> power_state option" where
  "classify status =
     (if contains ''WAIT'' status then None
      else if take 3 status = ''OFF'' then Some PWR_OFFLINE
      else if contains ''OB'' status then Some PWR_BATTERY
      else if contains ''OL'' status then Some PWR_LINE
      else None)"

abbreviation EM_DASH :: string where "EM_DASH \<equiv> [CHR 0x20, CHR 0xE2, CHR 0x80, CHR 0x94, CHR 0x20]"
abbreviation BOLT :: string where "BOLT \<equiv> [CHR 0xE2, CHR 0x9A, CHR 0xA1, CHR 0x20]"
abbreviation TICK :: string where "TICK \<equiv> [CHR 0xE2, CHR 0x9C, CHR 0x85, CHR 0x20]"
abbreviation WARN :: string where "WARN \<equiv> [CHR 0xE2, CHR 0x9A, CHR 0xA0, CHR 0xEF, CHR 0xB8, CHR 0x8F, CHR 0x20]"
abbreviation RED :: string where "RED \<equiv> [CHR 0xF0, CHR 0x9F, CHR 0x94, CHR 0xB4, CHR 0x20]"
abbreviation CELL :: string where "CELL \<equiv> [CHR 0xF0, CHR 0x9F, CHR 0x94, CHR 0x8B, CHR 0x20]"

definition lost_text :: "int \<Rightarrow> int \<Rightarrow> string" where
  "lost_text soc rt = snprintf_buf MSG_MAX (BOLT @ ''Mains lost'' @ EM_DASH @ ''running on battery. '' @ show_int soc @
     (if rt > 0 then ''% charge, about '' @ show_int rt @ '' min left.'' else ''% charge.''))"

definition power_alert :: "notify_config \<Rightarrow> power_state \<Rightarrow> power_state \<Rightarrow> int \<Rightarrow> int \<Rightarrow> string option" where
  "power_alert cfg was now soc rt =
     (case now of
        PWR_BATTERY \<Rightarrow>
          if was = PWR_LINE \<and> nc_on_power cfg then Some (lost_text soc rt)
          else if was = PWR_OFFLINE \<and> nc_on_link cfg then Some (TICK @ ''BLUETTI unit is back'' @ EM_DASH @ ''on battery.'')
          else None
      | PWR_LINE \<Rightarrow>
          if was = PWR_BATTERY \<and> nc_on_power cfg
          then Some (snprintf_buf MSG_MAX (TICK @ ''Mains restored. '' @ show_int soc @ ''% charge.''))
          else if was = PWR_OFFLINE \<and> nc_on_link cfg then Some (TICK @ ''BLUETTI unit is back.'')
          else None
      | PWR_OFFLINE \<Rightarrow>
          if nc_on_link cfg then Some (WARN @ ''Lost contact with the BLUETTI unit'' @ EM_DASH @ ''UPS status is unknown.'')
          else None
      | PWR_UNKNOWN \<Rightarrow> None)"

definition low_text :: "int \<Rightarrow> int \<Rightarrow> string" where
  "low_text soc rt = snprintf_buf MSG_MAX (RED @ ''Battery low: '' @ show_int soc @
     (if rt > 0 then ''%, about '' @ show_int rt @ '' min left. Shut things down.'' else ''%. Shut things down.''))"

definition low_alert :: "notify_config \<Rightarrow> bool \<Rightarrow> bool \<Rightarrow> int \<Rightarrow> int \<Rightarrow> string option" where
  "low_alert cfg was_low low soc rt = (if low \<and> \<not> was_low \<and> nc_on_low_batt cfg then Some (low_text soc rt) else None)"

definition unlow_alert :: "notify_config \<Rightarrow> bool \<Rightarrow> bool \<Rightarrow> power_state \<Rightarrow> string option" where
  "unlow_alert cfg was_low low now =
     (if \<not> low \<and> was_low \<and> nc_on_low_batt cfg \<and> now = PWR_LINE then Some (CELL @ ''Battery no longer low.'') else None)"

definition still_text :: "int \<Rightarrow> int \<Rightarrow> string" where
  "still_text soc rt = snprintf_buf MSG_MAX (CELL @ ''Still on battery: '' @ show_int soc @
     (if rt > 0 then ''% charge, about '' @ show_int rt @ '' min left.'' else ''% charge.''))"

text \<open>The reminders every ten points: the new decile tracked, and the reminder when it fell.
  The division truncates towards zero.\<close>

definition decile_step :: "notify_config \<Rightarrow> power_state \<Rightarrow> int \<Rightarrow> int \<Rightarrow> int \<Rightarrow> int \<times> string option" where
  "decile_step cfg now soc rt tracked =
     (if now = PWR_BATTERY \<and> nc_on_battery_pct cfg then
        let decile = soc sdiv 10
        in if tracked < 0 then (decile, None)
           else if decile < tracked then (decile, Some (still_text soc rt))
           else (tracked, None)
      else if now \<noteq> PWR_BATTERY then (- 1, None)
      else (tracked, None))"

definition send_alert :: "'q queue_ops \<Rightarrow> int \<Rightarrow> string option \<Rightarrow> 'q notify \<Rightarrow> 'q notify" where
  "send_alert Q now text N = (if text = None then N else snd (notify_send Q now text N))"

definition notify_observed ::
    "'q queue_ops \<Rightarrow> int \<Rightarrow> power_state \<Rightarrow> bool \<Rightarrow> int \<Rightarrow> int \<Rightarrow> 'q notify \<Rightarrow> 'q notify" where
  "notify_observed Q t now low soc rt N =
     (let cfg = n_cfg N;
          was = n_power N;
          (go, N) = (if now \<noteq> was \<and> was \<noteq> PWR_UNKNOWN then guard_allows now t N else (False, N));
          N = (if go then send_alert Q t (power_alert cfg was now soc rt) N else N);
          N = send_alert Q t (low_alert cfg (n_low_batt N) low soc rt) N;
          N = send_alert Q t (unlow_alert cfg (n_low_batt N) low now) N;
          (d, still) = decile_step cfg now soc rt (n_batt_decile N);
          N = send_alert Q t still (N\<lparr>n_batt_decile := d\<rparr>)
      in N\<lparr>n_power := now, n_low_batt := low\<rparr>)"

definition notify_ups_status :: "'q queue_ops \<Rightarrow> int \<Rightarrow> string option \<Rightarrow> int \<Rightarrow> int \<Rightarrow> 'q notify \<Rightarrow> 'q notify" where
  "notify_ups_status Q t status soc rt N =
     (case status of
        None \<Rightarrow> N
      | Some status \<Rightarrow>
          if \<not> n_started N then N
          else if \<not> nc_enabled (n_cfg N) then N
          else case classify status of
                 None \<Rightarrow> N
               | Some now \<Rightarrow> notify_observed Q t now (contains ''LB'' status) soc rt N)"

section \<open>Life cycle\<close>

definition notify_reconfigure :: "notify_config option \<Rightarrow> 'q notify \<Rightarrow> 'q notify" where
  "notify_reconfigure cfg N =
     (case cfg of None \<Rightarrow> N | Some cfg \<Rightarrow> if n_cfg_lock N then N\<lparr>n_cfg := cfg\<rparr> else N)"

definition with_label :: "string option \<Rightarrow> string \<Rightarrow> string" where
  "with_label label text =
     (case label of None \<Rightarrow> text | Some l \<Rightarrow> (if l \<noteq> [] then l else []) @ (if l \<noteq> [] then '': '' else []) @ text)"

definition notify_send_test ::
    "tg_env \<Rightarrow> notify_config \<Rightarrow> string option \<Rightarrow> string \<Rightarrow> nat \<Rightarrow> tg_state \<Rightarrow> (int \<times> string) \<times> tg_state" where
  "notify_send_test T cfg label err err_sz ts =
     telegram_post T cfg
       (snprintf_buf MSG_MAX (with_label label (''Test message'' @ EM_DASH @ ''notifications are working.''))) err err_sz ts"

text \<open>\<open>lock\<close>, \<open>queue\<close> and \<open>task\<close> are the results of creating the mutex, the queue and the worker task.\<close>

definition notify_start ::
    "bool \<Rightarrow> 'q option \<Rightarrow> bool \<Rightarrow> notify_config \<Rightarrow> string option \<Rightarrow> 'q notify \<Rightarrow> int \<times> 'q notify" where
  "notify_start lock queue task cfg label N =
     (if n_started N then (0, notify_reconfigure (Some cfg) N)
      else
        let N = N\<lparr>n_cfg_lock := lock, n_q := queue\<rparr>
        in if \<not> lock \<or> queue = None then (- 1, N)
           else
             let N = N\<lparr>n_cfg := cfg, n_label := strlcpy 40 (case label of None \<Rightarrow> [] | Some l \<Rightarrow> l),
                       n_power := PWR_UNKNOWN, n_low_batt := False, n_last_event_state := PWR_UNKNOWN,
                       n_batt_decile := - 1\<rparr>
             in if \<not> task then (- 1, N) else (0, N\<lparr>n_started := True\<rparr>))"

section \<open>What a status call puts into the queue\<close>

definition stamp :: "string \<Rightarrow> int \<Rightarrow> string \<Rightarrow> msg" where
  "stamp label t text =
     \<lparr>m_text = snprintf_buf MSG_MAX ((if label \<noteq> [] then label @ '': '' else []) @ text), m_queued_us = t\<rparr>"

fun push_all :: "'q queue_ops \<Rightarrow> msg list \<Rightarrow> 'q option \<Rightarrow> 'q option" where
  "push_all Q [] q = q"
| "push_all Q (m # ms) q = push_all Q ms (case Option.bind q (\<lambda>q. q_send Q q m) of None \<Rightarrow> q | Some q' \<Rightarrow> Some q')"

lemma push_all_append: "push_all Q (ms @ ms') q = push_all Q ms' (push_all Q ms q)"
  by (induction ms arbitrary: q) auto


definition opt_list :: "'a option \<Rightarrow> 'a list" where
  "opt_list x = (case x of None \<Rightarrow> [] | Some y \<Rightarrow> [y])"

lemma opt_list_simps [simp]: "opt_list None = []" "opt_list (Some y) = [y]"
  by (simp_all add: opt_list_def)

lemma send_alert_eq:
  assumes "n_started N" "nc_enabled (n_cfg N)"
  shows "send_alert Q t text N = N\<lparr>n_q := push_all Q (map (stamp (n_label N) t) (opt_list text)) (n_q N)\<rparr>"
  using assms by (cases "text") (auto simp: send_alert_def notify_send_def stamp_def split: option.splits)

lemma queue_ok_send:
  assumes "queue_ok Q contents" "length (contents q) < QUEUE_DEPTH"
  obtains q' where "q_send Q q m = Some q'" "contents q' = contents q @ [m]"
proof -
  from assms have "case q_send Q q m of None \<Rightarrow> False | Some q' \<Rightarrow> contents q' = contents q @ [m]"
    unfolding queue_ok_def by meson
  then show thesis using that by (cases "q_send Q q m") auto
qed

lemma queue_ok_full: "queue_ok Q contents \<Longrightarrow> \<not> length (contents q) < QUEUE_DEPTH \<Longrightarrow> q_send Q q m = None"
  unfolding queue_ok_def by meson

lemma push_all_contents:
  assumes "queue_ok Q contents"
  shows "\<exists>q'. push_all Q ms (Some q) = Some q' \<and> contents q' = contents q @ take (QUEUE_DEPTH - length (contents q)) ms"
proof (induction ms arbitrary: q)
  case (Cons m ms)
  show ?case
  proof (cases "length (contents q) < QUEUE_DEPTH")
    case True
    with assms obtain q1 where q1: "q_send Q q m = Some q1" "contents q1 = contents q @ [m]"
      by (rule queue_ok_send)
    have d: "QUEUE_DEPTH - length (contents q) = Suc (QUEUE_DEPTH - length (contents q1))"
      using True q1 by simp
    from Cons.IH [of q1] q1 show ?thesis unfolding d by simp
  next
    case False
    with assms have "q_send Q q m = None" by (rule queue_ok_full)
    then show ?thesis using Cons.IH [of q] False by simp
  qed
qed simp

section \<open>The history of observations\<close>

record observation =
  ob_power :: power_state
  ob_low :: bool
  ob_soc :: int

definition observe :: "string \<Rightarrow> int \<Rightarrow> observation option" where
  "observe status soc =
     map_option (\<lambda>p. \<lparr>ob_power = p, ob_low = contains ''LB'' status, ob_soc = soc\<rparr>) (classify status)"

text \<open>The observations since the mains were last seen, latest first.\<close>

definition outage :: "observation list \<Rightarrow> observation list" where
  "outage h = takeWhile (\<lambda>b. ob_power b = PWR_BATTERY) (rev h)"

definition last_power :: "observation list \<Rightarrow> power_state" where
  "last_power h = (if h = [] then PWR_UNKNOWN else ob_power (last h))"

definition last_low :: "observation list \<Rightarrow> bool" where
  "last_low h \<longleftrightarrow> h \<noteq> [] \<and> ob_low (last h)"

definition lowest_decile :: "observation list \<Rightarrow> int" where
  "lowest_decile obs = (if obs = [] then - 1 else Min (set (map (\<lambda>b. ob_soc b sdiv 10) obs)))"

text \<open>The messages a status raises after a history: no clock enters.\<close>

definition due_alerts :: "notify_config \<Rightarrow> observation list \<Rightarrow> string \<Rightarrow> int \<Rightarrow> int \<Rightarrow> string list" where
  "due_alerts cfg h status soc rt =
     (case observe status soc of
        None \<Rightarrow> []
      | Some b \<Rightarrow>
          opt_list (if h \<noteq> [] \<and> ob_power b \<noteq> last_power h then power_alert cfg (last_power h) (ob_power b) soc rt else None) @
          opt_list (low_alert cfg (last_low h) (ob_low b) soc rt) @
          opt_list (unlow_alert cfg (last_low h) (ob_low b) (ob_power b)) @
          opt_list (if ob_power b = PWR_BATTERY \<and> nc_on_battery_pct cfg \<and> outage h \<noteq> [] \<and>
                       soc sdiv 10 < lowest_decile (outage h)
                    then Some (still_text soc rt) else None))"

section \<open>Runs\<close>

text \<open>What happens to a started notifier: a status arrives, another component sends a text, or the
  worker has taken from the queue.\<close>

datatype 'q notify_event = Status int string int int | SendText int string | QueueNow 'q

fun notify_step :: "'q queue_ops \<Rightarrow> 'q notify_event \<Rightarrow> 'q notify \<Rightarrow> 'q notify" where
  "notify_step Q (Status t status soc rt) N = notify_ups_status Q t (Some status) soc rt N"
| "notify_step Q (SendText t m) N = snd (notify_send Q t (Some m) N)"
| "notify_step Q (QueueNow q) N = N\<lparr>n_q := Some q\<rparr>"

fun history :: "'q notify_event list \<Rightarrow> observation list" where
  "history [] = []"
| "history (Status t status soc rt # evs) = opt_list (observe status soc) @ history evs"
| "history (_ # evs) = history evs"

fun charge_known :: "'q notify_event \<Rightarrow> bool" where
  "charge_known (Status t status soc rt) \<longleftrightarrow> 0 \<le> soc"
| "charge_known _ \<longleftrightarrow> True"

definition tracks :: "notify_config \<Rightarrow> string \<Rightarrow> observation list \<Rightarrow> 'q notify \<Rightarrow> bool" where
  "tracks cfg label h N \<longleftrightarrow>
     n_started N \<and> n_cfg N = cfg \<and> n_label N = label \<and> n_q N \<noteq> None \<and>
     n_power N = last_power h \<and> (n_low_batt N \<longleftrightarrow> last_low h) \<and>
     (n_last_event_state N = PWR_UNKNOWN \<or> n_last_event_state N = n_power N) \<and>
     n_batt_decile N = (if nc_on_battery_pct cfg then lowest_decile (outage h) else - 1)"

lemma classify_known: "classify s = Some p \<Longrightarrow> p \<noteq> PWR_UNKNOWN"
  by (auto simp: classify_def split: if_splits)

lemma push_all_Some: "push_all Q ms (Some q) \<noteq> None"
  by (induction ms arbitrary: q) (auto split: option.split)

lemma push_all_not_None [simp]: "q \<noteq> None \<Longrightarrow> push_all Q ms q \<noteq> None"
  using push_all_Some by (cases q) auto

lemma outage_snoc: "outage (h @ [b]) = (if ob_power b = PWR_BATTERY then b # outage h else [])"
  by (simp add: outage_def)

lemma last_power_snoc [simp]: "last_power (h @ [b]) = ob_power b" "last_low (h @ [b]) = ob_low b"
  by (simp_all add: last_power_def last_low_def)

lemma lowest_decile_Cons:
  "lowest_decile (b # bs) = (if bs = [] then ob_soc b sdiv 10 else min (ob_soc b sdiv 10) (lowest_decile bs))"
  by (simp add: lowest_decile_def)

lemma decile_nonneg: "0 \<le> soc \<Longrightarrow> 0 \<le> soc sdiv (10::int)"
  by (cases "soc = 0") (auto simp: signed_divide_int_def pos_imp_zdiv_nonneg_iff)

lemma lowest_decile_neg: "\<forall>b \<in> set bs. 0 \<le> ob_soc b \<Longrightarrow> lowest_decile bs < 0 \<longleftrightarrow> bs = []"
  by (auto simp: lowest_decile_def decile_nonneg not_less)

text \<open>The guard lets every change of the power state through.\<close>

lemma tracks_guard:
  assumes "tracks cfg label h N" "now \<noteq> n_power N" "now \<noteq> PWR_UNKNOWN"
  shows "guard_allows now t N = (True, N\<lparr>n_last_event_state := now, n_last_event_us := t\<rparr>)"
  using assms by (auto simp: tracks_def guard_allows_def)

lemma history_outage: "set (outage h) \<subseteq> set h"
  unfolding outage_def by (metis set_rev set_takeWhileD subsetI)

lemma decile_step_tracks:
  assumes "\<forall>b \<in> set h. 0 \<le> ob_soc b"
    "tracked = (if nc_on_battery_pct cfg then lowest_decile (outage h) else - 1)"
    "b = \<lparr>ob_power = now, ob_low = low, ob_soc = soc\<rparr>"
  shows "decile_step cfg now soc rt tracked =
    (if nc_on_battery_pct cfg then lowest_decile (outage (h @ [b])) else - 1,
     if now = PWR_BATTERY \<and> nc_on_battery_pct cfg \<and> outage h \<noteq> [] \<and> soc sdiv 10 < lowest_decile (outage h)
     then Some (still_text soc rt) else None)"
proof -
  have "\<forall>b \<in> set (outage h). 0 \<le> ob_soc b" using assms(1) history_outage by blast
  from lowest_decile_neg [OF this] show ?thesis
    using assms(2,3) by (auto simp: decile_step_def outage_snoc lowest_decile_Cons Let_def lowest_decile_def [of "[]"])
qed

lemma observed_shape:
  assumes tr: "tracks cfg label h N" and en: "nc_enabled cfg" and soc: "\<forall>b \<in> set h. 0 \<le> ob_soc b"
    and known: "now \<noteq> PWR_UNKNOWN" "\<forall>b \<in> set h. ob_power b \<noteq> PWR_UNKNOWN"
    and b: "b = \<lparr>ob_power = now, ob_low = low, ob_soc = soc\<rparr>"
  shows "\<exists>ts es. notify_observed Q t now low soc rt N =
     N\<lparr>n_q := push_all Q (map (stamp label t)
         (opt_list (if h \<noteq> [] \<and> now \<noteq> last_power h then power_alert cfg (last_power h) now soc rt else None) @
          opt_list (low_alert cfg (last_low h) low soc rt) @
          opt_list (unlow_alert cfg (last_low h) low now) @
          opt_list (if now = PWR_BATTERY \<and> nc_on_battery_pct cfg \<and> outage h \<noteq> [] \<and>
                       soc sdiv 10 < lowest_decile (outage h)
                    then Some (still_text soc rt) else None))) (n_q N),
       n_power := now, n_low_batt := low, n_last_event_us := ts, n_last_event_state := es,
       n_batt_decile := (if nc_on_battery_pct cfg then lowest_decile (outage (h @ [b])) else - 1)\<rparr> \<and>
     (es = PWR_UNKNOWN \<or> es = now)"
proof -
  from tr have f: "n_started N" "n_cfg N = cfg" "n_label N = label" "n_power N = last_power h"
    "n_low_batt N = last_low h" 
    and dec: "n_batt_decile N = (if nc_on_battery_pct cfg then lowest_decile (outage h) else - 1)"
    by (auto simp: tracks_def)
  have unk: "last_power h \<noteq> PWR_UNKNOWN \<longleftrightarrow> h \<noteq> []"
    using known(2) by (auto simp: last_power_def)
  note d = decile_step_tracks [OF soc dec b]
  have eval: "notify_observed Q t now low soc rt N = N\<lparr>n_q := push_all Q (map (stamp label t)
         (opt_list (if go then power_alert cfg (last_power h) now soc rt else None) @
          opt_list (low_alert cfg (last_low h) low soc rt) @
          opt_list (unlow_alert cfg (last_low h) low now) @
          opt_list (if now = PWR_BATTERY \<and> nc_on_battery_pct cfg \<and> outage h \<noteq> [] \<and>
                       soc sdiv 10 < lowest_decile (outage h)
                    then Some (still_text soc rt) else None))) (n_q N),
       n_power := now, n_low_batt := low, n_last_event_us := ts, n_last_event_state := es,
       n_batt_decile := (if nc_on_battery_pct cfg then lowest_decile (outage (h @ [b])) else - 1)\<rparr>"
    if "(if now \<noteq> n_power N \<and> n_power N \<noteq> PWR_UNKNOWN then guard_allows now t N else (False, N)) =
      (go, N\<lparr>n_last_event_us := ts, n_last_event_state := es\<rparr>)" for go ts es
    using f en unfolding notify_observed_def that Let_def
    by (cases go) (simp_all add: d send_alert_eq push_all_append)
  show ?thesis
  proof (cases "h \<noteq> [] \<and> now \<noteq> last_power h")
    case True
    have "guard_allows now t N = (True, N\<lparr>n_last_event_us := t, n_last_event_state := now\<rparr>)"
      using tracks_guard [OF tr _ known(1), of t] True f by simp
    then have "(if now \<noteq> n_power N \<and> n_power N \<noteq> PWR_UNKNOWN then guard_allows now t N else (False, N)) =
      (True, N\<lparr>n_last_event_us := t, n_last_event_state := now\<rparr>)"
      using True unk f by simp
    from eval [OF this] True show ?thesis by (intro exI [of _ t] exI [of _ now]) simp
  next
    case False
    then have go: "\<not> (now \<noteq> n_power N \<and> n_power N \<noteq> PWR_UNKNOWN)" using f unk by auto
    have es: "n_last_event_state N = PWR_UNKNOWN \<or> n_last_event_state N = now"
      using tr go unk by (auto simp: tracks_def last_power_def)
    have "(if now \<noteq> n_power N \<and> n_power N \<noteq> PWR_UNKNOWN then guard_allows now t N else (False, N)) =
      (False, N\<lparr>n_last_event_us := n_last_event_us N, n_last_event_state := n_last_event_state N\<rparr>)"
      using go by (cases N) auto
    note e = eval [OF this]
    have "(if False then power_alert cfg (last_power h) now soc rt else None) =
      (if h \<noteq> [] \<and> now \<noteq> last_power h then power_alert cfg (last_power h) now soc rt else None)"
      using False by auto
    from e [unfolded this] es show ?thesis by blast
  qed
qed

lemma observe_power: "observe status soc = Some b \<Longrightarrow> ob_power b \<noteq> PWR_UNKNOWN"
  by (auto simp: observe_def classify_known)

lemma history_known: "b \<in> set (history evs) \<Longrightarrow> ob_power b \<noteq> PWR_UNKNOWN"
  by (induction evs rule: history.induct) (auto simp: opt_list_def observe_power split: option.splits)

lemma history_charge: "\<forall>ev \<in> set evs. charge_known ev \<Longrightarrow> b \<in> set (history evs) \<Longrightarrow> 0 \<le> ob_soc b"
  by (induction evs rule: history.induct) (auto simp: opt_list_def observe_def split: option.splits)

lemma history_append: "history (evs @ evs') = history evs @ history evs'"
  by (induction evs rule: history.induct) auto

lemma status_tracks:
  assumes tr: "tracks cfg label h N" and en: "nc_enabled cfg" and soc: "\<forall>b \<in> set h. 0 \<le> ob_soc b"
    and known: "\<forall>b \<in> set h. ob_power b \<noteq> PWR_UNKNOWN"
  shows "tracks cfg label (h @ opt_list (observe status soc)) (notify_ups_status Q t (Some status) soc rt N) \<and>
     n_q (notify_ups_status Q t (Some status) soc rt N) =
       push_all Q (map (stamp label t) (due_alerts cfg h status soc rt)) (n_q N)"
proof (cases "classify status")
  case None
  then show ?thesis using tr by (simp add: notify_ups_status_def due_alerts_def observe_def)
next
  case (Some now)
  let ?b = "\<lparr>ob_power = now, ob_low = contains ''LB'' status, ob_soc = soc\<rparr>"
  define N' where "N' = notify_ups_status Q t (Some status) soc rt N"
  have N': "N' = notify_observed Q t now (contains ''LB'' status) soc rt N"
    using tr en by (simp add: N'_def notify_ups_status_def Some tracks_def)
  have due: "due_alerts cfg h status soc rt =
     opt_list (if h \<noteq> [] \<and> now \<noteq> last_power h then power_alert cfg (last_power h) now soc rt else None) @
     opt_list (low_alert cfg (last_low h) (contains ''LB'' status) soc rt) @
     opt_list (unlow_alert cfg (last_low h) (contains ''LB'' status) now) @
     opt_list (if now = PWR_BATTERY \<and> nc_on_battery_pct cfg \<and> outage h \<noteq> [] \<and> soc sdiv 10 < lowest_decile (outage h)
               then Some (still_text soc rt) else None)"
    by (simp add: due_alerts_def observe_def Some)
  from observed_shape [OF tr en soc classify_known [OF Some] known refl, of Q t "contains ''LB'' status" soc rt]
  obtain ts es where e: "N' =
     N\<lparr>n_q := push_all Q (map (stamp label t) (due_alerts cfg h status soc rt)) (n_q N),
       n_power := now, n_low_batt := contains ''LB'' status, n_last_event_us := ts, n_last_event_state := es,
       n_batt_decile := (if nc_on_battery_pct cfg then lowest_decile (outage (h @ [?b])) else - 1)\<rparr>"
    and es: "es = PWR_UNKNOWN \<or> es = now"
    unfolding due N' by blast
  have ob: "h @ opt_list (observe status soc) = h @ [?b]" by (simp add: observe_def Some)
  have "n_q N' = push_all Q (map (stamp label t) (due_alerts cfg h status soc rt)) (n_q N)"
    unfolding e by simp
  moreover have "tracks cfg label (h @ [?b]) N'"
    unfolding e using es tr by (simp add: tracks_def)
  ultimately show ?thesis unfolding ob N'_def by simp
qed

lemma send_tracks: "tracks cfg label h N \<Longrightarrow> tracks cfg label h (snd (notify_send Q t m N))"
  by (auto simp: tracks_def notify_send_def split: option.splits)

lemma queue_tracks: "tracks cfg label h N \<Longrightarrow> tracks cfg label h (N\<lparr>n_q := Some q\<rparr>)"
  by (auto simp: tracks_def)

lemma run_tracks:
  assumes "tracks cfg label [] N" "nc_enabled cfg" "\<forall>ev \<in> set evs. charge_known ev"
  shows "tracks cfg label (history evs) (fold (notify_step Q) evs N)"
  using assms(3)
proof (induction evs rule: rev_induct)
  case (snoc ev evs)
  then have IH: "tracks cfg label (history evs) (fold (notify_step Q) evs N)"
    and soc: "\<forall>b \<in> set (history evs). 0 \<le> ob_soc b" using history_charge by auto
  have known: "\<forall>b \<in> set (history evs). ob_power b \<noteq> PWR_UNKNOWN" using history_known by blast
  show ?case
    using status_tracks [OF IH assms(2) soc known] send_tracks [OF IH] queue_tracks [OF IH]
    by (cases ev) (simp_all add: history_append)
qed (use assms(1) in simp)

lemma started_tracks:
  assumes "notify_start lock queue task cfg label N0 = (0, N)" "\<not> n_started N0"
  shows "tracks cfg (n_label N) [] N"
  using assms by (auto simp: notify_start_def tracks_def last_power_def last_low_def lowest_decile_def outage_def
      Let_def split: if_splits)

text \<open>C21: The messages a status raises are exactly those the history of statuses calls for, in order, as
  many as the queue has room for: a power transition is announced whenever the latest meaningful
  status before it was different (and it was not the first), a low battery at its edge, a reminder
  whenever the charge falls to a decile below every one seen since the mains were lost. No clock enters: the guard
  against repeats never holds a transition back, so a flapping supply is announced at every flap.\<close>

theorem alerts_follow_history:
  assumes "queue_ok Q contents" "notify_start lock queue task cfg label N0 = (0, N)" "\<not> n_started N0"
    "nc_enabled cfg" "\<forall>ev \<in> set evs. charge_known ev"
    "N' = fold (notify_step Q) evs N" "n_q N' = Some q"
  shows "\<exists>q'. n_q (notify_ups_status Q t (Some status) soc rt N') = Some q' \<and>
    contents q' = contents q @ take (QUEUE_DEPTH - length (contents q))
      (map (stamp (n_label N) t) (due_alerts cfg (history evs) status soc rt))"
proof -
  from run_tracks [OF started_tracks [OF assms(2,3)] assms(4,5)]
  have tr: "tracks cfg (n_label N) (history evs) N'" unfolding assms(6) .
  have soc: "\<forall>b \<in> set (history evs). 0 \<le> ob_soc b" using history_charge [OF assms(5)] by blast
  have known: "\<forall>b \<in> set (history evs). ob_power b \<noteq> PWR_UNKNOWN" using history_known by blast
  from status_tracks [OF tr assms(4) soc known] push_all_contents [OF assms(1)] assms(7)
  show ?thesis by simp
qed

definition list_queue :: "msg list queue_ops" where
  "list_queue =
     \<lparr>q_send = (\<lambda>q m. if length q < QUEUE_DEPTH then Some (q @ [m]) else None),
      q_receive = (\<lambda>q. case q of [] \<Rightarrow> None | m # ms \<Rightarrow> Some (m, ms))\<rparr>"

lemma list_queue_ok: "queue_ok list_queue (\<lambda>q. q)"
  by (auto simp: queue_ok_def list_queue_def split: list.split)

definition ex_notify_config :: notify_config where
  "ex_notify_config = \<lparr>nc_enabled = True, nc_bot_token = ''1:A'', nc_chat_id = ''7'', nc_on_power = True,
     nc_on_low_batt = True, nc_on_link = False, nc_on_battery_pct = False\<rparr>"

definition notify_zero :: "'q notify" where
  "notify_zero = \<lparr>n_cfg = ex_notify_config, n_label = [], n_q = None, n_started = False, n_cfg_lock = False,
     n_power = PWR_UNKNOWN, n_low_batt = False, n_last_event_us = 0, n_last_event_state = PWR_UNKNOWN, n_batt_decile = 0\<rparr>"

definition ex_notify :: "msg list notify" where
  "ex_notify = snd (notify_start True (Some []) True ex_notify_config (Some ''ups'') notify_zero)"

definition ex_flaps :: "msg list notify_event list" where
  "ex_flaps = [Status 0 ''OL'' 80 (- 1), Status 1000000 ''OB DISCHRG'' 80 (- 1), Status 2000000 ''OL'' 80 (- 1), QueueNow []]"

lemma ex_flaps_due:
  "due_alerts ex_notify_config (history ex_flaps) ''OB DISCHRG'' 79 (- 1) = [lost_text 79 (- 1)]"
  by (simp add: due_alerts_def ex_flaps_def observe_def classify_def last_power_def last_low_def low_alert_def
      unlow_alert_def power_alert_def ex_notify_config_def outage_def has_prefix_def)

theorem alerts_follow_history_witness:
  "\<exists>q'. n_q (notify_ups_status list_queue 3000000 (Some ''OB DISCHRG'') 79 (- 1)
           (fold (notify_step list_queue) ex_flaps ex_notify)) = Some q' \<and>
    q' = [stamp ''ups'' 3000000 (lost_text 79 (- 1))]"
proof -
  have st: "notify_start True (Some []) True ex_notify_config (Some ''ups'') notify_zero = (0, ex_notify)"
    by (simp add: ex_notify_def notify_start_def notify_zero_def)
  have lab: "n_label ex_notify = ''ups''"
    by (simp add: ex_notify_def notify_start_def notify_zero_def strlcpy_def)
  have q: "n_q (fold (notify_step list_queue) ex_flaps ex_notify) = Some []"
    by (simp add: ex_flaps_def)
  have ev: "\<not> n_started (notify_zero :: msg list notify)" "nc_enabled ex_notify_config" "\<forall>ev \<in> set ex_flaps. charge_known ev"
    by (simp_all add: notify_zero_def ex_notify_config_def ex_flaps_def)
  from alerts_follow_history [OF list_queue_ok st ev refl q, of 3000000 "''OB DISCHRG''" 79 "- 1"]
  show ?thesis unfolding ex_flaps_due lab by simp
qed

section \<open>Delivery\<close>

definition post_ok :: "tg_answer \<Rightarrow> bool" where
  "post_ok a \<longleftrightarrow> tg_object_ok a \<and> tg_print_ok a \<and> tg_client_ok a \<and> tg_open_rc a = 0 \<and> tg_status a = 200"

definition post_url :: "notify_config \<Rightarrow> string" where
  "post_url cfg = snprintf_buf 128 (''https://api.telegram.org/bot'' @ nc_bot_token cfg @ ''/sendMessage'')"

lemma telegram_post_ok:
  assumes "nc_bot_token cfg \<noteq> []" "nc_chat_id cfg \<noteq> []" "post_ok (tg_answers T (tg_k ts))"
  shows "telegram_post T cfg text err n ts =
    ((0, err), ts\<lparr>tg_k := Suc (tg_k ts), tg_sent := tg_sent ts @ [(post_url cfg, tg_json T (nc_chat_id cfg) text)]\<rparr>)"
  using assms by (simp add: telegram_post_def post_ok_def post_url_def Let_def)

lemma telegram_post_bad:
  assumes "nc_bot_token cfg \<noteq> []" "nc_chat_id cfg \<noteq> []" "\<not> post_ok (tg_answers T (tg_k ts))"
  obtains e ts' where "telegram_post T cfg text err n ts = ((- 1, e), ts')" "tg_k ts' = Suc (tg_k ts)"
proof -
  have "fst (fst (telegram_post T cfg text err n ts)) = - 1 \<and> tg_k (snd (telegram_post T cfg text err n ts)) = Suc (tg_k ts)"
    using assms by (simp add: telegram_post_def post_ok_def Let_def)
  then show thesis using that by (cases "telegram_post T cfg text err n ts", cases "fst (telegram_post T cfg text err n ts)") auto
qed

lemma backoff_le: "backoff_ms a \<le> BACKOFF_CAP_MS"
  by (simp add: backoff_ms_def Let_def)

lemma backoff_first: "backoff_ms 1 = 5000" "backoff_ms 2 = 15000" "backoff_ms 3 = 45000" "backoff_ms 4 = 135000"
proof -
  have loop: "backoff_loop 1 5000 = 15000" "backoff_loop 2 5000 = 45000" "backoff_loop 3 5000 = 135000"
    unfolding One_nat_def numeral_2_eq_2 numeral_3_eq_3 backoff_loop.simps by simp_all
  show "backoff_ms 1 = 5000" "backoff_ms 2 = 15000" "backoff_ms 3 = 45000" "backoff_ms 4 = 135000"
    using loop by (simp_all add: backoff_ms_def)
qed

definition waited :: "nat \<Rightarrow> nat" where
  "waited a = sum_list (map backoff_ms [1..<Suc a])"

lemma waited_le: "a < SEND_ATTEMPTS \<Longrightarrow> waited a \<le> 3200000"
proof -
  assume "a < SEND_ATTEMPTS"
  then have "[1..<SEND_ATTEMPTS] = [1..<Suc a] @ [Suc a..<SEND_ATTEMPTS]"
    using upt_add_eq_append [of 1 "Suc a" "SEND_ATTEMPTS - Suc a"] by simp
  then have "waited a \<le> sum_list (map backoff_ms [1..<SEND_ATTEMPTS])" by (simp add: waited_def)
  also have "[1..<SEND_ATTEMPTS] = [1, 2, 3, 4, 5, 6, 7, 8, 9, 10, 11, 12, 13, 14]" by code_simp
  also have "sum_list (map backoff_ms \<dots>) \<le> 3200000"
    using backoff_le [of 5] backoff_le [of 6] backoff_le [of 7] backoff_le [of 8] backoff_le [of 9] backoff_le [of 10]
      backoff_le [of 11] backoff_le [of 12] backoff_le [of 13] backoff_le [of 14] backoff_first
    by simp
  finally show ?thesis .
qed

lemma waited_Suc: "waited (Suc a) = waited a + backoff_ms (Suc a)"
  by (simp add: waited_def)

lemma worker_settles:
  assumes "nc_bot_token (n_cfg N) \<noteq> []" "nc_chat_id (n_cfg N) \<noteq> []" "nc_enabled (n_cfg N)"
    "wk_held w = Some m" "wk_attempt w = a" "a < SEND_ATTEMPTS" "sum_list (wk_delays w) = waited a"
    "length nows = SEND_ATTEMPTS - a"
  shows "\<exists>n w' ts'. 0 < n \<and> n \<le> SEND_ATTEMPTS - a \<and> fold (worker T Q) (take n nows) (N, w, ts) = (N, w', ts') \<and>
     wk_held w' = None \<and> tg_k ts' = tg_k ts + n \<and> sum_list (wk_delays w') \<le> 3200000 \<and>
     (\<forall>i < n - 1. \<not> post_ok (tg_answers T (tg_k ts + i))) \<and>
     (if post_ok (tg_answers T (tg_k ts + (n - 1)))
      then last (tg_sent ts') = (post_url (n_cfg N), tg_json T (nc_chat_id (n_cfg N)) (late_text m (nows ! (n - 1))))
      else n = SEND_ATTEMPTS - a)"
  using assms(4-)
proof (induction "SEND_ATTEMPTS - a" arbitrary: a w ts nows)
  case 0
  then show ?case by simp
next
  case (Suc d)
  from Suc.hyps(2) Suc.prems obtain t nows' where nows: "nows = t # nows'" by (cases nows) auto
  have take1: "worker_take Q (N, w) = (N, w)" using Suc.prems by (simp add: worker_take_def)
  show ?case
  proof (cases "post_ok (tg_answers T (tg_k ts))")
    case True
    have "worker T Q t (N, w, ts) = (N, w\<lparr>wk_held := None\<rparr>, ts\<lparr>tg_k := Suc (tg_k ts),
        tg_sent := tg_sent ts @ [(post_url (n_cfg N), tg_json T (nc_chat_id (n_cfg N)) (late_text m t))]\<rparr>)"
      using Suc.prems assms(1-3) True take1 by (simp add: worker_def worker_deliver_def telegram_post_ok)
    then show ?thesis using Suc.prems True waited_le [of a] by (intro exI [of _ 1]) (simp add: nows)
  next
    case False
    obtain e ts1 where post: "telegram_post T (n_cfg N) (late_text m t) [] 96 ts = ((- 1, e), ts1)"
      "tg_k ts1 = Suc (tg_k ts)"
      by (rule telegram_post_bad [OF assms(1,2) False])
    show ?thesis
    proof (cases "Suc a \<ge> SEND_ATTEMPTS")
      case True
      have "worker T Q t (N, w, ts) = (N, w\<lparr>wk_attempt := Suc a, wk_held := None\<rparr>, ts1)"
        using Suc.prems assms(3) post True take1 by (simp add: worker_def worker_deliver_def)
      then show ?thesis using Suc.prems True False waited_le [of a] post by (intro exI [of _ 1]) (simp add: nows)
    next
      case more: False
      let ?w = "w\<lparr>wk_attempt := Suc a, wk_delays := wk_delays w @ [backoff_ms (Suc a)]\<rparr>"
      have step: "worker T Q t (N, w, ts) = (N, ?w, ts1)"
        using Suc.prems assms(3) post more take1 by (simp add: worker_def worker_deliver_def)
      have "\<exists>n w' ts'. 0 < n \<and> n \<le> SEND_ATTEMPTS - Suc a \<and> fold (worker T Q) (take n nows') (N, ?w, ts1) = (N, w', ts') \<and>
         wk_held w' = None \<and> tg_k ts' = tg_k ts1 + n \<and> sum_list (wk_delays w') \<le> 3200000 \<and>
         (\<forall>i < n - 1. \<not> post_ok (tg_answers T (tg_k ts1 + i))) \<and>
         (if post_ok (tg_answers T (tg_k ts1 + (n - 1)))
          then last (tg_sent ts') = (post_url (n_cfg N), tg_json T (nc_chat_id (n_cfg N)) (late_text m (nows' ! (n - 1))))
          else n = SEND_ATTEMPTS - Suc a)"
        using Suc.prems Suc.hyps(2) more nows by (intro Suc.hyps(1)) (auto simp: waited_Suc)
      then obtain n w' ts' where IH: "0 < n" "n \<le> SEND_ATTEMPTS - Suc a"
        "fold (worker T Q) (take n nows') (N, ?w, ts1) = (N, w', ts')"
        "wk_held w' = None" "tg_k ts' = tg_k ts1 + n" "sum_list (wk_delays w') \<le> 3200000"
        "\<forall>i < n - 1. \<not> post_ok (tg_answers T (tg_k ts1 + i))"
        "if post_ok (tg_answers T (tg_k ts1 + (n - 1)))
         then last (tg_sent ts') = (post_url (n_cfg N), tg_json T (nc_chat_id (n_cfg N)) (late_text m (nows' ! (n - 1))))
         else n = SEND_ATTEMPTS - Suc a" by blast
      then obtain k where k: "n = Suc k" by (cases n) auto
      have "\<forall>i < n. \<not> post_ok (tg_answers T (tg_k ts + i))"
        using IH(7) False post(2) k by (auto simp: less_Suc_eq_0_disj)
      then show ?thesis using IH step nows post(2) k more
        by (intro exI [of _ "Suc n"] exI [of _ w'] exI [of _ ts']) (auto split: if_splits)
    qed
  qed
qed

text \<open>A message the worker has taken is settled within fifteen attempts and at most 3200 seconds of
  delays, whatever the network does: every attempt before the last failed, the message goes out at
  the first attempt that succeeds, and only a message that failed all fifteen is dropped.\<close>

theorem message_settled_in_time:
  assumes "nc_enabled (n_cfg N)" "nc_bot_token (n_cfg N) \<noteq> []" "nc_chat_id (n_cfg N) \<noteq> []"
    "wk_held w = Some m" "wk_attempt w = 0" "wk_delays w = []" "length nows = SEND_ATTEMPTS"
  shows "\<exists>n w' ts'. 0 < n \<and> n \<le> SEND_ATTEMPTS \<and> fold (worker T Q) (take n nows) (N, w, ts) = (N, w', ts') \<and>
     wk_held w' = None \<and> tg_k ts' = tg_k ts + n \<and> sum_list (wk_delays w') \<le> 3200000 \<and>
     (\<forall>i < n - 1. \<not> post_ok (tg_answers T (tg_k ts + i))) \<and>
     (if post_ok (tg_answers T (tg_k ts + (n - 1)))
      then last (tg_sent ts') = (post_url (n_cfg N), tg_json T (nc_chat_id (n_cfg N)) (late_text m (nows ! (n - 1))))
      else n = SEND_ATTEMPTS)"
proof -
  have "sum_list (wk_delays w) = waited 0" by (simp add: assms(6) waited_def)
  from worker_settles [OF assms(2,3,1,4,5) _ this, of nows T Q ts] assms(7)
  show ?thesis by (simp only: diff_zero)
qed

definition ex_tg :: tg_env where
  "ex_tg = \<lparr>tg_json = (\<lambda>c m. c @ m),
     tg_answers = (\<lambda>k. \<lparr>tg_object_ok = True, tg_print_ok = True, tg_client_ok = True,
       tg_open_rc = (if k = 0 then 7 else 0), tg_status = 200, tg_resp = []\<rparr>),
     tg_err_name = (\<lambda>rc. ''ESP_FAIL'')\<rparr>"

theorem message_settled_in_time_witness:
  "\<exists>n w' ts'. 0 < n \<and> n \<le> SEND_ATTEMPTS \<and>
     fold (worker ex_tg list_queue) (take n (replicate SEND_ATTEMPTS 5))
       (ex_notify, \<lparr>wk_held = Some \<lparr>m_text = ''x'', m_queued_us = 0\<rparr>, wk_attempt = 0, wk_delays = []\<rparr>,
        \<lparr>tg_k = 0, tg_sent = []\<rparr>) = (ex_notify, w', ts') \<and>
     wk_held w' = None \<and> last (tg_sent ts') = (post_url ex_notify_config, ''7x'')"
proof -
  have cfg: "n_cfg ex_notify = ex_notify_config"
    by (simp add: ex_notify_def notify_start_def notify_zero_def)
  have creds: "nc_enabled (n_cfg ex_notify)" "nc_bot_token (n_cfg ex_notify) \<noteq> []" "nc_chat_id (n_cfg ex_notify) \<noteq> []"
    by (simp_all add: cfg ex_notify_config_def)
  let ?w = "\<lparr>wk_held = Some \<lparr>m_text = ''x'', m_queued_us = 0\<rparr>, wk_attempt = 0, wk_delays = []\<rparr>"
  let ?ts = "\<lparr>tg_k = 0, tg_sent = []\<rparr>"
  let ?nows = "replicate SEND_ATTEMPTS (5::int)"
  obtain n w' ts' where *: "0 < n" "n \<le> SEND_ATTEMPTS"
    "fold (worker ex_tg list_queue) (take n ?nows) (ex_notify, ?w, ?ts) = (ex_notify, w', ts')"
    "wk_held w' = None"
    "if post_ok (tg_answers ex_tg (tg_k ?ts + (n - 1)))
     then last (tg_sent ts') = (post_url (n_cfg ex_notify),
       tg_json ex_tg (nc_chat_id (n_cfg ex_notify)) (late_text \<lparr>m_text = ''x'', m_queued_us = 0\<rparr> (?nows ! (n - 1))))
     else n = SEND_ATTEMPTS"
    using message_settled_in_time [OF creds, of ?w "\<lparr>m_text = ''x'', m_queued_us = 0\<rparr>" ?nows ex_tg list_queue ?ts]
    by auto
  have "n \<noteq> 1" using *(5) by (auto simp: ex_tg_def post_ok_def)
  with *(1) have "post_ok (tg_answers ex_tg (tg_k ?ts + (n - 1)))" by (simp add: post_ok_def ex_tg_def)
  with *(5) have "last (tg_sent ts') = (post_url (n_cfg ex_notify),
     tg_json ex_tg (nc_chat_id (n_cfg ex_notify)) (late_text \<lparr>m_text = ''x'', m_queued_us = 0\<rparr> (?nows ! (n - 1))))"
    by (simp only: if_True)
  moreover have "?nows ! (n - 1) = 5" using *(1,2) by (intro nth_replicate) simp
  moreover have "late_text \<lparr>m_text = ''x'', m_queued_us = 0\<rparr> 5 = ''x''"
    by (simp add: late_text_def snprintf_buf_def)
  moreover have "tg_json ex_tg (nc_chat_id ex_notify_config) ''x'' = ''7x''"
    by (simp add: ex_tg_def ex_notify_config_def)
  ultimately have "last (tg_sent ts') = (post_url ex_notify_config, ''7x'')" by (simp only: cfg)
  with * show ?thesis by blast
qed

end
