(* ===== verification/App_Config.thy ===== *)
theory App_Config
  imports Pve_Engine
begin

unbundle bit_operations_syntax

text \<open>
  The stored configuration, \<^verbatim>\<open>components/app_config/app_config.c\<close>: the struct, its image in memory (which is
  what is stored), defaults, saving, loading with the rules for the images older firmware left
  behind, the guest rules in blobs of their own, and the salted password hashes. Images follow the C
  layout of the target: natural alignment, little endian, \<^verbatim>\<open>bool\<close> in one byte. The flash store, the
  allocator, SHA-256, the random source, the MAC address and the build-time settings are parameters.

  The lemmas show that what is saved is what is loaded, that no image left by a firmware whose
  Proxmox block is laid out differently can arm the shutdown, and where the padding of an older image
  ends up in newer fields.
\<close>

section \<open>Data\<close>

abbreviation ESP_OK :: int where "ESP_OK \<equiv> 0"
abbreviation ESP_ERR_NO_MEM :: int where "ESP_ERR_NO_MEM \<equiv> 0x101"
abbreviation ESP_ERR_INVALID_ARG :: int where "ESP_ERR_INVALID_ARG \<equiv> 0x102"
abbreviation ESP_ERR_NVS_NOT_FOUND :: int where "ESP_ERR_NVS_NOT_FOUND \<equiv> 0x1102"

abbreviation APP_WIFI_STATION :: u8 where "APP_WIFI_STATION \<equiv> 0"
abbreviation APP_WIFI_AP :: u8 where "APP_WIFI_AP \<equiv> 1"
abbreviation APP_LOG_OFF :: u8 where "APP_LOG_OFF \<equiv> 0"
abbreviation APP_LOG_VERBOSE :: u8 where "APP_LOG_VERBOSE \<equiv> 2"
abbreviation CFG_VERSION :: u32 where "CFG_VERSION \<equiv> 18"
abbreviation CFG_KEY :: string where "CFG_KEY \<equiv> ''cfg''"

record app_config =
  ac_wifi_mode :: u8
  ac_wifi_ssid :: string
  ac_wifi_pass :: string
  ac_ap_ssid :: string
  ac_ap_pass :: string
  ac_hostname :: string
  ac_use_static_ip :: bool
  ac_static_ip :: string
  ac_static_mask :: string
  ac_static_gw :: string
  ac_static_dns :: string
  ac_ble_addr :: string
  ac_ble_probe :: bool
  ac_ups_name :: string
  ac_nut_port :: u16
  ac_ac_rating_w :: u16
  ac_runtime_low_s :: u16
  ac_nut_user :: string
  ac_nut_salt :: "byte list"
  ac_nut_hash :: "byte list"
  ac_nut_auth_set :: bool
  ac_poll_ms :: u16
  ac_low_pct :: u8
  ac_tg_enabled :: bool
  ac_tg_token :: string
  ac_tg_chat :: string
  ac_tg_on_power :: bool
  ac_tg_on_low_batt :: bool
  ac_tg_on_link :: bool
  ac_auth_user :: string
  ac_auth_salt :: "byte list"
  ac_auth_hash :: "byte list"
  ac_auth_set :: bool
  ac_provisioned :: bool
  ac_led_enabled :: bool
  ac_led_gpio :: "16 word"
  ac_controls_enabled :: bool
  ac_battery_wh :: u16
  ac_log_level :: u8
  ac_fb_ap_enabled :: bool
  ac_fb_ap_ssid :: string
  ac_fb_ap_pass :: string
  ac_pve :: pve_config
  ac_tg_on_pve_host :: bool
  ac_tg_on_pve_guest :: bool
  ac_nut_enabled :: bool
  ac_pve_selftest_hours :: u16
  ac_tg_on_battery_pct :: bool

section \<open>Images of values\<close>

definition enc_bool :: "bool \<Rightarrow> byte list" where
  "enc_bool b = [if b then 1 else 0]"

definition dec_bool :: "byte list \<Rightarrow> bool" where
  "dec_bool bs \<longleftrightarrow> hd bs \<noteq> 0"

definition enc_u16 :: "u16 \<Rightarrow> byte list" where
  "enc_u16 w = [ucast w, ucast (drop_bit 8 w)]"

definition dec_u16 :: "byte list \<Rightarrow> u16" where
  "dec_u16 bs = ucast (bs ! 0) OR push_bit 8 (ucast (bs ! 1))"

definition enc_u32 :: "u32 \<Rightarrow> byte list" where
  "enc_u32 w = [ucast w, ucast (drop_bit 8 w), ucast (drop_bit 16 w), ucast (drop_bit 24 w)]"

definition dec_u32 :: "byte list \<Rightarrow> u32" where
  "dec_u32 bs = ucast (bs ! 0) OR push_bit 8 (ucast (bs ! 1)) OR push_bit 16 (ucast (bs ! 2)) OR push_bit 24 (ucast (bs ! 3))"

definition enc_str :: "nat \<Rightarrow> string \<Rightarrow> byte list" where
  "enc_str n s = map (\<lambda>c. word_of_nat (ord c)) s @ replicate (n - length s) 0"

definition dec_str :: "byte list \<Rightarrow> string" where
  "dec_str bs = map (\<lambda>b. char_of (unat b)) (takeWhile (\<lambda>b. b \<noteq> 0) bs)"

fun split_sizes :: "nat list \<Rightarrow> 'a list \<Rightarrow> 'a list list" where
  "split_sizes [] bs = []"
| "split_sizes (n # ns) bs = take n bs # split_sizes ns (drop n bs)"

definition str_fits :: "nat \<Rightarrow> string \<Rightarrow> bool" where
  "str_fits n s \<longleftrightarrow> length s < n \<and> CHR 0x00 \<notin> set s"

section \<open>Image of the configuration\<close>

definition HOST_SIZES :: "nat list" where
  "HOST_SIZES = [1, 64, 32, 64, 40, 1, 2, 1, 65, 2, 1, 1]"

definition host_chunks :: "pve_host \<Rightarrow> byte list list" where
  "host_chunks h = [enc_bool (h_enabled h), enc_str 64 (h_url h), enc_str 32 (h_node h), enc_str 64 (h_token_id h),
     enc_str 40 (h_secret h), [0], enc_u16 (h_guest_wait_s h), enc_bool (h_shutdown_node h),
     enc_str 65 (h_fingerprint h), enc_u16 (h_on_battery_min h), [h_charge_pct h], [0]]"

definition dec_host :: "byte list \<Rightarrow> pve_host" where
  "dec_host bs = (let f = split_sizes HOST_SIZES bs in \<lparr>
     h_enabled = dec_bool (f ! 0), h_url = dec_str (f ! 1), h_node = dec_str (f ! 2), h_token_id = dec_str (f ! 3),
     h_secret = dec_str (f ! 4), h_guest_wait_s = dec_u16 (f ! 6), h_shutdown_node = dec_bool (f ! 7),
     h_fingerprint = dec_str (f ! 8), h_on_battery_min = dec_u16 (f ! 9), h_charge_pct = hd (f ! 10)\<rparr>)"

definition enc_pve :: "pve_config \<Rightarrow> byte list" where
  "enc_pve p = enc_bool (c_enabled p) @ enc_bool (c_armed p) @ enc_u16 (c_mains_back_min p) @
     concat (map (\<lambda>h. concat (host_chunks h)) (c_hosts p))"

definition dec_pve :: "byte list \<Rightarrow> pve_config" where
  "dec_pve bs = (let f = split_sizes [1, 1, 2, 274, 274, 274, 274] bs in \<lparr>
     c_enabled = dec_bool (f ! 0), c_armed = dec_bool (f ! 1), c_mains_back_min = dec_u16 (f ! 2),
     c_hosts = map dec_host (drop 3 f)\<rparr>)"

text \<open>Sizes of the struct's members in order, padding included.\<close>

definition CFG_SIZES :: "nat list" where
  "CFG_SIZES = [
     1, 33, 65, 33, 65, 33, 1, 16, 16, 16, 16, 18, 1, 32, 2, 2, 2, 33, 16, 32, 1, 2, 1, 1, 64, 24, 1, 1, 1, 33,
     16, 32, 1, 1, 1, 1, 2, 1, 1, 2, 1, 1, 33, 65, 1100, 1, 1, 1, 1, 2, 1, 1]"

definition config_chunks :: "app_config \<Rightarrow> byte list list" where
  "config_chunks c = [
     [ac_wifi_mode c], enc_str 33 (ac_wifi_ssid c), enc_str 65 (ac_wifi_pass c), enc_str 33 (ac_ap_ssid c),
     enc_str 65 (ac_ap_pass c), enc_str 33 (ac_hostname c), enc_bool (ac_use_static_ip c),
     enc_str 16 (ac_static_ip c), enc_str 16 (ac_static_mask c), enc_str 16 (ac_static_gw c),
     enc_str 16 (ac_static_dns c), enc_str 18 (ac_ble_addr c), enc_bool (ac_ble_probe c),
     enc_str 32 (ac_ups_name c), enc_u16 (ac_nut_port c), enc_u16 (ac_ac_rating_w c),
     enc_u16 (ac_runtime_low_s c), enc_str 33 (ac_nut_user c), ac_nut_salt c, ac_nut_hash c,
     enc_bool (ac_nut_auth_set c), enc_u16 (ac_poll_ms c), [ac_low_pct c], enc_bool (ac_tg_enabled c),
     enc_str 64 (ac_tg_token c), enc_str 24 (ac_tg_chat c), enc_bool (ac_tg_on_power c),
     enc_bool (ac_tg_on_low_batt c), enc_bool (ac_tg_on_link c), enc_str 33 (ac_auth_user c), ac_auth_salt c,
     ac_auth_hash c, enc_bool (ac_auth_set c), enc_bool (ac_provisioned c), enc_bool (ac_led_enabled c), [0],
     enc_u16 (ac_led_gpio c), enc_bool (ac_controls_enabled c), [0], enc_u16 (ac_battery_wh c),
     [ac_log_level c], enc_bool (ac_fb_ap_enabled c), enc_str 33 (ac_fb_ap_ssid c),
     enc_str 65 (ac_fb_ap_pass c), enc_pve (ac_pve c), enc_bool (ac_tg_on_pve_host c),
     enc_bool (ac_tg_on_pve_guest c), enc_bool (ac_nut_enabled c), [0], enc_u16 (ac_pve_selftest_hours c),
     enc_bool (ac_tg_on_battery_pct c), [0]]"

definition enc_config :: "app_config \<Rightarrow> byte list" where
  "enc_config c = concat (config_chunks c)"

definition dec_config :: "byte list \<Rightarrow> app_config" where
  "dec_config bs = (let f = split_sizes CFG_SIZES bs in \<lparr>
     ac_wifi_mode = hd (f ! 0), ac_wifi_ssid = dec_str (f ! 1), ac_wifi_pass = dec_str (f ! 2),
     ac_ap_ssid = dec_str (f ! 3), ac_ap_pass = dec_str (f ! 4), ac_hostname = dec_str (f ! 5),
     ac_use_static_ip = dec_bool (f ! 6), ac_static_ip = dec_str (f ! 7), ac_static_mask = dec_str (f ! 8),
     ac_static_gw = dec_str (f ! 9), ac_static_dns = dec_str (f ! 10), ac_ble_addr = dec_str (f ! 11),
     ac_ble_probe = dec_bool (f ! 12), ac_ups_name = dec_str (f ! 13), ac_nut_port = dec_u16 (f ! 14),
     ac_ac_rating_w = dec_u16 (f ! 15), ac_runtime_low_s = dec_u16 (f ! 16), ac_nut_user = dec_str (f ! 17),
     ac_nut_salt = f ! 18, ac_nut_hash = f ! 19, ac_nut_auth_set = dec_bool (f ! 20),
     ac_poll_ms = dec_u16 (f ! 21), ac_low_pct = hd (f ! 22), ac_tg_enabled = dec_bool (f ! 23),
     ac_tg_token = dec_str (f ! 24), ac_tg_chat = dec_str (f ! 25), ac_tg_on_power = dec_bool (f ! 26),
     ac_tg_on_low_batt = dec_bool (f ! 27), ac_tg_on_link = dec_bool (f ! 28), ac_auth_user = dec_str (f ! 29),
     ac_auth_salt = f ! 30, ac_auth_hash = f ! 31, ac_auth_set = dec_bool (f ! 32),
     ac_provisioned = dec_bool (f ! 33), ac_led_enabled = dec_bool (f ! 34), ac_led_gpio = dec_u16 (f ! 36),
     ac_controls_enabled = dec_bool (f ! 37), ac_battery_wh = dec_u16 (f ! 39), ac_log_level = hd (f ! 40),
     ac_fb_ap_enabled = dec_bool (f ! 41), ac_fb_ap_ssid = dec_str (f ! 42), ac_fb_ap_pass = dec_str (f ! 43),
     ac_pve = dec_pve (f ! 44), ac_tg_on_pve_host = dec_bool (f ! 45), ac_tg_on_pve_guest = dec_bool (f ! 46),
     ac_nut_enabled = dec_bool (f ! 47), ac_pve_selftest_hours = dec_u16 (f ! 49),
     ac_tg_on_battery_pct = dec_bool (f ! 50)\<rparr>)"

text \<open>\<^verbatim>\<open>sizeof(app_config_t)\<close>, \<^verbatim>\<open>sizeof(cfg_blob_t)\<close>, \<^verbatim>\<open>offsetof(app_config_t, led_gpio)\<close> and
  \<^verbatim>\<open>offsetof(app_config_t, pve)\<close>.\<close>

abbreviation CFG_SIZE :: nat where "CFG_SIZE \<equiv> 1828"
abbreviation BLOB_SIZE :: nat where "BLOB_SIZE \<equiv> 1832"
abbreviation OFF_LED_GPIO :: nat where "OFF_LED_GPIO \<equiv> 614"
abbreviation OFF_PVE :: nat where "OFF_PVE \<equiv> 720"

lemma layout_sizes:
  "sum_list CFG_SIZES = CFG_SIZE" "sum_list (take 36 CFG_SIZES) = OFF_LED_GPIO" "sum_list (take 44 CFG_SIZES) = OFF_PVE"
  "sum_list HOST_SIZES = 274"
  by (simp_all add: CFG_SIZES_def HOST_SIZES_def)

definition wf_host :: "pve_host \<Rightarrow> bool" where
  "wf_host h \<longleftrightarrow> str_fits 64 (h_url h) \<and> str_fits 32 (h_node h) \<and> str_fits 64 (h_token_id h) \<and>
     str_fits 40 (h_secret h) \<and> str_fits 65 (h_fingerprint h)"

definition wf_pve :: "pve_config \<Rightarrow> bool" where
  "wf_pve p \<longleftrightarrow> length (c_hosts p) = PVE_MAX_HOSTS \<and> (\<forall>h \<in> set (c_hosts p). wf_host h)"

definition wf_config :: "app_config \<Rightarrow> bool" where
  "wf_config c \<longleftrightarrow>
     str_fits 33 (ac_wifi_ssid c) \<and> str_fits 65 (ac_wifi_pass c) \<and>
     str_fits 33 (ac_ap_ssid c) \<and> str_fits 65 (ac_ap_pass c) \<and> str_fits 33 (ac_hostname c) \<and>
     str_fits 16 (ac_static_ip c) \<and> str_fits 16 (ac_static_mask c) \<and>
     str_fits 16 (ac_static_gw c) \<and> str_fits 16 (ac_static_dns c) \<and>
     str_fits 18 (ac_ble_addr c) \<and> str_fits 32 (ac_ups_name c) \<and>
     str_fits 33 (ac_nut_user c) \<and> length (ac_nut_salt c) = 16 \<and>
     length (ac_nut_hash c) = 32 \<and> str_fits 64 (ac_tg_token c) \<and> str_fits 24 (ac_tg_chat c) \<and>
     str_fits 33 (ac_auth_user c) \<and> length (ac_auth_salt c) = 16 \<and>
     length (ac_auth_hash c) = 32 \<and> str_fits 33 (ac_fb_ap_ssid c) \<and>
     str_fits 65 (ac_fb_ap_pass c) \<and> wf_pve (ac_pve c)"

section \<open>Round trips of the images\<close>

named_theorems image_dec "decoding inverts encoding"
named_theorems image_len "lengths of encodings"

lemma dec_enc_bool [image_dec]: "dec_bool (enc_bool b) = b"
  by (simp add: dec_bool_def enc_bool_def)

lemma dec_enc_u16 [image_dec]: "dec_u16 (enc_u16 w) = w"
  unfolding dec_u16_def enc_u16_def
  by (rule bit_word_eqI) (auto simp: bit_or_iff bit_push_bit_iff bit_ucast_iff bit_drop_bit_eq)

lemma dec_enc_u32 [image_dec]: "dec_u32 (enc_u32 w) = w"
proof (rule bit_word_eqI)
  fix n assume "n < LENGTH(32)"
  then have "n < 8 \<or> (8 \<le> n \<and> n < 16) \<or> (16 \<le> n \<and> n < 24) \<or> (24 \<le> n \<and> n < 32)" by auto
  then show "bit (dec_u32 (enc_u32 w)) n = bit w n"
    by (auto simp: dec_u32_def enc_u32_def bit_or_iff bit_push_bit_iff bit_ucast_iff bit_drop_bit_eq)
qed

lemma unat_char [simp]: "unat (word_of_nat (ord c) :: byte) = ord c"
  using ord_less_256 [of c] by (simp add: unat_of_nat take_bit_eq_mod)

lemma char_byte: "word_of_nat (ord c) = (0 :: byte) \<longleftrightarrow> c = CHR 0x00"
proof
  assume "word_of_nat (ord c) = (0 :: byte)"
  then have "ord c = (0 :: nat)" by (metis unat_char unat_0)
  then have "char_of (ord c :: nat) = char_of (0 :: nat)" by (rule arg_cong)
  moreover have "char_of (0 :: nat) = CHR 0x00" by (simp add: char_of_def)
  ultimately show "c = CHR 0x00" by (simp only: char_of_char)
qed simp

lemma dec_enc_str [image_dec]: "str_fits n s \<Longrightarrow> dec_str (enc_str n s) = s"
proof -
  assume "str_fits n s"
  then have "\<forall>b \<in> set (map (\<lambda>c. word_of_nat (ord c) :: byte) s). b \<noteq> 0"
    by (auto simp: str_fits_def char_byte)
  then have "takeWhile (\<lambda>b. b \<noteq> 0) (enc_str n s) = map (\<lambda>c. word_of_nat (ord c)) s"
    unfolding enc_str_def by (subst takeWhile_append2) (auto simp: takeWhile_replicate)
  then show ?thesis by (simp add: dec_str_def comp_def)
qed

lemma image_lengths [image_len]:
  "length (enc_bool b) = 1" "length (enc_u16 w) = 2" "length (enc_u32 v) = 4"
  "str_fits n s \<Longrightarrow> length (enc_str n s) = n"
  by (simp_all add: enc_bool_def enc_u16_def enc_u32_def enc_str_def str_fits_def)

lemma split_concat: "split_sizes (map length ps) (concat ps @ rest) = ps"
  by (induction ps) auto

lemma split_concat0: "split_sizes (map length ps) (concat ps) = ps"
  using split_concat [of ps "[]"] by simp

lemma split_append:
  "length xs = sum_list ms \<Longrightarrow> split_sizes (ms @ ns) (xs @ ys) = split_sizes ms xs @ split_sizes ns ys"
  by (induction ms arbitrary: xs) (auto simp: drop_append [symmetric])

lemma length_split [simp]: "length (split_sizes ns bs) = length ns"
  by (induction ns arbitrary: bs) auto

lemma host_lengths: "wf_host h \<Longrightarrow> map length (host_chunks h) = HOST_SIZES"
  by (simp add: wf_host_def host_chunks_def HOST_SIZES_def image_len)

lemma dec_enc_host: "wf_host h \<Longrightarrow> dec_host (concat (host_chunks h)) = h"
  unfolding dec_host_def host_lengths [symmetric] split_concat0 host_chunks_def Let_def
  by (simp add: wf_host_def image_dec)

lemma host_length: "wf_host h \<Longrightarrow> length (concat (host_chunks h)) = 274"
  by (simp add: length_concat host_lengths layout_sizes)

lemma dec_enc_pve: "wf_pve p \<Longrightarrow> dec_pve (enc_pve p) = p"
proof -
  assume wf: "wf_pve p"
  then obtain h0 h1 h2 h3 where hs: "c_hosts p = [h0, h1, h2, h3]"
    by (auto simp: wf_pve_def length_Suc_conv numeral_eq_Suc)
  let ?ps = "[enc_bool (c_enabled p), enc_bool (c_armed p), enc_u16 (c_mains_back_min p),
     concat (host_chunks h0), concat (host_chunks h1), concat (host_chunks h2), concat (host_chunks h3)]"
  have wfh: "wf_host h0" "wf_host h1" "wf_host h2" "wf_host h3" using wf hs by (auto simp: wf_pve_def)
  have len: "map length ?ps = [1, 1, 2, 274, 274, 274, 274]" by (simp only: list.map wfh host_length image_len)
  have enc: "enc_pve p = concat ?ps" by (simp add: enc_pve_def hs)
  show ?thesis
    unfolding dec_pve_def enc len [symmetric] split_concat0 Let_def
    using wfh by (simp add: image_dec dec_enc_host hs)
qed

lemma pve_length: "wf_pve p \<Longrightarrow> length (enc_pve p) = 1100"
proof -
  assume wf: "wf_pve p"
  then obtain h0 h1 h2 h3 where "c_hosts p = [h0, h1, h2, h3]"
    by (auto simp: wf_pve_def length_Suc_conv numeral_eq_Suc)
  then show ?thesis using wf host_length by (simp add: wf_pve_def enc_pve_def image_len del: length_concat)
qed

lemma config_lengths: "wf_config c \<Longrightarrow> map length (config_chunks c) = CFG_SIZES"
  by (simp add: wf_config_def config_chunks_def CFG_SIZES_def image_len pve_length)

lemma config_length: "wf_config c \<Longrightarrow> length (enc_config c) = CFG_SIZE"
  by (simp add: enc_config_def length_concat config_lengths layout_sizes)

lemma dec_enc_config: "wf_config c \<Longrightarrow> dec_config (enc_config c @ rest) = c"
  unfolding dec_config_def enc_config_def config_lengths [symmetric] split_concat config_chunks_def Let_def
  by (simp add: wf_config_def image_dec dec_enc_pve)

section \<open>Passwords\<close>

definition hash_password :: "(byte list \<Rightarrow> byte list) \<Rightarrow> byte list \<Rightarrow> string \<Rightarrow> byte list" where
  "hash_password sha salt password = sha (salt @ map (\<lambda>c. word_of_nat (ord c)) password)"

text \<open>\<open>random\<close> is what the random source puts into the salt. The result is the salt, the hash and
  whether a password is set.\<close>

definition set_secret :: "(byte list \<Rightarrow> byte list) \<Rightarrow> byte list \<Rightarrow> string option \<Rightarrow> byte list \<times> byte list \<times> bool" where
  "set_secret sha random password =
     (if password = None \<or> password = Some [] then (replicate 16 0, replicate 32 0, False)
      else (random, hash_password sha random (the password), True))"

definition secret_diff :: "byte list \<Rightarrow> byte list \<Rightarrow> byte" where
  "secret_diff want hash = fold (\<lambda>i d. d OR (want ! i XOR hash ! i)) [0..<32] 0"

definition check_secret :: "(byte list \<Rightarrow> byte list) \<Rightarrow> byte list \<Rightarrow> byte list \<Rightarrow> bool \<Rightarrow> string option \<Rightarrow> bool" where
  "check_secret sha salt hash is_set password =
     (if \<not> is_set then True
      else case password of None \<Rightarrow> False
           | Some pw \<Rightarrow> secret_diff (hash_password sha salt pw) hash = 0)"

definition app_config_set_password :: "(byte list \<Rightarrow> byte list) \<Rightarrow> byte list \<Rightarrow> app_config \<Rightarrow> string option \<Rightarrow> app_config" where
  "app_config_set_password sha random c password =
     (case set_secret sha random password of (salt, hash, is_set) \<Rightarrow>
        c\<lparr>ac_auth_salt := salt, ac_auth_hash := hash, ac_auth_set := is_set\<rparr>)"

definition app_config_check_password :: "(byte list \<Rightarrow> byte list) \<Rightarrow> app_config \<Rightarrow> string option \<Rightarrow> bool" where
  "app_config_check_password sha c password = check_secret sha (ac_auth_salt c) (ac_auth_hash c) (ac_auth_set c) password"

definition app_config_set_nut_password :: "(byte list \<Rightarrow> byte list) \<Rightarrow> byte list \<Rightarrow> app_config \<Rightarrow> string option \<Rightarrow> app_config" where
  "app_config_set_nut_password sha random c password =
     (case set_secret sha random password of (salt, hash, is_set) \<Rightarrow>
        c\<lparr>ac_nut_salt := salt, ac_nut_hash := hash, ac_nut_auth_set := is_set\<rparr>)"

definition app_config_check_nut_password :: "(byte list \<Rightarrow> byte list) \<Rightarrow> app_config \<Rightarrow> string option \<Rightarrow> bool" where
  "app_config_check_nut_password sha c password =
     check_secret sha (ac_nut_salt c) (ac_nut_hash c) (ac_nut_auth_set c) password"

section \<open>Defaults\<close>

text \<open>The build-time settings, the MAC address and the other outside parts the defaults use.\<close>

record kconfig =
  k_wifi_ssid :: string
  k_wifi_password :: string
  k_ble_address :: string
  k_ups_name :: string
  k_nut_tcp_port :: u16
  k_poll_interval_ms :: u16
  k_battery_low_pct :: u8
  k_ac_rating_w :: u16
  k_runtime_low_s :: u16
  k_led_gpio :: "16 word"
  k_mac :: "byte list"
  k_sha256 :: "byte list \<Rightarrow> byte list"
  k_random :: "byte list"

definition app_config_default_name :: "kconfig \<Rightarrow> nat \<Rightarrow> string" where
  "app_config_default_name K len = snprintf_buf len (''esp-nut-bluetti-'' @ hex2 (k_mac K ! 4) @ hex2 (k_mac K ! 5))"

definition app_config_default_nut_password :: "kconfig \<Rightarrow> nat \<Rightarrow> string" where
  "app_config_default_nut_password K len = snprintf_buf len (''bluetti'' @ hex2 (k_mac K ! 4) @ hex2 (k_mac K ! 5))"

definition app_config_pve_defaults :: pve_config where
  "app_config_pve_defaults =
     \<lparr>c_enabled = False, c_armed = False, c_mains_back_min = 5,
      c_hosts = replicate PVE_MAX_HOSTS
        \<lparr>h_enabled = False, h_url = [], h_node = [], h_token_id = [], h_secret = [], h_guest_wait_s = 30,
         h_shutdown_node = True, h_fingerprint = [], h_on_battery_min = 30, h_charge_pct = 10\<rparr>\<rparr>"

definition app_config_defaults :: "kconfig \<Rightarrow> app_config" where
  "app_config_defaults K =
     (let ssid = strlcpy 33 (k_wifi_ssid K);
          c = \<lparr>ac_wifi_mode = APP_WIFI_STATION, ac_wifi_ssid = ssid, ac_wifi_pass = strlcpy 65 (k_wifi_password K),
               ac_ap_ssid = [], ac_ap_pass = [], ac_hostname = app_config_default_name K 33, ac_use_static_ip = False,
               ac_static_ip = [], ac_static_mask = [], ac_static_gw = [], ac_static_dns = [],
               ac_ble_addr = strlcpy 18 (k_ble_address K), ac_ble_probe = False, ac_ups_name = strlcpy 32 (k_ups_name K),
               ac_nut_port = k_nut_tcp_port K, ac_ac_rating_w = k_ac_rating_w K, ac_runtime_low_s = k_runtime_low_s K,
               ac_nut_user = ''upsmon'', ac_nut_salt = replicate 16 0, ac_nut_hash = replicate 32 0, ac_nut_auth_set = False,
               ac_poll_ms = k_poll_interval_ms K, ac_low_pct = k_battery_low_pct K, ac_tg_enabled = False, ac_tg_token = [],
               ac_tg_chat = [], ac_tg_on_power = True, ac_tg_on_low_batt = True, ac_tg_on_link = False,
               ac_auth_user = ''admin'', ac_auth_salt = replicate 16 0, ac_auth_hash = replicate 32 0, ac_auth_set = False,
               ac_provisioned = False, ac_led_enabled = True, ac_led_gpio = k_led_gpio K, ac_controls_enabled = False,
               ac_battery_wh = 0, ac_log_level = APP_LOG_OFF, ac_fb_ap_enabled = False, ac_fb_ap_ssid = [], ac_fb_ap_pass = [],
               ac_pve = app_config_pve_defaults, ac_tg_on_pve_host = True, ac_tg_on_pve_guest = True,
               ac_nut_enabled = False, ac_pve_selftest_hours = 24, ac_tg_on_battery_pct = False\<rparr>;
          c = app_config_set_nut_password (k_sha256 K) (k_random K) c (Some (app_config_default_nut_password K 24))
      in if ssid = ''myssid'' then c\<lparr>ac_wifi_ssid := [], ac_wifi_pass := []\<rparr> else c)"

section \<open>Storage\<close>

text \<open>The flash store: opening (for writing or not), the size and the bytes of a blob (the read takes
  the capacity of the buffer), writing, erasing and committing.\<close>

record 's nvs =
  nv_open :: "'s \<Rightarrow> bool \<Rightarrow> int"
  nv_size :: "'s \<Rightarrow> string \<Rightarrow> int \<times> nat"
  nv_get :: "'s \<Rightarrow> string \<Rightarrow> nat \<Rightarrow> int \<times> byte list"
  nv_set :: "'s \<Rightarrow> string \<Rightarrow> byte list \<Rightarrow> int \<times> 's"
  nv_erase :: "'s \<Rightarrow> string \<Rightarrow> int \<times> 's"
  nv_commit :: "'s \<Rightarrow> int \<times> 's"

definition image_version :: "byte list \<Rightarrow> u32" where
  "image_version buf = dec_u32 (take 4 buf)"

text \<open>What an accepted image is turned into: \<open>c\<close> are the defaults, \<open>buf\<close> the image read over them.\<close>

definition adopt_image :: "app_config \<Rightarrow> byte list \<Rightarrow> app_config" where
  "adopt_image c buf =
     (let v = image_version buf;
          img = drop 4 buf;
          c = (if v \<le> 11 then dec_config (take OFF_PVE img @ drop OFF_PVE (enc_config c)) else dec_config img);
          c = (if 8 \<le> v \<and> v \<le> 11 then c\<lparr>ac_pve := app_config_pve_defaults\<rparr> else c);
          c = (if v < 15 then c\<lparr>ac_nut_enabled := True\<rparr> else c);
          c = (if v < 6 then c\<lparr>ac_log_level := (if ac_ble_probe c then APP_LOG_VERBOSE else APP_LOG_OFF)\<rparr> else c)
      in c\<lparr>ac_ble_probe := (ac_log_level c \<ge> APP_LOG_VERBOSE)\<rparr>)"

definition app_config_load :: "kconfig \<Rightarrow> 's nvs \<Rightarrow> bool \<Rightarrow> 's \<Rightarrow> app_config" where
  "app_config_load K nv malloc_ok st =
     (let c = app_config_defaults K
      in if nv_open nv st False \<noteq> ESP_OK then c
         else case nv_size nv st CFG_KEY of (err, on_disk) \<Rightarrow>
           if err \<noteq> ESP_OK \<or> on_disk > 8192 then c
           else if \<not> malloc_ok then c
           else case nv_get nv st CFG_KEY (max on_disk BLOB_SIZE) of (err, data) \<Rightarrow>
             let buf = data @ drop (length data) (enc_u32 CFG_VERSION @ enc_config c)
             in if err \<noteq> ESP_OK \<or> length data < 4 + OFF_LED_GPIO \<or> image_version buf < 3 \<or> image_version buf > CFG_VERSION
                then c else adopt_image c buf)"

definition app_config_save :: "'s nvs \<Rightarrow> bool \<Rightarrow> 's \<Rightarrow> app_config \<Rightarrow> int \<times> 's" where
  "app_config_save nv malloc_ok st c =
     (let err = nv_open nv st True
      in if err \<noteq> ESP_OK then (err, st)
         else if \<not> malloc_ok then (ESP_ERR_NO_MEM, st)
         else case nv_set nv st CFG_KEY (enc_u32 CFG_VERSION @ enc_config c) of (err, st) \<Rightarrow>
           if err = ESP_OK then nv_commit nv st else (err, st))"

section \<open>Guest rules\<close>

definition guest_key :: "nat \<Rightarrow> string" where
  "guest_key i = snprintf_buf 8 (''pveg'' @ show_nat i)"

definition enc_guest :: "pve_guest \<Rightarrow> byte list" where
  "enc_guest g = enc_u32 (word_of_int (g_id g)) @ enc_u16 (g_on_battery_min g) @ [g_charge_pct g, 0]"

definition dec_guest :: "byte list \<Rightarrow> pve_guest" where
  "dec_guest bs = \<lparr>g_id = sint (dec_u32 bs), g_on_battery_min = dec_u16 (drop 4 bs), g_charge_pct = bs ! 6\<rparr>"

definition app_config_pve_guests_load :: "'s nvs \<Rightarrow> bool \<Rightarrow> 's \<Rightarrow> int \<Rightarrow> pve_guest list" where
  "app_config_pve_guests_load nv malloc_ok st host_i =
     (if host_i < 0 \<or> host_i \<ge> int PVE_MAX_HOSTS then []
      else if nv_open nv st False \<noteq> ESP_OK then []
      else case nv_size nv st (guest_key (nat host_i)) of (err, len) \<Rightarrow>
        if err \<noteq> ESP_OK \<or> len = 0 \<or> len mod 8 \<noteq> 0 then []
        else if \<not> malloc_ok then []
        else case nv_get nv st (guest_key (nat host_i)) len of (err, data) \<Rightarrow>
          if err \<noteq> ESP_OK then [] else map dec_guest (split_sizes (replicate (length data div 8) 8) data))"

definition app_config_pve_guests_save :: "'s nvs \<Rightarrow> 's \<Rightarrow> int \<Rightarrow> pve_guest list \<Rightarrow> int \<times> 's" where
  "app_config_pve_guests_save nv st host_i arr =
     (if host_i < 0 \<or> host_i \<ge> int PVE_MAX_HOSTS then (ESP_ERR_INVALID_ARG, st)
      else
        let err = nv_open nv st True
        in if err \<noteq> ESP_OK then (err, st)
           else case (if arr = []
                      then (case nv_erase nv st (guest_key (nat host_i)) of (err, st) \<Rightarrow>
                              (if err = ESP_ERR_NVS_NOT_FOUND then ESP_OK else err, st))
                      else nv_set nv st (guest_key (nat host_i)) (concat (map enc_guest arr))) of (err, st) \<Rightarrow>
             if err = ESP_OK then nv_commit nv st else (err, st))"

definition app_config_pve_guests_erase_all :: "'s nvs \<Rightarrow> 's \<Rightarrow> 's" where
  "app_config_pve_guests_erase_all nv st =
     (if nv_open nv st True \<noteq> ESP_OK then st
      else snd (nv_commit nv (fold (\<lambda>i st. snd (nv_erase nv st (guest_key i))) [0..<PVE_MAX_HOSTS] st)))"

definition app_config_erase :: "'s nvs \<Rightarrow> 's \<Rightarrow> int \<times> 's" where
  "app_config_erase nv st =
     (let st = app_config_pve_guests_erase_all nv st;
          err = nv_open nv st True
      in if err \<noteq> ESP_OK then (err, st)
         else case nv_erase nv st CFG_KEY of (err, st) \<Rightarrow>
           let err = (if err = ESP_ERR_NVS_NOT_FOUND then ESP_OK else err)
           in if err = ESP_OK then nv_commit nv st else (err, st))"

section \<open>What is saved is what is loaded\<close>

text \<open>The documented behaviour of the flash store, with \<open>view\<close> the blobs it holds.\<close>

definition nvs_ok :: "'s nvs \<Rightarrow> ('s \<Rightarrow> string \<Rightarrow> byte list option) \<Rightarrow> bool" where
  "nvs_ok nv view \<longleftrightarrow>
     (\<forall>st k. nv_size nv st k = (case view st k of None \<Rightarrow> (ESP_ERR_NVS_NOT_FOUND, 0) | Some b \<Rightarrow> (ESP_OK, length b))) \<and>
     (\<forall>st k cap b. view st k = Some b \<and> length b \<le> cap \<longrightarrow> nv_get nv st k cap = (ESP_OK, b)) \<and>
     (\<forall>st k b st'. nv_set nv st k b = (ESP_OK, st') \<longrightarrow> view st' = (view st)(k \<mapsto> b)) \<and>
     (\<forall>st k st'. nv_erase nv st k = (ESP_OK, st') \<longrightarrow> view st' = (view st)(k := None)) \<and>
     (\<forall>st st'. nv_commit nv st = (ESP_OK, st') \<longrightarrow> view st' = view st)"

lemma nvs_rules:
  assumes "nvs_ok nv view"
  shows "nv_size nv st k = (case view st k of None \<Rightarrow> (ESP_ERR_NVS_NOT_FOUND, 0) | Some b \<Rightarrow> (ESP_OK, length b))"
    "view st k = Some b \<Longrightarrow> length b \<le> cap \<Longrightarrow> nv_get nv st k cap = (ESP_OK, b)"
    "nv_set nv st k b = (ESP_OK, st') \<Longrightarrow> view st' = (view st)(k \<mapsto> b)"
    "nv_commit nv st = (ESP_OK, st') \<Longrightarrow> view st' = view st"
  using assms unfolding nvs_ok_def by blast+

text \<open>Loading when an image of a readable size is stored.\<close>

lemma load_stored:
  assumes "nvs_ok nv view" "view st CFG_KEY = Some b" "length b \<le> 8192" "nv_open nv st False = ESP_OK"
  shows "app_config_load K nv True st =
    (let buf = b @ drop (length b) (enc_u32 CFG_VERSION @ enc_config (app_config_defaults K))
     in if length b < 4 + OFF_LED_GPIO \<or> image_version b < 3 \<or> image_version b > CFG_VERSION
        then app_config_defaults K else adopt_image (app_config_defaults K) buf)"
proof -
  have ver: "length b \<ge> 4 + OFF_LED_GPIO \<Longrightarrow> image_version (b @ rest) = image_version b" for rest
    by (simp add: image_version_def)
  have "length b \<le> max (length b) BLOB_SIZE" by simp
  from nvs_rules(2) [OF assms(1,2) this] nvs_rules(1) [OF assms(1), of st CFG_KEY] assms(2-4) ver
  show ?thesis by (auto simp: app_config_load_def Let_def not_less)
qed

lemma load_nothing:
  assumes "nvs_ok nv view" "view st CFG_KEY = None"
  shows "app_config_load K nv malloc_ok st = app_config_defaults K"
  using nvs_rules(1) [OF assms(1), of st CFG_KEY] assms(2) by (simp add: app_config_load_def Let_def)

lemma save_stores:
  assumes "nvs_ok nv view" "app_config_save nv malloc_ok st c = (ESP_OK, st')"
  shows "view st' = (view st)(CFG_KEY \<mapsto> enc_u32 CFG_VERSION @ enc_config c)"
  using assms(2) nvs_rules(3,4) [OF assms(1)]
  by (auto simp: app_config_save_def Let_def split: if_splits prod.splits)

lemma version_image [simp]: "image_version (enc_u32 v @ rest) = v"
  by (simp add: image_version_def image_len dec_enc_u32)

lemma load_saved:
  assumes "nvs_ok nv view" "app_config_save nv malloc_ok st c = (ESP_OK, st')" "wf_config c" "nv_open nv st' False = ESP_OK"
  shows "app_config_load K nv True st' = c\<lparr>ac_ble_probe := (ac_log_level c \<ge> APP_LOG_VERBOSE)\<rparr>"
proof -
  let ?b = "enc_u32 CFG_VERSION @ enc_config c"
  have len: "length ?b = BLOB_SIZE" using config_length [OF assms(3)] by (simp add: image_len)
  have view: "view st' = (view st)(CFG_KEY \<mapsto> ?b)" by (rule save_stores [OF assms(1,2)])
  show ?thesis
    by (subst load_stored [OF assms(1) _ _ assms(4), of ?b])
      (use len view dec_enc_config [OF assms(3)] in \<open>simp_all add: adopt_image_def image_len Let_def\<close>)
qed

text \<open>C16: A configuration saved without an error is what the next boot loads, whole (only the probe flag is
  set again from the log level), and saving leaves every other stored blob alone.\<close>

theorem save_load_round_trip:
  assumes "nvs_ok nv view" "app_config_save nv malloc_ok st c = (ESP_OK, st')" "wf_config c" "nv_open nv st' False = ESP_OK"
  shows "app_config_load K nv True st' = c\<lparr>ac_ble_probe := (ac_log_level c \<ge> APP_LOG_VERBOSE)\<rparr> \<and>
    (\<forall>k. k = CFG_KEY \<or> view st' k = view st k)"
  using load_saved [OF assms] save_stores [OF assms(1,2)] by simp

section \<open>Images of older firmware\<close>

definition wf_kconfig :: "kconfig \<Rightarrow> bool" where
  "wf_kconfig K \<longleftrightarrow>
     CHR 0x00 \<notin> set (k_wifi_ssid K @ k_wifi_password K @ k_ble_address K @ k_ups_name K) \<and>
     length (k_random K) = 16 \<and> (\<forall>bs. length (k_sha256 K bs) = 32)"

lemma str_fits_strlcpy: "CHR 0x00 \<notin> set s \<Longrightarrow> 0 < n \<Longrightarrow> str_fits n (strlcpy n s)"
  by (auto simp: str_fits_def strlcpy_def dest: in_set_takeD)

lemma str_fits_snprintf: "CHR 0x00 \<notin> set s \<Longrightarrow> 0 < n \<Longrightarrow> str_fits n (snprintf_buf n s)"
  by (auto simp: str_fits_def snprintf_buf_def dest: in_set_takeD)

lemma hex_digit_printable: "n < 16 \<Longrightarrow> hex_digit n \<noteq> CHR 0x00"
proof
  assume n: "n < 16" and "hex_digit n = CHR 0x00"
  then have "ord (hex_digit n) = (0 :: nat)" by simp
  with n show False by (simp add: hex_digit_def take_bit_eq_mod split: if_splits)
qed

lemma hex2_printable: "CHR 0x00 \<notin> set (hex2 v)"
proof -
  have "unat v < 2 ^ LENGTH(8)" by (rule unsigned_less)
  then have "unat v div 16 < 16" "unat v mod 16 < 16" by auto
  then show ?thesis using hex_digit_printable by (auto simp: hex2_def dest: sym)
qed

lemma str_fits_short: "length s < n \<Longrightarrow> CHR 0x00 \<notin> set s \<Longrightarrow> str_fits n s"
  by (simp add: str_fits_def)

lemma wf_pve_defaults: "wf_pve app_config_pve_defaults"
  by (simp add: wf_pve_def app_config_pve_defaults_def wf_host_def str_fits_def)

lemma set_nut_password_fields:
  "app_config_set_nut_password sha random c p =
     c\<lparr>ac_nut_salt := fst (set_secret sha random p), ac_nut_hash := fst (snd (set_secret sha random p)),
       ac_nut_auth_set := snd (snd (set_secret sha random p))\<rparr>"
  by (simp add: app_config_set_nut_password_def split: prod.split)

lemma set_secret_lengths:
  "length random = 16 \<Longrightarrow> \<forall>bs. length (sha bs) = 32 \<Longrightarrow>
   length (fst (set_secret sha random p)) = 16 \<and> length (fst (snd (set_secret sha random p))) = 32"
  by (simp add: set_secret_def hash_password_def)

lemma wf_defaults: "wf_kconfig K \<Longrightarrow> wf_config (app_config_defaults K)"
  using hex2_printable set_secret_lengths [of "k_random K" "k_sha256 K" "Some (app_config_default_nut_password K 24)"]
  by (simp add: wf_kconfig_def wf_config_def app_config_defaults_def Let_def set_nut_password_fields
      str_fits_strlcpy str_fits_snprintf str_fits_short wf_pve_defaults app_config_default_name_def)

lemma sizes_split: "CFG_SIZES = take 44 CFG_SIZES @ drop 44 CFG_SIZES"
  by simp

lemma chunks_split:
  assumes "wf_config c"
  shows "take OFF_PVE (enc_config c) = concat (take 44 (config_chunks c))"
    "drop OFF_PVE (enc_config c) = concat (drop 44 (config_chunks c))"
    "split_sizes (take 44 CFG_SIZES) (concat (take 44 (config_chunks c))) = take 44 (config_chunks c)"
    "split_sizes (drop 44 CFG_SIZES) (concat (drop 44 (config_chunks c))) = drop 44 (config_chunks c)"
proof -
  have len: "length (concat (take 44 (config_chunks c))) = OFF_PVE"
    by (simp add: length_concat take_map [symmetric] config_lengths [OF assms] layout_sizes del: take_map)
  have e: "enc_config c = concat (take 44 (config_chunks c)) @ concat (drop 44 (config_chunks c))"
    by (simp add: enc_config_def flip: concat_append)
  show "take OFF_PVE (enc_config c) = concat (take 44 (config_chunks c))"
    "drop OFF_PVE (enc_config c) = concat (drop 44 (config_chunks c))"
    unfolding e using len by simp_all
  show "split_sizes (take 44 CFG_SIZES) (concat (take 44 (config_chunks c))) = take 44 (config_chunks c)"
    "split_sizes (drop 44 CFG_SIZES) (concat (drop 44 (config_chunks c))) = drop 44 (config_chunks c)"
    unfolding config_lengths [OF assms, symmetric] take_map drop_map split_concat0 by simp_all
qed

text \<open>The fields before the Proxmox block from one image, the rest from another.\<close>

lemma dec_mixed:
  assumes "wf_config c" "wf_config d"
  shows "dec_config (take OFF_PVE (enc_config c) @ drop OFF_PVE (enc_config d)) =
    c\<lparr>ac_pve := ac_pve d, ac_tg_on_pve_host := ac_tg_on_pve_host d, ac_tg_on_pve_guest := ac_tg_on_pve_guest d,
      ac_nut_enabled := ac_nut_enabled d, ac_pve_selftest_hours := ac_pve_selftest_hours d,
      ac_tg_on_battery_pct := ac_tg_on_battery_pct d\<rparr>"
proof -
  have len: "length (concat (take 44 (config_chunks c))) = sum_list (take 44 CFG_SIZES)"
    by (simp add: length_concat take_map [symmetric] config_lengths [OF assms(1)] del: take_map)
  have "split_sizes CFG_SIZES (take OFF_PVE (enc_config c) @ drop OFF_PVE (enc_config d)) =
     take 44 (config_chunks c) @ drop 44 (config_chunks d)"
    by (subst sizes_split, unfold chunks_split(1) [OF assms(1)] chunks_split(2) [OF assms(2)], subst split_append [OF len])
      (simp only: chunks_split(3) [OF assms(1)] chunks_split(4) [OF assms(2)])
  then have f: "split_sizes CFG_SIZES (take OFF_PVE (enc_config c) @ drop OFF_PVE (enc_config d)) =
     take 44 (config_chunks c) @ drop 44 (config_chunks d)" .
  show ?thesis
    unfolding dec_config_def f Let_def config_chunks_def
    using assms by (simp add: wf_config_def image_dec dec_enc_pve)
qed

definition upgraded :: "app_config \<Rightarrow> u32 \<Rightarrow> app_config \<Rightarrow> app_config" where
  "upgraded d v c =
     (let c = c\<lparr>ac_pve := app_config_pve_defaults, ac_tg_on_pve_host := ac_tg_on_pve_host d,
               ac_tg_on_pve_guest := ac_tg_on_pve_guest d, ac_nut_enabled := True,
               ac_pve_selftest_hours := ac_pve_selftest_hours d, ac_tg_on_battery_pct := ac_tg_on_battery_pct d\<rparr>;
          c = (if v < 6 then c\<lparr>ac_log_level := (if ac_ble_probe c then APP_LOG_VERBOSE else APP_LOG_OFF)\<rparr> else c)
      in c\<lparr>ac_ble_probe := (ac_log_level c \<ge> APP_LOG_VERBOSE)\<rparr>)"

lemma old_image:
  assumes "wf_config c" "wf_config d" "ac_pve d = app_config_pve_defaults" "v \<le> 11"
    "buf = enc_u32 v @ take OFF_PVE (enc_config c) @ rest"
  shows "adopt_image d buf = upgraded d v c"
proof -
  have v: "v < 15" using assms(4) by (rule order.strict_trans1) simp
  have img: "drop 4 buf = take OFF_PVE (enc_config c) @ rest" "image_version buf = v"
    unfolding assms(5) by (simp_all add: image_len)
  have "length (take OFF_PVE (enc_config c)) = OFF_PVE" using config_length [OF assms(1)] by simp
  then have "take OFF_PVE (drop 4 buf) = take OFF_PVE (enc_config c)" unfolding img(1) by simp
  note m = this dec_mixed [OF assms(1,2)]
  show ?thesis
    unfolding adopt_image_def upgraded_def img(2) Let_def using v assms(3,4)
    by (cases "8 \<le> v"; cases "v < 6") (simp_all add: m)
qed

lemma defaults_pve [simp]: "ac_pve (app_config_defaults K) = app_config_pve_defaults"
  by (simp add: app_config_defaults_def Let_def set_nut_password_fields)

text \<open>An image of version 3 to 11 that holds the settings before the Proxmox block keeps every one of
  them, whatever bytes follow: the rest comes up at its defaults, the Proxmox shutdown
  off and in dry run, and the NUT server on.\<close>

theorem upgrade_keeps_settings:
  assumes "nvs_ok nv view" "wf_kconfig K" "wf_config c" "3 \<le> v" "v \<le> 11"
    "view st CFG_KEY = Some (enc_u32 v @ take OFF_PVE (enc_config c) @ rest)" "length rest \<le> 7000"
    "nv_open nv st False = ESP_OK"
  shows "app_config_load K nv True st = upgraded (app_config_defaults K) v c"
proof -
  have len: "length (take OFF_PVE (enc_config c)) = OFF_PVE" using config_length [OF assms(3)] by simp
  let ?b = "enc_u32 v @ take OFF_PVE (enc_config c) @ rest"
  have v: "v \<le> CFG_VERSION" using assms(5) by (rule order.trans) simp
  have "app_config_load K nv True st = adopt_image (app_config_defaults K)
      (?b @ drop (length ?b) (enc_u32 CFG_VERSION @ enc_config (app_config_defaults K)))"
    by (subst load_stored [OF assms(1,6) _ assms(8)])
      (use assms(4,7) v len in \<open>simp_all add: image_len Let_def not_less\<close>)
  also have "\<dots> = upgraded (app_config_defaults K) v c"
    by (rule old_image [OF assms(3) wf_defaults [OF assms(2)] defaults_pve assms(5)]) simp
  finally show ?thesis .
qed

lemma dec_tail_pve:
  assumes "wf_config d" "length xs = OFF_PVE"
  shows "ac_pve (dec_config (xs @ drop OFF_PVE (enc_config d))) = ac_pve d"
proof -
  have len: "length xs = sum_list (take 44 CFG_SIZES)" using assms(2) by (simp add: layout_sizes)
  have f: "split_sizes CFG_SIZES (xs @ drop OFF_PVE (enc_config d)) =
     split_sizes (take 44 CFG_SIZES) xs @ drop 44 (config_chunks d)"
    by (subst sizes_split, unfold chunks_split(2) [OF assms(1)], subst split_append [OF len])
      (simp only: chunks_split(4) [OF assms(1)])
  have "(split_sizes (take 44 CFG_SIZES) xs @ drop 44 (config_chunks d)) ! 44 = enc_pve (ac_pve d)"
    by (subst nth_append) (simp add: config_chunks_def CFG_SIZES_def)
  then show ?thesis using assms(1) unfolding dec_config_def f Let_def by (simp add: wf_config_def dec_enc_pve)
qed

lemma adopt_old_pve:
  assumes "wf_config d" "ac_pve d = app_config_pve_defaults" "image_version buf \<le> 11" "4 + OFF_PVE \<le> length buf"
  shows "ac_pve (adopt_image d buf) = app_config_pve_defaults"
proof -
  have "length (take OFF_PVE (drop 4 buf)) = OFF_PVE" using assms(4) by simp
  from dec_tail_pve [OF assms(1) this] show ?thesis
    using assms(2,3) by (simp add: adopt_image_def Let_def)
qed


text \<open>A struct of version 17 ended after the self-test interval, at byte 1826, and its image was padded by two
  bytes to a multiple of four. The first of them is where the reminder switch of version 18 lies, so
  what the old firmware left in the padding becomes the setting.\<close>

theorem padding_becomes_setting:
  assumes "nvs_ok nv view" "wf_kconfig K" "view st CFG_KEY = Some (enc_u32 17 @ img)" "length img = 1828" "nv_open nv st False = ESP_OK"
  shows "ac_tg_on_battery_pct (app_config_load K nv True st) \<longleftrightarrow> img ! 1826 \<noteq> 0"
proof -
  have f: "split_sizes CFG_SIZES img ! 50 = [img ! 1826]"
  proof -
    have "split_sizes CFG_SIZES img = split_sizes (take 50 CFG_SIZES) img @ split_sizes (drop 50 CFG_SIZES) (drop 1826 img)"
      using split_append [of "take 1826 img" "take 50 CFG_SIZES" "drop 50 CFG_SIZES" "drop 1826 img"] assms(4)
      by (simp add: CFG_SIZES_def)
    moreover have "length (split_sizes (take 50 CFG_SIZES) img) = 50" by (simp add: CFG_SIZES_def)
    ultimately have "split_sizes CFG_SIZES img ! 50 = split_sizes (drop 50 CFG_SIZES) (drop 1826 img) ! 0"
      by (metis nth_append_length_plus add.right_neutral)
    then show ?thesis using assms(4) by (simp add: CFG_SIZES_def take_Suc_conv_app_nth hd_drop_conv_nth take_Suc)
  qed
  have "app_config_load K nv True st = adopt_image (app_config_defaults K) (enc_u32 17 @ img)"
    by (subst load_stored [OF assms(1,3) _ assms(5)])
      (use assms(4) config_length [OF wf_defaults [OF assms(2)]] in \<open>simp_all add: image_len Let_def\<close>)
  then show ?thesis by (simp add: adopt_image_def Let_def image_len dec_config_def f dec_bool_def)
qed

section \<open>A store that behaves as documented\<close>

definition map_nvs :: "(string \<Rightarrow> byte list option) nvs" where
  "map_nvs =
     \<lparr>nv_open = (\<lambda>st rw. ESP_OK),
      nv_size = (\<lambda>st k. case st k of None \<Rightarrow> (ESP_ERR_NVS_NOT_FOUND, 0) | Some b \<Rightarrow> (ESP_OK, length b)),
      nv_get = (\<lambda>st k cap. case st k of None \<Rightarrow> (ESP_ERR_NVS_NOT_FOUND, [])
                 | Some b \<Rightarrow> if length b \<le> cap then (ESP_OK, b) else (0x110C, [])),
      nv_set = (\<lambda>st k b. (ESP_OK, st(k \<mapsto> b))),
      nv_erase = (\<lambda>st k. if st k = None then (ESP_ERR_NVS_NOT_FOUND, st) else (ESP_OK, st(k := None))),
      nv_commit = (\<lambda>st. (ESP_OK, st))\<rparr>"

lemma map_nvs_ok: "nvs_ok map_nvs (\<lambda>st. st)"
  by (auto simp: nvs_ok_def map_nvs_def split: if_splits)

definition ex_kconfig :: kconfig where
  "ex_kconfig = \<lparr>k_wifi_ssid = ''myssid'', k_wifi_password = ''mypassword'', k_ble_address = [], k_ups_name = ''bluetti'',
     k_nut_tcp_port = 3493, k_poll_interval_ms = 5000, k_battery_low_pct = 20, k_ac_rating_w = 200, k_runtime_low_s = 300,
     k_led_gpio = 48, k_mac = [1, 2, 3, 4, 5, 6], k_sha256 = (\<lambda>bs. replicate 32 7), k_random = replicate 16 9\<rparr>"

lemma ex_kconfig_wf: "wf_kconfig ex_kconfig"
  by (simp add: wf_kconfig_def ex_kconfig_def)

definition ex_config :: app_config where
  "ex_config = (app_config_defaults ex_kconfig)\<lparr>ac_wifi_ssid := ''home'', ac_provisioned := True, ac_log_level := 2\<rparr>"

lemma ex_config_wf: "wf_config ex_config"
  using wf_defaults [OF ex_kconfig_wf] by (simp add: ex_config_def wf_config_def str_fits_def)

theorem save_load_round_trip_witness:
  "app_config_load ex_kconfig map_nvs True (snd (app_config_save map_nvs True (\<lambda>_. None) ex_config)) =
     ex_config\<lparr>ac_ble_probe := True\<rparr>"
proof -
  let ?st = "snd (app_config_save map_nvs True (\<lambda>_. None) ex_config)"
  have save: "app_config_save map_nvs True (\<lambda>_. None) ex_config = (ESP_OK, ?st)"
    by (simp add: app_config_save_def map_nvs_def Let_def)
  have "nv_open map_nvs ?st False = ESP_OK" by (simp add: map_nvs_def)
  from save_load_round_trip [OF map_nvs_ok save ex_config_wf this, of ex_kconfig]
  show ?thesis by (simp add: ex_config_def)
qed

theorem upgrade_keeps_settings_witness:
  "ac_wifi_ssid (app_config_load ex_kconfig map_nvs True
     [CFG_KEY \<mapsto> enc_u32 10 @ take OFF_PVE (enc_config ex_config) @ replicate 3000 255]) = ''home''"
proof -
  let ?st = "[CFG_KEY \<mapsto> enc_u32 10 @ take OFF_PVE (enc_config ex_config) @ replicate 3000 255] :: string \<Rightarrow> byte list option"
  have "nv_open map_nvs ?st False = ESP_OK" by (simp add: map_nvs_def)
  from upgrade_keeps_settings [OF map_nvs_ok ex_kconfig_wf ex_config_wf, of 10 ?st "replicate 3000 255", OF _ _ _ _ this]
  show ?thesis by (simp add: upgraded_def ex_config_def Let_def)
qed


theorem padding_becomes_setting_witness:
  "ac_tg_on_battery_pct (app_config_load ex_kconfig map_nvs True [CFG_KEY \<mapsto> enc_u32 17 @ replicate 1826 0 @ [165, 90]]) \<and>
   \<not> ac_tg_on_battery_pct (app_config_defaults ex_kconfig)"
proof -
  let ?st = "[CFG_KEY \<mapsto> enc_u32 17 @ replicate 1826 0 @ [165, 90]] :: string \<Rightarrow> byte list option"
  have "nv_open map_nvs ?st False = ESP_OK" by (simp add: map_nvs_def)
  from padding_becomes_setting [OF map_nvs_ok ex_kconfig_wf _ _ this, of "replicate 1826 0 @ [165, 90]"]
  show ?thesis by (simp add: nth_append app_config_defaults_def Let_def set_nut_password_fields)
qed

section \<open>Guest rules and passwords\<close>

definition wf_guest :: "pve_guest \<Rightarrow> bool" where
  "wf_guest g \<longleftrightarrow> - (2 ^ 31) \<le> g_id g \<and> g_id g < 2 ^ 31"

lemma dec_enc_guest: "wf_guest g \<Longrightarrow> dec_guest (enc_guest g) = g"
proof -
  assume "wf_guest g"
  then have "sint (word_of_int (g_id g) :: u32) = g_id g"
    by (simp add: wf_guest_def signed_of_int signed_take_bit_int_eq_self)
  moreover have "dec_u32 (enc_guest g) = word_of_int (g_id g)"
    using dec_enc_u32 by (simp add: enc_guest_def dec_u32_def enc_u32_def)
  moreover have "drop 4 (enc_guest g) = enc_u16 (g_on_battery_min g) @ [g_charge_pct g, 0]"
    by (simp add: enc_guest_def image_len)
  moreover have "enc_guest g ! 6 = g_charge_pct g"
    by (simp add: enc_guest_def enc_u16_def enc_u32_def)
  moreover have "dec_u16 (enc_u16 w @ r) = w" for w r
    using dec_enc_u16 [of w] by (simp add: dec_u16_def enc_u16_def)
  ultimately show ?thesis by (simp add: dec_guest_def)
qed

lemma enc_guest_length [simp]: "length (enc_guest g) = 8"
  by (simp add: enc_guest_def image_len)

lemma guests_length: "length (concat (map enc_guest gs)) = 8 * length gs"
  by (induction gs) auto

lemma guests_split: "split_sizes (replicate (length gs) 8) (concat (map enc_guest gs)) = map enc_guest gs"
  by (induction gs) auto

lemma guests_round_trip:
  assumes "nvs_ok nv view" "app_config_pve_guests_save nv st i gs = (ESP_OK, st')" "gs \<noteq> []" "\<forall>g \<in> set gs. wf_guest g"
    "nv_open nv st' False = ESP_OK"
  shows "app_config_pve_guests_load nv True st' i = gs"
proof -
  from assms(2,3) obtain st1 where i: "0 \<le> i" "i < int PVE_MAX_HOSTS"
    and st1: "nv_set nv st (guest_key (nat i)) (concat (map enc_guest gs)) = (ESP_OK, st1)" "nv_commit nv st1 = (ESP_OK, st')"
    by (auto simp: app_config_pve_guests_save_def Let_def split: if_splits prod.splits)
  from nvs_rules(3) [OF assms(1) st1(1)] nvs_rules(4) [OF assms(1) st1(2)]
  have view: "view st' (guest_key (nat i)) = Some (concat (map enc_guest gs))" by simp
  from nvs_rules(1) [OF assms(1), of st' "guest_key (nat i)"] nvs_rules(2) [OF assms(1) view order.refl] view
  have "nv_size nv st' (guest_key (nat i)) = (ESP_OK, 8 * length gs)"
    "nv_get nv st' (guest_key (nat i)) (8 * length gs) = (ESP_OK, concat (map enc_guest gs))"
    by (simp_all add: guests_length)
  then show ?thesis using i assms(3,4,5)
    by (simp add: app_config_pve_guests_load_def guests_length guests_split dec_enc_guest map_idI)
qed

lemma fold_or_zero: "fold (\<lambda>i d. d OR f i) ns (d0 :: byte) = 0 \<longleftrightarrow> d0 = 0 \<and> (\<forall>i \<in> set ns. f i = 0)"
proof (induction ns arbitrary: d0)
  case (Cons i ns)
  have "d0 OR f i = 0 \<longleftrightarrow> d0 = 0 \<and> f i = 0" by (metis or.left_idem or.right_neutral or_eq_0_iff)
  then show ?case using Cons by auto
qed simp

lemma xor_zero_iff: "a XOR b = (0 :: byte) \<longleftrightarrow> a = b"
proof
  assume "a XOR b = 0"
  then have "a XOR (a XOR b) = a" by simp
  then show "a = b" by (simp flip: xor.assoc)
qed simp

text \<open>The comparison without early exit is equality.\<close>

lemma secret_diff_eq: "length want = 32 \<Longrightarrow> length hash = 32 \<Longrightarrow> secret_diff want hash = 0 \<longleftrightarrow> want = hash"
  by (auto simp: secret_diff_def fold_or_zero list_eq_iff_nth_eq xor_zero_iff)

lemma nut_password_checked:
  assumes "\<forall>bs. length (sha bs) = 32" "pw \<noteq> []"
  shows "app_config_check_nut_password sha (app_config_set_nut_password sha random c (Some pw)) (Some q) \<longleftrightarrow>
    hash_password sha random q = hash_password sha random pw"
  using assms
  by (simp add: app_config_check_nut_password_def app_config_set_nut_password_def set_secret_def check_secret_def
      secret_diff_eq hash_password_def)

end
