(* ===== verification/Led_Status.thy ===== *)
theory Led_Status
  imports Bridge_Prelude
begin

text \<open>
  The status LED, \<^verbatim>\<open>components/led_status/led_status.c\<close>. The record \<open>led\<close> is the file's static state \<^verbatim>\<open>L\<close>,
  with a flag for each driver handle; \<open>l_frames\<close> logs the colours the driver transmitted. The RMT
  driver is a parameter: \<open>rmt\<close> gives the results of setting a pin up, \<open>tx\<close> whether transmission
  number \<open>k\<close> succeeds. Bit timings are not modelled.
\<close>

abbreviation LED_LEVEL :: u8 where "LED_LEVEL \<equiv> 24"

datatype led_state = LED_STATE_BOOT | LED_STATE_LINKED

type_synonym colour = "u8 \<times> u8 \<times> u8"

record led =
  l_chan :: bool
  l_bytes_enc :: bool
  l_copy_enc :: bool
  l_gpio :: int
  l_ready :: bool
  l_enabled :: bool
  l_state :: led_state
  l_tx_n :: nat
  l_frames :: "colour list"

record rmt =
  rmt_channel_ok :: bool
  rmt_bytes_ok :: bool
  rmt_copy_ok :: bool
  rmt_enable_ok :: bool

definition led_send :: "(nat \<Rightarrow> bool) \<Rightarrow> u8 \<Rightarrow> u8 \<Rightarrow> u8 \<Rightarrow> led \<Rightarrow> led" where
  "led_send tx r g b L =
     (if \<not> l_ready L then L
      else let L' = L\<lparr>l_tx_n := Suc (l_tx_n L)\<rparr>
           in if tx (l_tx_n L) then L'\<lparr>l_frames := l_frames L @ [(r, g, b)]\<rparr> else L')"

definition paint :: "(nat \<Rightarrow> bool) \<Rightarrow> led \<Rightarrow> led" where
  "paint tx L =
     (if \<not> l_enabled L then led_send tx 0 0 0 L
      else case l_state L of
             LED_STATE_LINKED \<Rightarrow> led_send tx 0 LED_LEVEL 0 L
           | LED_STATE_BOOT \<Rightarrow> led_send tx LED_LEVEL 0 0 L)"

definition teardown :: "led \<Rightarrow> led" where
  "teardown L = L\<lparr>l_ready := False, l_chan := False, l_bytes_enc := False, l_copy_enc := False\<rparr>"

definition build :: "(nat \<Rightarrow> bool) \<Rightarrow> rmt \<Rightarrow> int \<Rightarrow> led \<Rightarrow> int \<times> led" where
  "build tx R gpio L =
     (let L = (teardown L)\<lparr>l_gpio := gpio\<rparr>
      in if gpio < 0 then (0, L)
         else if \<not> rmt_channel_ok R then (- 1, L)
         else
           let L = L\<lparr>l_chan := True\<rparr>
           in if \<not> rmt_bytes_ok R then (- 1, teardown L)
              else if \<not> rmt_copy_ok R then (- 1, teardown (L\<lparr>l_bytes_enc := True\<rparr>))
              else
                let L = L\<lparr>l_bytes_enc := True, l_copy_enc := True\<rparr>
                in if \<not> rmt_enable_ok R then (- 1, teardown L)
                   else (0, paint tx (L\<lparr>l_ready := True\<rparr>)))"

definition led_status_init :: "(nat \<Rightarrow> bool) \<Rightarrow> rmt \<Rightarrow> int \<Rightarrow> bool \<Rightarrow> led \<Rightarrow> int \<times> led" where
  "led_status_init tx R gpio enabled L = build tx R gpio (L\<lparr>l_enabled := enabled, l_state := LED_STATE_BOOT\<rparr>)"

definition led_status_reinit :: "(nat \<Rightarrow> bool) \<Rightarrow> rmt \<Rightarrow> int \<Rightarrow> led \<Rightarrow> int \<times> led" where
  "led_status_reinit tx R gpio L = (if gpio = l_gpio L \<and> l_ready L then (0, L) else build tx R gpio L)"

definition led_status_gpio :: "led \<Rightarrow> int" where
  "led_status_gpio L = l_gpio L"

definition led_status_set :: "(nat \<Rightarrow> bool) \<Rightarrow> led_state \<Rightarrow> led \<Rightarrow> led" where
  "led_status_set tx state L = (if l_state L = state then L else paint tx (L\<lparr>l_state := state\<rparr>))"

definition led_status_enable :: "(nat \<Rightarrow> bool) \<Rightarrow> bool \<Rightarrow> led \<Rightarrow> led" where
  "led_status_enable tx on L = paint tx (L\<lparr>l_enabled := on\<rparr>)"

definition led_status_enabled :: "led \<Rightarrow> bool" where
  "led_status_enabled L = l_enabled L"

definition IDENTIFY_SEQ :: "colour list" where
  "IDENTIFY_SEQ = [(64, 0, 0), (0, 64, 0), (0, 0, 64), (0, 0, 0)]"

definition led_status_identify :: "(nat \<Rightarrow> bool) \<Rightarrow> led \<Rightarrow> bool \<times> led" where
  "led_status_identify tx L =
     (if \<not> l_ready L then (False, L)
      else (True, paint tx (fold (\<lambda>(r, g, b). led_send tx r g b) IDENTIFY_SEQ L)))"

section \<open>What the LED shows\<close>

definition expected_colour :: "led \<Rightarrow> colour" where
  "expected_colour L =
     (if \<not> l_enabled L then (0, 0, 0)
      else if l_state L = LED_STATE_LINKED then (0, LED_LEVEL, 0) else (LED_LEVEL, 0, 0))"

text \<open>A LED that is up shows the colour of its state, and only a LED with all its handles is up.\<close>

definition led_inv :: "led \<Rightarrow> bool" where
  "led_inv L \<longleftrightarrow>
     (l_ready L \<longrightarrow> l_frames L \<noteq> [] \<and> last (l_frames L) = expected_colour L \<and>
        l_chan L \<and> l_bytes_enc L \<and> l_copy_enc L \<and> 0 \<le> l_gpio L)"

datatype led_op = LInit rmt int bool | LReinit rmt int | LSet led_state | LEnable bool | LIdentify

fun led_step :: "(nat \<Rightarrow> bool) \<Rightarrow> led_op \<Rightarrow> led \<Rightarrow> led" where
  "led_step tx (LInit R gpio on) L = snd (led_status_init tx R gpio on L)"
| "led_step tx (LReinit R gpio) L = snd (led_status_reinit tx R gpio L)"
| "led_step tx (LSet s) L = led_status_set tx s L"
| "led_step tx (LEnable on) L = led_status_enable tx on L"
| "led_step tx LIdentify L = snd (led_status_identify tx L)"

lemma paint_shows:
  assumes "\<forall>k. tx k" "l_ready L"
  shows "paint tx L = L\<lparr>l_tx_n := Suc (l_tx_n L), l_frames := l_frames L @ [expected_colour L]\<rparr>"
  using assms by (cases "l_state L") (simp_all add: paint_def led_send_def expected_colour_def Let_def)

lemma paint_down: "\<not> l_ready L \<Longrightarrow> paint tx L = L"
  by (cases "l_state L") (simp_all add: paint_def led_send_def)

lemma paint_inv:
  assumes "\<forall>k. tx k" "l_ready L \<Longrightarrow> l_chan L \<and> l_bytes_enc L \<and> l_copy_enc L \<and> 0 \<le> l_gpio L"
  shows "led_inv (paint tx L)"
proof (cases "l_ready L")
  case True
  then show ?thesis
    unfolding paint_shows [OF assms(1) True] using assms(2) by (simp add: led_inv_def expected_colour_def)
qed (simp add: paint_down led_inv_def)

lemma build_inv: "\<forall>k. tx k \<Longrightarrow> led_inv (snd (build tx R gpio L))"
proof -
  assume tx: "\<forall>k. tx k"
  show ?thesis
  proof (cases "gpio < 0 \<or> \<not> rmt_channel_ok R \<or> \<not> rmt_bytes_ok R \<or> \<not> rmt_copy_ok R \<or> \<not> rmt_enable_ok R")
    case True
    then show ?thesis by (auto simp: build_def Let_def teardown_def led_inv_def)
  next
    case False
    then show ?thesis using tx by (simp add: build_def Let_def teardown_def paint_inv)
  qed
qed

lemma led_send_fields: "l_ready (led_send tx r g b L) = l_ready L" "l_chan (led_send tx r g b L) = l_chan L"
  "l_bytes_enc (led_send tx r g b L) = l_bytes_enc L" "l_copy_enc (led_send tx r g b L) = l_copy_enc L"
  "l_gpio (led_send tx r g b L) = l_gpio L"
  by (simp_all add: led_send_def Let_def)

lemma step_inv: "\<forall>k. tx k \<Longrightarrow> led_inv L \<Longrightarrow> led_inv (led_step tx op L)"
proof (induction "op")
  case (LInit R gpio on)
  then show ?case by (simp add: led_status_init_def build_inv)
next
  case (LReinit R gpio)
  then show ?case by (simp add: led_status_reinit_def build_inv)
next
  case (LSet s)
  then show ?case by (auto simp: led_status_set_def led_inv_def [of L] intro!: paint_inv)
next
  case (LEnable on)
  then show ?case by (auto simp: led_status_enable_def led_inv_def [of L] intro!: paint_inv)
next
  case LIdentify
  then show ?case
    by (auto simp: led_status_identify_def IDENTIFY_SEQ_def led_send_fields led_inv_def [of L] intro!: paint_inv)
qed

text \<open>As long as transmissions succeed, a LED that is up shows the colour of its state (green once linked,
  red before, dark when switched off) after any sequence of calls, identification included.\<close>

theorem led_shows_state:
  assumes "\<forall>k. tx k" "\<not> l_ready L0"
  shows "led_inv (fold (led_step tx) ops L0)"
proof -
  have "led_inv L0" using assms(2) by (simp add: led_inv_def)
  then show ?thesis using step_inv [OF assms(1)] by (induction ops arbitrary: L0) simp_all
qed

definition led_zero :: led where
  "led_zero = \<lparr>l_chan = False, l_bytes_enc = False, l_copy_enc = False, l_gpio = 0, l_ready = False,
     l_enabled = False, l_state = LED_STATE_BOOT, l_tx_n = 0, l_frames = []\<rparr>"

theorem led_shows_state_witness:
  "let L = fold (led_step (\<lambda>_. True)) [LInit \<lparr>rmt_channel_ok = True, rmt_bytes_ok = True, rmt_copy_ok = True,
       rmt_enable_ok = True\<rparr> 48 True, LSet LED_STATE_LINKED, LIdentify] led_zero
   in l_ready L \<and> last (l_frames L) = (0, LED_LEVEL, 0)"
proof -
  let ?ops = "[LInit \<lparr>rmt_channel_ok = True, rmt_bytes_ok = True, rmt_copy_ok = True, rmt_enable_ok = True\<rparr> 48 True,
    LSet LED_STATE_LINKED, LIdentify]"
  let ?L = "fold (led_step (\<lambda>_. True)) ?ops led_zero"
  have "led_inv ?L" by (rule led_shows_state) (simp_all add: led_zero_def)
  moreover have "l_ready ?L" "l_enabled ?L" "l_state ?L = LED_STATE_LINKED"
    by (simp_all add: led_status_init_def build_def teardown_def paint_def led_send_def led_status_set_def
        led_status_identify_def IDENTIFY_SEQ_def led_zero_def Let_def)
  ultimately show ?thesis by (simp add: led_inv_def expected_colour_def)
qed

end
