(* ===== verification/Bridge_Main.thy ===== *)
theory Bridge_Main
  imports Pve_Shutdown Nut_Server Bluetti_Ble Notify App_Config Led_Status
begin

text \<open>
  The bridge itself, \<^verbatim>\<open>main/main.c\<close>: what one decoded reading of the power station does to the NUT
  variable table, to the Proxmox shutdown, to the notifier and to the LED, what the staleness timer does when
  readings stop, the login check, the start of the services and the choices of the boot. The record
  \<open>bridge\<close> joins the states of the components; the configuration in it is the file's static
  \<^verbatim>\<open>s_cfg\<close>. The environment's parameters are joined in \<open>bridge_env\<close>.

  The lemmas show that the variable table never fills up, so that after any run every variable reads
  as the calls left it, and that NUT clients, the shutdown engine and the notifier are told the same
  about the power in every step.
\<close>

abbreviation STALE_AFTER_US :: int where "STALE_AFTER_US \<equiv> 30 * 1000 * 1000"

record ('q, 'pt) bridge =
  br_cfg :: app_config
  br_nut :: nut_server
  br_pve :: pve_runtime
  br_notify :: "'q notify"
  br_led :: led
  br_ble :: "'pt ble"

text \<open>\<open>be_alloc\<close> and \<open>be_task_ok\<close>: whether an array can be allocated and a worker created; \<open>be_tx\<close>:
  whether transmissions to the LED succeed.\<close>

record 'q bridge_env =
  be_queue :: "'q queue_ops"
  be_alloc :: "nat \<Rightarrow> bool"
  be_task_ok :: bool
  be_tx :: "nat \<Rightarrow> bool"
  be_sha256 :: "byte list \<Rightarrow> byte list"

section \<open>The reset button\<close>

text \<open>\<open>level k\<close> is the \<open>k\<close>-th sample of the pin; after the first the loop takes one sample per 100 ms.\<close>

fun hold_loop :: "(nat \<Rightarrow> bool) \<Rightarrow> nat \<Rightarrow> nat \<Rightarrow> bool" where
  "hold_loop level k 0 = True"
| "hold_loop level k (Suc n) = (if level k then False else hold_loop level (Suc k) n)"

definition reset_button_held :: "(nat \<Rightarrow> bool) \<Rightarrow> nat \<Rightarrow> bool" where
  "reset_button_held level hold_ms = (if level 0 then False else hold_loop level 1 ((hold_ms + 99) div 100))"

section \<open>From a reading to NUT variables\<close>

text \<open>The calls \<^verbatim>\<open>nut_server_set_var_int\<close> and \<^verbatim>\<open>nut_server_set_var_float\<close> as calls of \<^verbatim>\<open>nut_server_set_var\<close>.\<close>

definition set_int :: "string \<Rightarrow> int \<Rightarrow> var_op" where
  "set_int n v = SetVar n (snprintf_buf 24 (show_int v))"

definition set_float :: "string \<Rightarrow> rat \<Rightarrow> nat \<Rightarrow> var_op" where
  "set_float n v d = SetVar n (snprintf_buf 32 (show_fixed d v))"

lemma set_int_call: "nut_apply (set_int n v) s = nut_server_set_var_int s (Some n) v"
  by (simp add: set_int_def nut_apply_def nut_server_set_var_int_def)

lemma set_float_call: "nut_apply (set_float n v d) s = nut_server_set_var_float s (Some n) v d"
  by (simp add: set_float_def nut_apply_def nut_server_set_var_float_def)

abbreviation calls_if :: "bool \<Rightarrow> 'a list \<Rightarrow> 'a list" where
  "calls_if b xs \<equiv> (if b then xs else [])"

text \<open>The runtime estimate in seconds, -1 when there is none.\<close>

definition runtime_estimate :: "app_config \<Rightarrow> bluetti_state \<Rightarrow> int" where
  "runtime_estimate cfg st =
     (let cap_wh = (if ac_battery_wh cfg > 0 then uint (ac_battery_wh cfg) else b_design_capacity_wh st)
      in if \<not> b_ac_input_present st \<and> b_minutes_remaining st \<ge> 0 then b_minutes_remaining st * 60
         else if cap_wh > 0 \<and> b_soc_pct st > 0 then
           let load_w = (if b_output_watts st \<ge> 1 then b_output_watts st else of_int (uint (ac_ac_rating_w cfg)))
           in if load_w \<ge> 1 then
                let wh_left = fdiv (fmul (of_int cap_wh) (of_int (b_soc_pct st))) 100;
                    secs = fmul (fdiv wh_left load_w) 3600
                in if secs > 4000000 then 4000000 else f2i secs
              else - 1
         else - 1)"

definition runtime_ops :: "app_config \<Rightarrow> bluetti_state \<Rightarrow> var_op list" where
  "runtime_ops cfg st =
     (let rt = runtime_estimate cfg st
      in if rt \<ge> 0 then [set_int ''battery.runtime'' rt] else [ClearVar ''battery.runtime''])"

definition battery_ops :: "app_config \<Rightarrow> bluetti_state \<Rightarrow> var_op list" where
  "battery_ops cfg st =
     calls_if (b_soc_pct st \<ge> 0) [set_int ''battery.charge'' (b_soc_pct st)] @
     [set_int ''battery.charge.low'' (b_soc_low_pct st)] @
     runtime_ops cfg st @
     calls_if (b_battery_temp_c st > - 100) [set_float ''battery.temperature'' (b_battery_temp_c st) 1] @
     calls_if (b_battery_voltage st > 0) [set_float ''battery.voltage'' (b_battery_voltage st) 2] @
     (if b_design_capacity_wh st > 0 then [set_int ''battery.capacity'' (b_design_capacity_wh st)]
      else calls_if (ac_battery_wh cfg > 0) [set_int ''battery.capacity'' (uint (ac_battery_wh cfg))])"

definition power_ops :: "bluetti_state \<Rightarrow> var_op list" where
  "power_ops st =
     calls_if (b_output_watts st \<ge> 0) [set_float ''ups.realpower'' (b_output_watts st) 0] @
     calls_if (b_input_watts st \<ge> 0) [set_float ''input.realpower'' (b_input_watts st) 0] @
     calls_if (b_ac_in_watts st \<ge> 0) [set_float ''input.realpower.ac'' (b_ac_in_watts st) 0] @
     calls_if (b_dc_in_watts st \<ge> 0) [set_float ''input.realpower.dc'' (b_dc_in_watts st) 0] @
     calls_if (b_ac_out_watts st \<ge> 0) [set_float ''output.realpower'' (b_ac_out_watts st) 0] @
     calls_if (b_dc_out_watts st \<ge> 0) [set_float ''output.realpower.dc'' (b_dc_out_watts st) 0] @
     calls_if (b_ac_in_volts st \<ge> 0) [set_float ''input.voltage'' (b_ac_in_volts st) 1] @
     calls_if (b_ac_in_amps st \<ge> 0) [set_float ''input.current'' (b_ac_in_amps st) 1] @
     calls_if (b_ac_out_volts st \<ge> 0) [set_float ''output.voltage'' (b_ac_out_volts st) 1]"

text \<open>One output bank as a NUT outlet.\<close>

definition outlet_ops :: "string \<Rightarrow> string \<Rightarrow> int \<Rightarrow> rat \<Rightarrow> var_op list" where
  "outlet_ops outlet desc sw watts =
     calls_if (sw \<ge> 0 \<or> watts \<ge> 0)
       ([SetVar (outlet @ ''.desc'') desc] @
        calls_if (sw \<ge> 0) [SetVar (outlet @ ''.status'') (if sw \<noteq> 0 then ''on'' else ''off'')] @
        calls_if (watts \<ge> 0) [set_float (outlet @ ''.realpower'') watts 0])"

definition load_ops :: "app_config \<Rightarrow> bluetti_state \<Rightarrow> var_op list" where
  "load_ops cfg st =
     calls_if (b_output_watts st \<ge> 0 \<and> ac_ac_rating_w cfg > 0)
       (let load = f2i (fdiv (fmul (b_output_watts st) 100) (of_int (uint (ac_ac_rating_w cfg))))
        in [set_int ''ups.load'' (if load > 100 then 100 else load)])"

definition ident_ops :: "bluetti_state \<Rightarrow> var_op list" where
  "ident_ops st =
     (if b_error_code st \<noteq> 0 then [set_int ''ups.alarm'' (sint (b_error_code st))] else [ClearVar ''ups.alarm'']) @
     calls_if (b_serial st \<noteq> []) [SetVar ''device.serial'' (b_serial st), SetVar ''ups.serial'' (b_serial st)] @
     calls_if (b_model st \<noteq> []) [SetVar ''device.model'' (b_model st), SetVar ''ups.model'' (b_model st)]"

definition reading_ops :: "app_config \<Rightarrow> bluetti_state \<Rightarrow> var_op list" where
  "reading_ops cfg st =
     battery_ops cfg st @ power_ops st @
     outlet_ops ''outlet.1'' ''AC'' (b_ac_switch st) (b_ac_out_watts st) @
     outlet_ops ''outlet.2'' ''DC'' (b_dc_switch st) (b_dc_out_watts st) @
     calls_if (b_ac_switch st \<ge> 0 \<or> b_dc_switch st \<ge> 0 \<or> b_ac_out_watts st \<ge> 0 \<or> b_dc_out_watts st \<ge> 0)
       [SetVar ''outlet.count'' ''2''] @
     load_ops cfg st @ ident_ops st"

section \<open>The power state\<close>

definition low_charge :: "bluetti_state \<Rightarrow> bool" where
  "low_charge st \<longleftrightarrow> b_soc_pct st \<ge> 0 \<and> b_soc_pct st \<le> b_soc_low_pct st"

definition low_runtime :: "app_config \<Rightarrow> bluetti_state \<Rightarrow> bool" where
  "low_runtime cfg st \<longleftrightarrow> ac_runtime_low_s cfg > 0 \<and> b_minutes_remaining st \<ge> 0 \<and>
     b_minutes_remaining st * 60 \<le> uint (ac_runtime_low_s cfg)"

definition ups_status_text :: "app_config \<Rightarrow> bluetti_state \<Rightarrow> string" where
  "ups_status_text cfg st =
     (if b_ac_input_present st then
        let s = strlcpy 24 ''OL''
        in if b_charging st then strlcat 24 s '' CHRG'' else s
      else
        let s = strlcpy 24 ''OB'';
            s = (if low_charge st \<or> low_runtime cfg st then strlcat 24 s '' LB'' else s)
        in strlcat 24 s (if b_charging st then '' CHRG'' else '' DISCHRG''))"

definition observe_power_state ::
    "'q bridge_env \<Rightarrow> bool \<Rightarrow> bool \<Rightarrow> int \<Rightarrow> int \<Rightarrow> ('q, 'pt) bridge \<Rightarrow> ('q, 'pt) bridge" where
  "observe_power_state E known on_mains soc now B =
     B\<lparr>br_pve := fst (pve_shutdown_observe (be_alloc E) (be_task_ok E) (br_pve B) known on_mains soc now)\<rparr>"

definition publish_nut_from_bluetti ::
    "'q bridge_env \<Rightarrow> int \<Rightarrow> bluetti_state \<Rightarrow> ('q, 'pt) bridge \<Rightarrow> ('q, 'pt) bridge" where
  "publish_nut_from_bluetti E now st B =
     (if \<not> b_valid st then B
      else
        let B = B\<lparr>br_nut := fold nut_apply (reading_ops (br_cfg B) st) (br_nut B)\<rparr>
        in if \<not> b_sweep_done st then
             let B = B\<lparr>br_nut := nut_server_set_status (br_nut B) (Some ''OL WAIT'')\<rparr>
             in observe_power_state E False False (- 1) now B
           else
             let B = observe_power_state E True (b_ac_input_present st) (b_soc_pct st) now B;
                 status = ups_status_text (br_cfg B) st;
                 B = B\<lparr>br_nut := nut_server_set_status (br_nut B) (Some status)\<rparr>
             in B\<lparr>br_notify := notify_ups_status (be_queue E) now (Some status) (b_soc_pct st)
                    (if b_ac_input_present st then - 1 else b_minutes_remaining st) (br_notify B)\<rparr>)"

definition bluetti_cb :: "'q bridge_env \<Rightarrow> int \<Rightarrow> bluetti_state \<Rightarrow> ('q, 'pt) bridge \<Rightarrow> ('q, 'pt) bridge" where
  "bluetti_cb E now st B =
     publish_nut_from_bluetti E now st (B\<lparr>br_led := led_status_set (be_tx E) LED_STATE_LINKED (br_led B)\<rparr>)"

text \<open>One round of \<^verbatim>\<open>staleness_task\<close>, after its wait.\<close>

definition staleness_task :: "'q bridge_env \<Rightarrow> int \<Rightarrow> ('q, 'pt) bridge \<Rightarrow> ('q, 'pt) bridge" where
  "staleness_task E now B =
     (let (have_state, st) = bluetti_ble_get_state (br_ble B);
          connected = bluetti_ble_connected (br_ble B);
          stale = (\<not> have_state \<or> now - b_updated_us st > STALE_AFTER_US);
          B = B\<lparr>br_led := led_status_set (be_tx E)
                 (if connected \<and> \<not> stale then LED_STATE_LINKED else LED_STATE_BOOT) (br_led B)\<rparr>
      in if stale then
           let s = (if connected then ''OL WAIT'' else ''OFF'');
               B = B\<lparr>br_nut := nut_server_set_status (br_nut B) (Some s)\<rparr>;
               B = B\<lparr>br_nut := nut_server_set_var (br_nut B) (Some ''driver.state'')
                      (Some (if connected then ''connected-no-data'' else ''disconnected''))\<rparr>;
               B = B\<lparr>br_notify := notify_ups_status (be_queue E) now (Some s)
                      (if have_state then b_soc_pct st else 0) (- 1) (br_notify B)\<rparr>
           in observe_power_state E False False (- 1) now B
         else B\<lparr>br_nut := nut_server_set_var (br_nut B) (Some ''driver.state'') (Some ''updated'')\<rparr>)"

section \<open>Logins and events\<close>

definition nut_verify_login :: "(byte list \<Rightarrow> byte list) \<Rightarrow> app_config \<Rightarrow> string option \<Rightarrow> string option \<Rightarrow> bool" where
  "nut_verify_login sha cfg user pass =
     (case (user, pass) of
        (Some u, Some p) \<Rightarrow> if u = [] then False else u = ac_nut_user cfg \<and> app_config_check_nut_password sha cfg (Some p)
      | _ \<Rightarrow> False)"

definition pve_event :: "'q bridge_env \<Rightarrow> int \<Rightarrow> pve_event_kind \<Rightarrow> string \<Rightarrow> ('q, 'pt) bridge \<Rightarrow> ('q, 'pt) bridge" where
  "pve_event E now kind text B =
     (if (if kind = PVE_EVENT_GUEST then ac_tg_on_pve_guest (br_cfg B) else ac_tg_on_pve_host (br_cfg B))
      then B\<lparr>br_notify := snd (notify_send (be_queue E) now (Some text) (br_notify B))\<rparr> else B)"

section \<open>Starting the services\<close>

text \<open>What the operating system and the libraries answer while the services start.\<close>

record 'q start_env =
  se_fw_version :: "string option"
  se_nut_mutex :: bool
  se_nut_task :: bool
  se_ble_host :: bool
  se_notify_lock :: bool
  se_notify_queue :: "'q option"
  se_notify_task :: bool
  se_pve_mutex :: bool
  se_malloc :: bool

definition start_nut :: "'q bridge_env \<Rightarrow> 'q start_env \<Rightarrow> app_config \<Rightarrow> nut_server \<Rightarrow> nut_server" where
  "start_nut E S cfg s =
     (let s = (if ac_nut_auth_set cfg
               then nut_server_set_auth s (Some (\<lambda>u p. nut_verify_login (be_sha256 E) cfg (Some u) (Some p))) else s);
          s = snd (nut_server_start s
                (Some \<lparr>nc_ups_name = Some (ac_ups_name cfg), nc_ups_desc = Some ''BLUETTI via ESP32'',
                       nc_fw_version = se_fw_version S, nc_tcp_port = unat (ac_nut_port cfg), nc_max_clients = 4\<rparr>)
                (se_nut_mutex S) (se_nut_task S));
          s = (if ac_ac_rating_w cfg > 0
               then nut_server_set_var_int s (Some ''ups.realpower.nominal'') (uint (ac_ac_rating_w cfg)) else s)
      in if ac_runtime_low_s cfg > 0
         then nut_server_set_var_int s (Some ''battery.runtime.low'') (uint (ac_runtime_low_s cfg)) else s)"

definition start_ble :: "'q start_env \<Rightarrow> app_config \<Rightarrow> 'pt ble \<Rightarrow> 'pt ble" where
  "start_ble S cfg b =
     (if ac_ble_addr cfg = [] then b
      else snd (bluetti_ble_start b
             \<lparr>bc_address = Some (ac_ble_addr cfg), bc_poll_interval_ms = unat (ac_poll_ms cfg),
              bc_low_battery_pct = uint (ac_low_pct cfg), bc_probe = False, bc_controls = ac_controls_enabled cfg\<rparr>
             (se_ble_host S) True))"

definition notify_settings :: "app_config \<Rightarrow> notify_config" where
  "notify_settings cfg =
     \<lparr>nc_enabled = ac_tg_enabled cfg, nc_bot_token = strlcpy 64 (ac_tg_token cfg), nc_chat_id = strlcpy 24 (ac_tg_chat cfg),
      nc_on_power = ac_tg_on_power cfg, nc_on_low_batt = ac_tg_on_low_batt cfg, nc_on_link = ac_tg_on_link cfg,
      nc_on_battery_pct = ac_tg_on_battery_pct cfg\<rparr>"

definition start_services ::
    "'q bridge_env \<Rightarrow> 'q start_env \<Rightarrow> 's nvs \<Rightarrow> 's \<Rightarrow> ('q, 'pt) bridge \<Rightarrow> ('q, 'pt) bridge" where
  "start_services E S nv store B =
     (let cfg = br_cfg B;
          B = (if ac_nut_enabled cfg then B\<lparr>br_nut := start_nut E S cfg (br_nut B)\<rparr> else B);
          B = B\<lparr>br_ble := start_ble S cfg (br_ble B)\<rparr>;
          B = B\<lparr>br_notify := snd (notify_start (se_notify_lock S) (se_notify_queue S) (se_notify_task S)
                 (notify_settings cfg) (Some (ac_ups_name cfg)) (br_notify B))\<rparr>;
          guests = map (\<lambda>i. app_config_pve_guests_load nv (se_malloc S) store (int i)) [0..<PVE_MAX_HOSTS]
      in B\<lparr>br_pve := snd (pve_shutdown_start (br_pve B) (ac_pve cfg) (ac_pve_selftest_hours cfg) guests (se_pve_mutex S))\<rparr>)"

section \<open>Booting\<close>

text \<open>What the boot does, in order, as far as it is done by other parts: raising the access point, joining a
  network with its addressing and fallback, running the setup portal until it has a network, starting
  the clock, confirming a new firmware image.\<close>

datatype boot_action =
    SilenceLog
  | LedInit int bool
  | EraseConfig
  | ApStart string string
  | SetIpv4 string bool string string string string
  | StaConnect string string nat
  | FallbackAp bool string string nat
  | RunSetup
  | SntpInit
  | StartServices
  | ConfirmImage

abbreviation APP_FALLBACK_AP_AFTER_S :: nat where "APP_FALLBACK_AP_AFTER_S \<equiv> 60"

definition ap_mode :: "app_config \<Rightarrow> bool" where
  "ap_mode cfg \<longleftrightarrow> ac_provisioned cfg \<and> ac_wifi_mode cfg = APP_WIFI_AP"

definition need_setup :: "app_config \<Rightarrow> bool" where
  "need_setup cfg \<longleftrightarrow> \<not> ac_provisioned cfg \<or> (\<not> ap_mode cfg \<and> ac_wifi_ssid cfg = [])"

definition boot_network :: "app_config \<Rightarrow> boot_action list" where
  "boot_network cfg =
     (if ap_mode cfg then [ApStart (ac_ap_ssid cfg) (ac_ap_pass cfg)]
      else if \<not> need_setup cfg then
        [SetIpv4 (ac_hostname cfg) (ac_use_static_ip cfg) (ac_static_ip cfg) (ac_static_mask cfg) (ac_static_gw cfg) (ac_static_dns cfg),
         StaConnect (ac_wifi_ssid cfg) (ac_wifi_pass cfg) 30000,
         FallbackAp (ac_fb_ap_enabled cfg) (ac_fb_ap_ssid cfg) (ac_fb_ap_pass cfg) (APP_FALLBACK_AP_AFTER_S * 1000)]
      else [])"

text \<open>\<open>cfg0\<close> is the configuration loaded, \<open>held\<close> whether the reset button was held, \<open>setup\<close> what the
  setup portal makes of the configuration, \<open>pending\<close> whether the running image waits for its
  confirmation. The result is the configuration the services start with and the actions.\<close>

definition app_main ::
    "kconfig \<Rightarrow> app_config \<Rightarrow> bool \<Rightarrow> (app_config \<Rightarrow> app_config) \<Rightarrow> bool \<Rightarrow> app_config \<times> boot_action list" where
  "app_main K cfg0 held setup pending =
     (let cfg = cfg0;
          acts = (if ac_log_level cfg = APP_LOG_OFF then [SilenceLog] else []) @ [LedInit (sint (ac_led_gpio cfg)) (ac_led_enabled cfg)];
          (cfg, acts) = (if held then (app_config_defaults K, acts @ [EraseConfig]) else (cfg, acts));
          ap = ap_mode cfg;
          acts = acts @ boot_network cfg;
          (cfg, ap, acts) =
            (if need_setup cfg
             then (let cfg = setup cfg in (cfg, ac_wifi_mode cfg = APP_WIFI_AP, acts @ [RunSetup]))
             else (cfg, ap, acts));
          acts = acts @ (if \<not> ap then [SntpInit] else []) @ [StartServices] @ (if pending then [ConfirmImage] else [])
      in (cfg, acts))"

section \<open>The variable table never fills up\<close>

definition PUBLISHED :: "string list" where
  "PUBLISHED =
     seed_names @
     [''ups.realpower.nominal'', ''battery.runtime.low'', ''driver.state'', ''battery.charge.low'', ''battery.runtime'',
      ''battery.temperature'', ''battery.voltage'', ''battery.capacity'', ''ups.realpower'', ''input.realpower'',
      ''input.realpower.ac'', ''input.realpower.dc'', ''output.realpower'', ''output.realpower.dc'', ''input.voltage'',
      ''input.current'', ''output.voltage'', ''outlet.1.desc'', ''outlet.1.status'', ''outlet.1.realpower'', ''outlet.2.desc'',
      ''outlet.2.status'', ''outlet.2.realpower'', ''outlet.count'', ''ups.load'', ''ups.alarm'', ''device.serial'', ''ups.serial'']"

lemma op_name_set [simp]: "op_name (set_int n v) = n" "op_name (set_float n w d) = n"
  by (simp_all add: set_int_def set_float_def)

lemma published_fit: "n \<in> set PUBLISHED \<Longrightarrow> length n < NUT_VAR_NAME_LEN"
  unfolding PUBLISHED_def seed_names_def by auto

lemma published_count: "card (set PUBLISHED) \<le> NUT_MAX_VARS"
proof -
  have "card (set PUBLISHED) \<le> length PUBLISHED" by (rule card_length)
  also have "\<dots> \<le> NUT_MAX_VARS" by (simp add: PUBLISHED_def seed_names_def)
  finally show ?thesis .
qed

lemma names_battery: "ops_names (battery_ops cfg st) \<subseteq> set PUBLISHED"
  by (auto simp: battery_ops_def runtime_ops_def Let_def PUBLISHED_def seed_names_def split: if_splits)

lemma names_power: "ops_names (power_ops st) \<subseteq> set PUBLISHED"
  by (simp add: power_ops_def PUBLISHED_def)

lemma names_outlets:
  "ops_names (outlet_ops ''outlet.1'' d sw w) \<subseteq> set PUBLISHED" "ops_names (outlet_ops ''outlet.2'' d sw w) \<subseteq> set PUBLISHED"
  by (simp_all add: outlet_ops_def PUBLISHED_def)

lemma names_ident: "ops_names (ident_ops st) \<subseteq> set PUBLISHED" "ops_names (load_ops cfg st) \<subseteq> set PUBLISHED"
  by (simp_all add: ident_ops_def load_ops_def Let_def PUBLISHED_def seed_names_def)

lemma names_reading: "ops_names (reading_ops cfg st) \<subseteq> set PUBLISHED"
  unfolding reading_ops_def ops_names_simps(3)
  using names_battery names_power names_outlets names_ident by (auto simp: PUBLISHED_def)

section \<open>Runs of the bridge\<close>

text \<open>A reading was decoded, the staleness timer fired, the link to the power station changed.\<close>

datatype 'pt bridge_event = Reading int bluetti_state | StaleTick int | LinkNow "'pt ble"

fun bridge_step :: "'q bridge_env \<Rightarrow> 'pt bridge_event \<Rightarrow> ('q, 'pt) bridge \<Rightarrow> ('q, 'pt) bridge" where
  "bridge_step E (Reading now st) B = bluetti_cb E now st B"
| "bridge_step E (StaleTick now) B = staleness_task E now B"
| "bridge_step E (LinkNow b) B = B\<lparr>br_ble := b\<rparr>"

definition is_stale :: "int \<Rightarrow> 'pt ble \<Rightarrow> bool" where
  "is_stale now b \<longleftrightarrow> \<not> b_valid (k_state b) \<or> now - b_updated_us (k_state b) > STALE_AFTER_US"

text \<open>What a step tells the three consumers: the status text, then whether the power is known, whether the
  mains are there and the charge, then the charge and the runtime for the notifier.\<close>

fun step_view :: "'pt bridge_event \<Rightarrow> ('q, 'pt) bridge \<Rightarrow> (string \<times> (bool \<times> bool \<times> int) \<times> int \<times> int) option" where
  "step_view (Reading now st) B =
     (if \<not> b_valid st then None
      else if \<not> b_sweep_done st then Some (''OL WAIT'', (False, False, - 1), 0, 0)
      else Some (ups_status_text (br_cfg B) st, (True, b_ac_input_present st, b_soc_pct st),
                 b_soc_pct st, if b_ac_input_present st then - 1 else b_minutes_remaining st))"
| "step_view (StaleTick now) B =
     (if is_stale now (br_ble B)
      then Some (if k_connected (br_ble B) then ''OL WAIT'' else ''OFF'', (False, False, - 1),
                 if b_valid (k_state (br_ble B)) then b_soc_pct (k_state (br_ble B)) else 0, - 1)
      else None)"
| "step_view (LinkNow b) B = None"

text \<open>The calls on the variable table a step makes.\<close>

fun step_ops :: "'pt bridge_event \<Rightarrow> ('q, 'pt) bridge \<Rightarrow> var_op list" where
  "step_ops (Reading now st) B =
     (if \<not> b_valid st then []
      else reading_ops (br_cfg B) st @
        [SetVar ''ups.status'' (if b_sweep_done st then ups_status_text (br_cfg B) st else ''OL WAIT'')])"
| "step_ops (StaleTick now) B =
     (if is_stale now (br_ble B)
      then [SetVar ''ups.status'' (if k_connected (br_ble B) then ''OL WAIT'' else ''OFF''),
            SetVar ''driver.state'' (if k_connected (br_ble B) then ''connected-no-data'' else ''disconnected'')]
      else [SetVar ''driver.state'' ''updated''])"
| "step_ops (LinkNow b) B = []"

lemma status_call: "nut_server_set_status s (Some t) = nut_apply (SetVar ''ups.status'' t) s"
  by (simp add: nut_server_set_status_def nut_apply_def)

lemma state_call: "nut_server_set_var s (Some n) (Some t) = nut_apply (SetVar n t) s"
  by (simp add: nut_apply_def)

lemma stale_fields:
  "bluetti_ble_get_state b = (b_valid (k_state b), k_state b)" "bluetti_ble_connected b = k_connected b"
  by (simp_all add: bluetti_ble_get_state_def bluetti_ble_connected_def)

lemma step_nut: "br_nut (bridge_step E ev B) = fold nut_apply (step_ops ev B) (br_nut B)"
  by (cases ev)
    (simp_all add: bluetti_cb_def publish_nut_from_bluetti_def observe_power_state_def staleness_task_def Let_def
      status_call state_call stale_fields is_stale_def)

lemma step_cfg: "br_cfg (bridge_step E ev B) = br_cfg B"
  by (cases ev)
    (simp_all add: bluetti_cb_def publish_nut_from_bluetti_def observe_power_state_def staleness_task_def Let_def
      stale_fields)

lemma step_names: "ops_names (step_ops ev B) \<subseteq> set PUBLISHED"
  using names_reading by (cases ev) (auto simp: PUBLISHED_def seed_names_def)

abbreviation vars_of :: "('q, 'pt) bridge \<Rightarrow> string \<Rightarrow> string option" where
  "vars_of B \<equiv> var_lookup (ns_vars (br_nut B))"

definition table_ok :: "('q, 'pt) bridge \<Rightarrow> bool" where
  "table_ok B \<longleftrightarrow> ns_lock (br_nut B) \<and> var_inv (ns_vars (br_nut B)) \<and> dom (vars_of B) \<subseteq> set PUBLISHED"

lemma table_ops:
  assumes "table_ok B" "br_nut B' = fold nut_apply ops (br_nut B)" "ops_names ops \<subseteq> set PUBLISHED"
  shows "table_ok B'" "vars_of B' = fold (spec_op (strlcpy NUT_VAR_VALUE_LEN)) ops (vars_of B)"
proof -
  have ok: "ns_lock (br_nut B)" "var_inv (ns_vars (br_nut B))" "dom (vars_of B) \<subseteq> set PUBLISHED"
    using assms(1) by (auto simp: table_ok_def)
  have fits: "\<forall>n \<in> ops_names ops. length n < NUT_VAR_NAME_LEN" using assms(3) published_fit by blast
  have "card (dom (vars_of B) \<union> ops_names ops) \<le> card (set PUBLISHED)"
    using ok(3) assms(3) by (intro card_mono) auto
  then have cap: "card (dom (vars_of B) \<union> ops_names ops) \<le> NUT_MAX_VARS" using published_count by linarith
  have t: "ns_vars (br_nut B') = fold (apply_op table_set table_clear) ops (ns_vars (br_nut B))" "ns_lock (br_nut B')"
    unfolding assms(2) using nut_apply_ops [OF ok(1)] by auto
  from nut_table.ops_refine [OF ok(2) fits cap]
  have r: "vars_of B' = fold (spec_op (strlcpy NUT_VAR_VALUE_LEN)) ops (vars_of B)" "var_inv (ns_vars (br_nut B'))"
    unfolding t(1) by auto
  then show "vars_of B' = fold (spec_op (strlcpy NUT_VAR_VALUE_LEN)) ops (vars_of B)" by simp
  have "dom (vars_of B') \<subseteq> set PUBLISHED"
    unfolding r(1) using spec_ops_dom [of "strlcpy NUT_VAR_VALUE_LEN" ops "vars_of B"] ok(3) assms(3) by blast
  then show "table_ok B'" using r(2) t(2) by (simp add: table_ok_def)
qed

lemma run_table: "table_ok B \<Longrightarrow> table_ok (fold (bridge_step E) evs B)"
  by (induction evs arbitrary: B) (auto intro: table_ops(1) [OF _ step_nut step_names])

lemma started_vars:
  assumes "\<not> ns_started s0" "ns_vars s0 = ns_vars nut_zero"
  shows "ns_lock (snd (nut_server_start s0 (Some cfg) True task_ok)) \<and>
    var_inv (ns_vars (snd (nut_server_start s0 (Some cfg) True task_ok))) \<and>
    dom (var_lookup (ns_vars (snd (nut_server_start s0 (Some cfg) True task_ok)))) \<subseteq> set seed_names"
proof -
  let ?s0 = "configure_server s0 cfg True"
  have s0: "ns_lock ?s0" "ns_vars ?s0 = ns_vars nut_zero" using assms(2) by (simp_all add: configure_server_def)
  have "snd (nut_server_start s0 (Some cfg) True task_ok) \<in>
      {fold nut_apply (seed_ops ?s0) ?s0, (fold nut_apply (seed_ops ?s0) ?s0)\<lparr>ns_started := True\<rparr>}"
    using assms(1) unfolding nut_server_start_def seed_fold seed_ops_def [symmetric] by (simp add: Let_def)
  then show ?thesis using seeded_table [OF s0] by auto
qed

definition nominal_ops :: "app_config \<Rightarrow> var_op list" where
  "nominal_ops cfg =
     calls_if (ac_ac_rating_w cfg > 0) [set_int ''ups.realpower.nominal'' (uint (ac_ac_rating_w cfg))] @
     calls_if (ac_runtime_low_s cfg > 0) [set_int ''battery.runtime.low'' (uint (ac_runtime_low_s cfg))]"

lemma services_nut:
  "br_nut (start_services E S nv store B) = (if ac_nut_enabled (br_cfg B) then start_nut E S (br_cfg B) (br_nut B) else br_nut B)"
  "br_cfg (start_services E S nv store B) = br_cfg B"
  by (simp_all add: start_services_def Let_def)

lemma services_table:
  assumes "ac_nut_enabled (br_cfg B0)" "se_nut_mutex S" "\<not> ns_started (br_nut B0)" "ns_vars (br_nut B0) = ns_vars nut_zero"
  shows "table_ok (start_services E S nv store B0)"
proof -
  let ?cfg = "br_cfg B0"
  define s0 where "s0 = (if ac_nut_auth_set ?cfg
     then nut_server_set_auth (br_nut B0) (Some (\<lambda>u p. nut_verify_login (be_sha256 E) ?cfg (Some u) (Some p))) else br_nut B0)"
  define s1 where "s1 = snd (nut_server_start s0
     (Some \<lparr>nc_ups_name = Some (ac_ups_name ?cfg), nc_ups_desc = Some ''BLUETTI via ESP32'', nc_fw_version = se_fw_version S,
            nc_tcp_port = unat (ac_nut_port ?cfg), nc_max_clients = 4\<rparr>) True (se_nut_task S))"
  have "\<not> ns_started s0" "ns_vars s0 = ns_vars nut_zero"
    using assms(3,4) by (simp_all add: s0_def nut_server_set_auth_def)
  from started_vars [OF this, folded s1_def] have "table_ok (B0\<lparr>br_nut := s1\<rparr>)"
    unfolding s1_def by (auto simp: table_ok_def PUBLISHED_def)
  moreover have "br_nut (start_services E S nv store B0) = fold nut_apply (nominal_ops ?cfg) (br_nut (B0\<lparr>br_nut := s1\<rparr>))"
    using assms(1,2)
    by (simp add: services_nut start_nut_def s0_def s1_def nominal_ops_def set_int_call [symmetric] Let_def)
  moreover have "ops_names (nominal_ops ?cfg) \<subseteq> set PUBLISHED" by (simp add: nominal_ops_def PUBLISHED_def)
  ultimately show ?thesis by (rule table_ops(1))
qed

text \<open>C20: Started with the NUT server on, the bridge never runs out of variables: after any run of readings, timer
  rounds and changes of the link, a further step leaves every variable as the step's calls leave a
  finite map (values clipped to 63 characters), so nothing a reading publishes is dropped or stale.\<close>

theorem readings_published:
  assumes "ac_nut_enabled (br_cfg B0)" "se_nut_mutex S" "\<not> ns_started (br_nut B0)" "ns_vars (br_nut B0) = ns_vars nut_zero"
    "B = fold (bridge_step E) evs (start_services E S nv store B0)"
  shows "vars_of (bridge_step E ev B) = fold (spec_op (strlcpy NUT_VAR_VALUE_LEN)) (step_ops ev B) (vars_of B)"
  unfolding assms(5)
  by (rule table_ops(2) [OF run_table [OF services_table [OF assms(1-4)]] step_nut step_names])

section \<open>One power state for everyone\<close>

definition told_power :: "bool \<times> bool \<times> int \<Rightarrow> pve_power" where
  "told_power t = (case t of (known, on_mains, soc) \<Rightarrow> obs_power (to_obs known on_mains soc))"

text \<open>What the notifier makes of a status and what the shutdown engine is told are the same power state.\<close>

definition same_power :: "power_state option \<Rightarrow> pve_power \<Rightarrow> bool" where
  "same_power p e \<longleftrightarrow>
     (p = Some PWR_BATTERY \<longleftrightarrow> e = PVE_PWR_BATTERY) \<and> (p = Some PWR_LINE \<longleftrightarrow> e = PVE_PWR_LINE)"

lemma status_classes:
  "classify (ups_status_text cfg st) = Some (if b_ac_input_present st then PWR_LINE else PWR_BATTERY)"
  by (simp add: ups_status_text_def classify_def strlcpy_def strlcat_def Let_def has_prefix_def)

lemma wait_class: "classify ''OL WAIT'' = None" "classify ''OFF'' = Some PWR_OFFLINE"
  by (simp_all add: classify_def has_prefix_def)

lemma status_length: "length (ups_status_text cfg st) \<le> 63"
  by (simp add: ups_status_text_def strlcpy_def strlcat_def Let_def)

lemma view_power:
  assumes "step_view ev B = Some (s, told, soc, rt)"
  shows "same_power (classify s) (told_power told) \<and> strlcpy NUT_VAR_VALUE_LEN s = s"
proof (cases ev)
  case (Reading now st)
  then show ?thesis using assms
    by (auto simp: same_power_def told_power_def to_obs_def status_classes wait_class status_length strlcpy_def
        split: if_splits)
next
  case (StaleTick now)
  then show ?thesis using assms
    by (auto simp: same_power_def told_power_def to_obs_def wait_class strlcpy_def split: if_splits)
qed (use assms in simp)

lemma view_status:
  assumes "step_view ev B = Some (s, told, soc, rt)"
  obtains pre post where "step_ops ev B = pre @ SetVar ''ups.status'' s # post" "''ups.status'' \<notin> ops_names post"
proof (cases ev)
  case (Reading now st)
  with assms have "step_ops ev B = reading_ops (br_cfg B) st @ SetVar ''ups.status'' s # []"
    by (auto split: if_splits)
  then show thesis by (rule that) simp
next
  case (StaleTick now)
  with assms have "step_ops ev B = [] @ SetVar ''ups.status'' s #
      [SetVar ''driver.state'' (if k_connected (br_ble B) then ''connected-no-data'' else ''disconnected'')]"
    by (auto split: if_splits)
  then show thesis by (rule that) simp
qed (use assms in simp)

fun event_time :: "'pt bridge_event \<Rightarrow> int" where
  "event_time (Reading now st) = now"
| "event_time (StaleTick now) = now"
| "event_time (LinkNow b) = 0"

lemma wait_ignored: "notify_ups_status Q t (Some ''OL WAIT'') soc rt N = N"
  by (simp add: notify_ups_status_def wait_class)

lemma view_step:
  assumes "step_view ev B = Some (s, (known, on_mains, charge), soc, rt)"
  shows "br_pve (bridge_step E ev B) =
      fst (pve_shutdown_observe (be_alloc E) (be_task_ok E) (br_pve B) known on_mains charge (event_time ev))"
    "br_notify (bridge_step E ev B) = notify_ups_status (be_queue E) (event_time ev) (Some s) soc rt (br_notify B)"
  using assms
  by (cases ev; auto simp: bluetti_cb_def publish_nut_from_bluetti_def observe_power_state_def staleness_task_def Let_def
      stale_fields is_stale_def wait_ignored split: if_splits)+

lemma view_none:
  assumes "step_view ev B = None"
  shows "br_pve (bridge_step E ev B) = br_pve B" "br_notify (bridge_step E ev B) = br_notify B"
  using assms
  by (cases ev; auto simp: bluetti_cb_def publish_nut_from_bluetti_def staleness_task_def Let_def
      stale_fields is_stale_def split: if_splits)+

text \<open>C19: In every step of a running bridge in which anything is said about the power, NUT clients, the Proxmox
  shutdown and the notifier are told the same: the status variable reads as on battery exactly when
  the engine observes the battery, as on line exactly when it observes the mains, and the notifier is
  given that very status.\<close>

theorem power_views_agree:
  assumes "ac_nut_enabled (br_cfg B0)" "se_nut_mutex S" "\<not> ns_started (br_nut B0)" "ns_vars (br_nut B0) = ns_vars nut_zero"
    "B = fold (bridge_step E) evs (start_services E S nv store B0)"
    "step_view ev B = Some (s, (known, on_mains, charge), soc, rt)"
  shows "vars_of (bridge_step E ev B) ''ups.status'' = Some s \<and>
    same_power (classify s) (told_power (known, on_mains, charge)) \<and>
    br_pve (bridge_step E ev B) =
      fst (pve_shutdown_observe (be_alloc E) (be_task_ok E) (br_pve B) known on_mains charge (event_time ev)) \<and>
    br_notify (bridge_step E ev B) = notify_ups_status (be_queue E) (event_time ev) (Some s) soc rt (br_notify B)"
proof -
  have ok: "table_ok B" unfolding assms(5) by (rule run_table [OF services_table [OF assms(1-4)]])
  obtain pre post where ops: "step_ops ev B = pre @ SetVar ''ups.status'' s # post" "''ups.status'' \<notin> ops_names post"
    by (rule view_status [OF assms(6)])
  have "vars_of (bridge_step E ev B) ''ups.status'' = Some (strlcpy NUT_VAR_VALUE_LEN s)"
    unfolding table_ops(2) [OF ok step_nut step_names] ops(1) by (rule spec_ops_last [OF ops(2)])
  then show ?thesis using view_power [OF assms(6)] view_step [OF assms(6), of E] by simp
qed

section \<open>Derived figures stay in range\<close>

lemma fl_nonneg: "0 \<le> x \<Longrightarrow> 0 \<le> fl x"
  using fl_pos_iff [of x] by (cases "x = 0") auto

lemma f2i_nonneg: "0 \<le> x \<Longrightarrow> 0 \<le> f2i x"
  by (simp add: f2i_def)

lemma f2i_le: "0 \<le> x \<Longrightarrow> x \<le> of_int n \<Longrightarrow> f2i x \<le> n"
  by (simp add: f2i_def floor_le_iff less_le_trans)

text \<open>The published runtime is the unit's own figure while it is discharging and reports one, and otherwise an
  estimate between 0 and 4 million seconds (or none); the published load is a percentage.\<close>

theorem derived_figures_in_range:
  "(if \<not> b_ac_input_present st \<and> b_minutes_remaining st \<ge> 0 then runtime_estimate cfg st = b_minutes_remaining st * 60
    else - 1 \<le> runtime_estimate cfg st \<and> runtime_estimate cfg st \<le> 4000000) \<and>
   (load_ops cfg st = [] \<or> (\<exists>l. load_ops cfg st = [set_int ''ups.load'' l] \<and> 0 \<le> l \<and> l \<le> 100))"
proof (intro conjI)
  define cap where "cap = (if ac_battery_wh cfg > 0 then uint (ac_battery_wh cfg) else b_design_capacity_wh st)"
  define load where "load = (if b_output_watts st \<ge> 1 then b_output_watts st else of_int (uint (ac_ac_rating_w cfg)))"
  define secs where "secs = fmul (fdiv (fdiv (fmul (of_int cap) (of_int (b_soc_pct st))) 100) load) 3600"
  have nonneg: "0 \<le> secs" if "cap > 0" "b_soc_pct st > 0" "load \<ge> 1"
    using that unfolding secs_def fmul_def fdiv_def by (intro fl_nonneg mult_nonneg_nonneg divide_nonneg_nonneg) simp_all
  show "if \<not> b_ac_input_present st \<and> b_minutes_remaining st \<ge> 0 then runtime_estimate cfg st = b_minutes_remaining st * 60
    else - 1 \<le> runtime_estimate cfg st \<and> runtime_estimate cfg st \<le> 4000000"
  proof (cases "\<not> b_ac_input_present st \<and> b_minutes_remaining st \<ge> 0")
    case False
    then have e: "runtime_estimate cfg st =
        (if cap > 0 \<and> b_soc_pct st > 0 then if load \<ge> 1 then if secs > 4000000 then 4000000 else f2i secs else - 1 else - 1)"
      by (simp only: runtime_estimate_def Let_def cap_def load_def secs_def if_not_P [OF False] if_False)
    have "0 \<le> f2i secs \<and> (secs \<le> 4000000 \<longrightarrow> f2i secs \<le> 4000000)" if "cap > 0" "b_soc_pct st > 0" "load \<ge> 1"
      using f2i_nonneg [OF nonneg [OF that]] f2i_le [OF nonneg [OF that], of 4000000] by simp
    then have "- 1 \<le> runtime_estimate cfg st \<and> runtime_estimate cfg st \<le> 4000000" unfolding e by auto
    then show ?thesis unfolding if_not_P [OF False] .
  qed (simp add: runtime_estimate_def Let_def)
  have w: "0 \<le> rat_of_int (uint (ac_ac_rating_w cfg))" by (simp only: of_int_0_le_iff) simp
  have "0 \<le> f2i (fdiv (fmul (b_output_watts st) 100) (of_int (uint (ac_ac_rating_w cfg))))" if "b_output_watts st \<ge> 0"
    using that unfolding fmul_def fdiv_def
    by (intro f2i_nonneg fl_nonneg mult_nonneg_nonneg divide_nonneg_nonneg w) simp_all
  then show "load_ops cfg st = [] \<or> (\<exists>l. load_ops cfg st = [set_int ''ups.load'' l] \<and> 0 \<le> l \<and> l \<le> 100)"
    by (auto simp: load_ops_def Let_def)
qed

section \<open>Logins\<close>

lemma set_var_auth: "ns_auth (nut_server_set_var s n v) = ns_auth s"
  by (simp add: nut_server_set_var_def)

lemma seed_auth: "ns_auth (fold (\<lambda>(n, v) s. nut_server_set_var s (Some n) (Some v)) xs s) = ns_auth s"
  by (induction xs arbitrary: s) (auto simp: set_var_auth)

lemma start_auth: "ns_auth (snd (nut_server_start s c m t)) = ns_auth s"
  by (simp add: nut_server_start_def configure_server_def seed_auth Let_def split: option.split)

text \<open>Once a NUT password was chosen, a bridge whose services were started with it accepts a login exactly
  from the configured user with a password of the stored hash: with no user name, another one or a
  password hashing to anything else there is none.\<close>

theorem login_needs_password:
  assumes "br_cfg B0 = app_config_set_nut_password (be_sha256 E) random c0 (Some pw)" "pw \<noteq> []"
    "\<forall>bs. length (be_sha256 E bs) = 32" "ac_nut_enabled c0"
  shows "login_ok (br_nut (start_services E S nv store B0)) cl \<longleftrightarrow>
    cc_user cl \<noteq> [] \<and> cc_user cl = ac_nut_user c0 \<and>
    hash_password (be_sha256 E) random (cc_pass cl) = hash_password (be_sha256 E) random pw"
proof -
  have cfg: "ac_nut_auth_set (br_cfg B0)" "ac_nut_user (br_cfg B0) = ac_nut_user c0" "ac_nut_enabled (br_cfg B0)"
    using assms(2,4) unfolding assms(1) by (simp_all add: app_config_set_nut_password_def set_secret_def)
  then have "ns_auth (br_nut (start_services E S nv store B0)) =
      Some (\<lambda>u p. nut_verify_login (be_sha256 E) (br_cfg B0) (Some u) (Some p))"
    by (simp add: services_nut start_nut_def nut_server_set_var_int_def set_var_auth start_auth nut_server_set_auth_def Let_def)
  then have "login_ok (br_nut (start_services E S nv store B0)) cl \<longleftrightarrow>
      cc_user cl \<noteq> [] \<and> cc_user cl = ac_nut_user c0 \<and> app_config_check_nut_password (be_sha256 E) (br_cfg B0) (Some (cc_pass cl))"
    by (simp add: login_ok_def nut_verify_login_def cfg)
  then show ?thesis unfolding assms(1) nut_password_checked [OF assms(3,2)] .
qed

section \<open>Examples\<close>

definition ex_bridge :: "(msg list, byte list) bridge" where
  "ex_bridge = \<lparr>br_cfg = ex_config\<lparr>ac_nut_enabled := True\<rparr>, br_nut = nut_zero, br_pve = ex_pve, br_notify = notify_zero,
     br_led = led_zero, br_ble = ble_init ex_state ex_link_cfg\<rparr>"

definition ex_bridge_env :: "msg list bridge_env" where
  "ex_bridge_env = \<lparr>be_queue = list_queue, be_alloc = (\<lambda>_. True), be_task_ok = True, be_tx = (\<lambda>_. True),
     be_sha256 = (\<lambda>bs. take 32 (bs @ replicate 32 0))\<rparr>"

definition ex_start :: "msg list start_env" where
  "ex_start = \<lparr>se_fw_version = Some ''1.0'', se_nut_mutex = True, se_nut_task = True, se_ble_host = True,
     se_notify_lock = True, se_notify_queue = Some [], se_notify_task = True, se_pve_mutex = True, se_malloc = True\<rparr>"

definition ex_reading :: bluetti_state where
  "ex_reading = ex_state\<lparr>b_valid := True, b_sweep_done := True, b_soc_pct := 15, b_soc_low_pct := 20\<rparr>"

definition ex_running :: "(msg list, byte list) bridge" where
  "ex_running = start_services ex_bridge_env ex_start map_nvs (\<lambda>_. None) ex_bridge"

lemma ex_bridge_ok:
  "ac_nut_enabled (br_cfg ex_bridge)" "se_nut_mutex ex_start" "\<not> ns_started (br_nut ex_bridge)"
  "ns_vars (br_nut ex_bridge) = ns_vars nut_zero"
  by (simp_all add: ex_bridge_def ex_start_def nut_zero_def)

lemma ex_status: "ups_status_text (br_cfg ex_bridge) ex_reading = ''OB LB DISCHRG''"
  by (simp add: ups_status_text_def low_charge_def ex_reading_def ex_state_def strlcpy_def strlcat_def)

lemma ex_running_cfg: "br_cfg ex_running = br_cfg ex_bridge"
  by (simp add: ex_running_def services_nut)

theorem power_views_agree_witness:
  "vars_of (bridge_step ex_bridge_env (Reading 7 ex_reading) ex_running) ''ups.status'' = Some ''OB LB DISCHRG'' \<and>
   same_power (classify ''OB LB DISCHRG'') PVE_PWR_BATTERY"
proof -
  have "step_view (Reading 7 ex_reading) ex_running = Some (''OB LB DISCHRG'', (True, False, 15), 15, - 1)"
    using ex_status by (simp add: ex_running_cfg) (simp add: ex_reading_def ex_state_def)
  from power_views_agree [where evs = "[]" and E = ex_bridge_env and nv = map_nvs and store = "\<lambda>_. None", OF ex_bridge_ok _ this]
  show ?thesis by (simp add: ex_running_def told_power_def to_obs_def)
qed

theorem readings_published_witness:
  "vars_of (bridge_step ex_bridge_env (StaleTick 9) ex_running) ''driver.state'' = Some ''disconnected''"
proof -
  have "is_stale 9 (br_ble ex_running)"
    by (simp add: ex_running_def start_services_def start_ble_def ex_bridge_def ex_config_def app_config_defaults_def
        set_nut_password_fields ex_kconfig_def is_stale_def ble_init_def ex_state_def Let_def)
  moreover have "\<not> k_connected (br_ble ex_running)"
    by (simp add: ex_running_def start_services_def start_ble_def ex_bridge_def ex_config_def app_config_defaults_def
        set_nut_password_fields ex_kconfig_def ble_init_def Let_def)
  ultimately show ?thesis
    using readings_published [where evs = "[]" and E = ex_bridge_env and nv = map_nvs and store = "\<lambda>_. None" and
        ev = "StaleTick 9", OF ex_bridge_ok]
    by (simp add: ex_running_def strlcpy_def)
qed

theorem login_needs_password_witness:
  "\<not> login_ok (br_nut (start_services ex_bridge_env ex_start map_nvs (\<lambda>_. None)
      (ex_bridge\<lparr>br_cfg := app_config_set_nut_password (be_sha256 ex_bridge_env) [] (br_cfg ex_bridge) (Some ''secret'')\<rparr>)))
     \<lparr>cc_user = ''upsmon'', cc_pass = ''guess'', cc_logged_in = False\<rparr>"
proof -
  have "hash_password (be_sha256 ex_bridge_env) [] ''guess'' ! 0 \<noteq> hash_password (be_sha256 ex_bridge_env) [] ''secret'' ! 0"
    by (simp add: hash_password_def ex_bridge_env_def)
  then have neq: "hash_password (be_sha256 ex_bridge_env) [] ''guess'' \<noteq> hash_password (be_sha256 ex_bridge_env) [] ''secret''"
    by metis
  have len: "\<forall>bs. length (be_sha256 ex_bridge_env bs) = 32" by (auto simp: ex_bridge_env_def min_def)
  have cfg: "br_cfg (ex_bridge\<lparr>br_cfg := c\<rparr>) = c" for c by simp
  have pw: "''secret'' \<noteq> []" by simp
  show ?thesis
    unfolding login_needs_password [OF cfg pw len ex_bridge_ok(1)] client_ctx.select_convs using neq by blast
qed

end
