(* ===== verification/Log_Ring.thy ===== *)
theory Log_Ring
  imports Bridge_Prelude
begin

text \<open>
  The retained tail of the log, \<^verbatim>\<open>components/provisioning/log_ring.c\<close>: a ring of \<open>RING_SZ\<close> bytes the log
  stream is copied into, read by offset from the web interface. The record \<open>log_ring\<close> is the file's
  static state \<^verbatim>\<open>r\<close>; its 64-bit count of bytes ever written is a natural number here. The critical
  section and the printing to the console are not modelled.

  The ring is shown to hold the latest bytes of everything written, which is the contract
  \<open>log_tail\<close> asks for; its client is a reader that polls with the offset of its last answer.
\<close>

section \<open>The contract of a log tail\<close>

text \<open>\<open>written\<close> is everything ever written. A read from an offset gives the bytes from there to the
  end, as many of the latest as are retained and fit, and the offset to read from next.\<close>

locale log_tail =
  fixes append :: "'s \<Rightarrow> 'b list \<Rightarrow> 's"
    and fetch :: "'s \<Rightarrow> nat \<Rightarrow> nat \<Rightarrow> 'b list \<times> nat"
    and written :: "'s \<Rightarrow> 'b list \<Rightarrow> bool"
    and cap :: nat
  assumes written_append: "written s h \<Longrightarrow> length d \<le> cap \<Longrightarrow> written (append s d) (h @ d)"
    and fetch_tail: "written s h \<Longrightarrow> from \<le> length h \<Longrightarrow>
          fetch s from room = (drop (length h - min room (min cap (length h - from))) h, length h)"
begin

text \<open>A reader that reads after every write, each time from where it stopped.\<close>

fun poll :: "nat \<Rightarrow> 's \<times> nat \<Rightarrow> 'b list list \<Rightarrow> 'b list" where
  "poll room (s, at) [] = []"
| "poll room (s, at) (d # ds) =
     (let s = append s d; (piece, at) = fetch s at room in piece @ poll room (s, at) ds)"

lemma poll_complete:
  assumes "written s h" "\<forall>d \<in> set ds. length d \<le> room \<and> length d \<le> cap"
  shows "poll room (s, length h) ds = concat ds"
  using assms
proof (induction ds arbitrary: s h)
  case (Cons d ds)
  have w: "written (append s d) (h @ d)" using Cons.prems by (simp add: written_append)
  have "fetch (append s d) (length h) room = (d, length (h @ d))"
    using fetch_tail [OF w, of "length h" room] Cons.prems(2) by (simp add: min_absorb2)
  then show ?case using Cons.IH [OF w] Cons.prems(2) by simp
qed simp

end

section \<open>The ring\<close>

definition RING_SZ :: nat where "RING_SZ = 12288"

record 'b log_ring =
  r_buf :: "'b list"
  r_head :: nat

definition copy_at :: "nat \<Rightarrow> 'b list \<Rightarrow> 'b list \<Rightarrow> 'b list" where
  "copy_at off data buf = take off buf @ data @ drop (off + length data) buf"

definition ring_write :: "'b log_ring \<Rightarrow> 'b list \<Rightarrow> 'b log_ring" where
  "ring_write r data =
     (if data = [] then r
      else
        let data = (if length data > RING_SZ then drop (length data - RING_SZ) data else data);
            off = r_head r mod RING_SZ;
            first = min (RING_SZ - off) (length data);
            buf = copy_at off (take first data) (r_buf r);
            buf = (if length data > first then copy_at 0 (drop first data) buf else buf)
        in \<lparr>r_buf = buf, r_head = r_head r + length data\<rparr>)"

definition log_ring_head :: "'b log_ring \<Rightarrow> nat" where
  "log_ring_head r = r_head r"

definition log_ring_read :: "'b log_ring \<Rightarrow> nat \<Rightarrow> nat \<Rightarrow> 'b list \<times> nat" where
  "log_ring_read r from room =
     (let oldest = (if r_head r > RING_SZ then r_head r - RING_SZ else 0);
          from = (if from < oldest then oldest else from);
          from = (if from > r_head r then r_head r else from);
          avail = r_head r - from;
          (avail, from) = (if avail > room then (room, r_head r - room) else (avail, from));
          off = from mod RING_SZ;
          first = min (RING_SZ - off) avail
      in (take first (drop off (r_buf r)) @ (if avail > first then take (avail - first) (r_buf r) else []), from + avail))"

section \<open>What goes into it\<close>

definition ESC :: char where "ESC = CHR 0x1B"

text \<open>A control sequence up to its final byte, that byte included.\<close>

definition drop_csi :: "string \<Rightarrow> string" where
  "drop_csi s = drop 1 (dropWhile (\<lambda>c. ord c < 0x40 \<or> ord c > 0x7E) s)"

lemma drop_csi_length: "length (drop_csi s) \<le> length s"
  unfolding drop_csi_def length_drop by (meson diff_le_self length_dropWhile_le order_trans)

function strip_ansi :: "string \<Rightarrow> string" where
  "strip_ansi s =
     (case s of [] \<Rightarrow> []
      | c # t \<Rightarrow> if c = ESC \<and> t \<noteq> [] \<and> hd t = CHR ''['' then strip_ansi (drop_csi (tl t)) else c # strip_ansi t)"
  by pat_completeness auto
termination
  by (relation "measure length") (auto intro!: le_imp_less_Suc le_trans [OF drop_csi_length])

declare strip_ansi.simps [simp del]

text \<open>\<open>ring_line\<close> is what enters the ring of a line as formatted.\<close>

definition ring_line :: "string \<Rightarrow> string" where
  "ring_line line = strip_ansi (snprintf_buf 256 line)"

definition ring_vprintf :: "char log_ring \<Rightarrow> string \<Rightarrow> char log_ring" where
  "ring_vprintf r line = (if line = [] then r else ring_write r (ring_line line))"

definition log_ring0 :: "char log_ring" where
  "log_ring0 = \<lparr>r_buf = replicate RING_SZ (CHR 0x00), r_head = 0\<rparr>"

section \<open>The ring holds the latest bytes\<close>

definition ring_holds :: "'b log_ring \<Rightarrow> 'b list \<Rightarrow> bool" where
  "ring_holds r h \<longleftrightarrow> length (r_buf r) = RING_SZ \<and> r_head r = length h \<and>
     (\<forall>p. p < length h \<and> length h \<le> p + RING_SZ \<longrightarrow> r_buf r ! (p mod RING_SZ) = h ! p)"

lemma ring_pos: "0 < RING_SZ"
  by (simp add: RING_SZ_def)

lemma copy_length [simp]: "off + length d \<le> length b \<Longrightarrow> length (copy_at off d b) = length b"
  by (simp add: copy_at_def)

lemma copy_nth:
  assumes "off + length d \<le> length b" "i < length b"
  shows "copy_at off d b ! i = (if off \<le> i \<and> i < off + length d then d ! (i - off) else b ! i)"
proof -
  have t: "length (take off b) = off" "min (length b) off = off" using assms by simp_all
  consider "i < off" | "off \<le> i" "i < off + length d" | "off + length d \<le> i" by linarith
  then show ?thesis
  proof cases
    case 3
    then have "\<not> i < off" "\<not> i - off < length d" by linarith+
    then show ?thesis using assms 3 t by (simp add: copy_at_def nth_append)
  next
    case 2
    then have "\<not> i < off" "i - off < length d" by linarith+
    then show ?thesis using 2 t by (simp add: copy_at_def nth_append)
  qed (use assms in \<open>simp add: copy_at_def nth_append t\<close>)
qed

lemma mod_plus:
  fixes a q n :: nat
  assumes "0 < n" "q \<le> n"
  shows "(a + q) mod n = (if a mod n + q < n then a mod n + q else a mod n + q - n)"
proof -
  define r where "r = a mod n"
  have r: "r < n" using assms r_def by simp
  have e: "(a + q) mod n = (r + q) mod n" unfolding r_def by (simp add: mod_add_left_eq)
  show ?thesis
  proof (cases "r + q < n")
    case True then show ?thesis using e r_def by simp
  next
    case False
    then have "(r + q) mod n = (r + q - n) mod n" by (simp add: le_mod_geq)
    also have "\<dots> = r + q - n" using r assms(2) by (intro mod_less) linarith
    finally show ?thesis using e False r_def by simp
  qed
qed

text \<open>The buffer after a write of \<open>d\<close> at \<open>off\<close> that may wrap.\<close>

lemma ring_write_nth:
  assumes b: "length (r_buf r) = RING_SZ" and d: "length d \<le> RING_SZ" and i: "i < RING_SZ"
  defines "off \<equiv> r_head r mod RING_SZ"
  shows "r_buf (ring_write r d) ! i =
    (if off \<le> i \<and> i < off + length d then d ! (i - off)
     else if i + RING_SZ < off + length d then d ! (i + RING_SZ - off) else r_buf r ! i)"
proof (cases "d = []")
  case True
  have "off < RING_SZ" using ring_pos by (simp add: off_def)
  then have "\<not> i + RING_SZ < off" by linarith
  then show ?thesis using True by (auto simp: ring_write_def)
next
  case False
  have off: "off < RING_SZ" using ring_pos by (simp add: off_def)
  show ?thesis
  proof (cases "length d \<le> RING_SZ - off")
    case True
    then have c: "r_buf (ring_write r d) = copy_at off d (r_buf r)"
      using False d by (simp add: ring_write_def Let_def off_def min_def)
    have le: "off + length d \<le> length (r_buf r)" using True off b by linarith
    have "\<not> i + RING_SZ < off + length d" using True off by linarith
    then show ?thesis unfolding c using copy_nth [OF le, of i] b i by simp
  next
    case nf: False
    let ?m = "RING_SZ - off"
    let ?b = "copy_at off (take ?m d) (r_buf r)"
    have c: "r_buf (ring_write r d) = copy_at 0 (drop ?m d) ?b"
      using False nf d by (simp add: ring_write_def Let_def off_def min_def)
    have le: "off + length (take ?m d) \<le> length (r_buf r)" using nf off b by simp
    then have lb: "length ?b = RING_SZ" using b by simp
    have le0: "0 + length (drop ?m d) \<le> length ?b" using lb d by simp
    have ib: "i < length ?b" "i < length (r_buf r)" using i lb b by simp_all
    have tl: "length (take ?m d) = ?m" "length (drop ?m d) = length d - ?m" using nf by simp_all
    show ?thesis
    proof (cases "off \<le> i")
      case True
      then have "\<not> i < length d - ?m" "i < off + ?m" "i < off + length d" "i - off < ?m"
        using d i off nf by linarith+
      then show ?thesis unfolding c copy_nth [OF le0 ib(1)] copy_nth [OF le ib(2)] tl using True by simp
    next
      case lt: False
      have eq: "i < length d - ?m \<longleftrightarrow> i + RING_SZ < off + length d" using nf off by linarith
      have idx: "?m + i = i + RING_SZ - off" using off by linarith
      show ?thesis unfolding c copy_nth [OF le0 ib(1)] copy_nth [OF le ib(2)] tl
        using lt eq idx nf by simp
    qed
  qed
qed

lemma ring_write_length:
  assumes "length (r_buf r) = RING_SZ" "length d \<le> RING_SZ"
  shows "length (r_buf (ring_write r d)) = RING_SZ" "r_head (ring_write r d) = r_head r + length d"
proof -
  have o: "r_head r mod RING_SZ < RING_SZ" using ring_pos by simp
  then have "r_head r mod RING_SZ + length (take (min (RING_SZ - r_head r mod RING_SZ) (length d)) d) \<le> length (r_buf r)"
    using assms(1) by simp
  then show "length (r_buf (ring_write r d)) = RING_SZ"
    using assms by (simp add: ring_write_def Let_def)
  show "r_head (ring_write r d) = r_head r + length d" using assms(2) by (simp add: ring_write_def Let_def)
qed

lemma ring_holds_write:
  assumes h: "ring_holds r h" and d: "length d \<le> RING_SZ"
  shows "ring_holds (ring_write r d) (h @ d)"
proof -
  let ?off = "length h mod RING_SZ"
  have b: "length (r_buf r) = RING_SZ" and hd: "r_head r = length h" using h by (simp_all add: ring_holds_def)
  have off: "?off < RING_SZ" using ring_pos by simp
  note w = ring_write_nth [OF b d, unfolded hd]
  have "r_buf (ring_write r d) ! (p mod RING_SZ) = (h @ d) ! p"
    if p: "p < length (h @ d)" "length (h @ d) \<le> p + RING_SZ" for p
  proof (cases "p < length h")
    case False
    define q where "q = p - length h"
    have q: "p = length h + q" "q < length d" using False p by (simp_all add: q_def)
    have m: "p mod RING_SZ = (if ?off + q < RING_SZ then ?off + q else ?off + q - RING_SZ)"
      unfolding q(1) using q(2) d by (intro mod_plus ring_pos) simp
    have lt: "p mod RING_SZ < RING_SZ" using ring_pos by simp
    show ?thesis
    proof (cases "?off + q < RING_SZ")
      case True
      then show ?thesis using m q w [OF lt] by (simp add: nth_append)
    next
      case nf: False
      have "\<not> ?off \<le> ?off + q - RING_SZ" "?off + q - RING_SZ + RING_SZ < ?off + length d"
        "?off + q - RING_SZ + RING_SZ - ?off = q" using nf q(2) d off by linarith+
      then show ?thesis using m nf q w [OF lt] by (simp add: nth_append)
    qed
  next
    case True
    define e where "e = length h - p"
    have e: "length h = p + e" "0 < e" "e + length d \<le> RING_SZ" using True p by (simp_all add: e_def)
    define i where "i = p mod RING_SZ"
    have i: "i < RING_SZ" using ring_pos by (simp add: i_def)
    have m: "?off = (if i + e < RING_SZ then i + e else i + e - RING_SZ)"
      unfolding e(1) i_def using e(3) by (intro mod_plus ring_pos) simp
    have "\<not> (?off \<le> i \<and> i < ?off + length d)" "\<not> i + RING_SZ < ?off + length d"
      unfolding m using e i by (auto split: if_splits)
    then have "r_buf (ring_write r d) ! i = r_buf r ! i" unfolding w [OF i] by (simp only: if_False)
    also have "\<dots> = h ! p" using h True e by (simp add: ring_holds_def i_def)
    finally show ?thesis using True by (simp add: i_def nth_append)
  qed
  then show ?thesis using ring_write_length [OF b d] hd by (simp add: ring_holds_def)
qed

text \<open>A stretch of the buffer that may wrap.\<close>

lemma ring_stretch_nth:
  assumes "length b = RING_SZ" "n \<le> RING_SZ" "j < n"
  shows "(take (min (RING_SZ - f mod RING_SZ) n) (drop (f mod RING_SZ) b) @
          (if min (RING_SZ - f mod RING_SZ) n < n then take (n - min (RING_SZ - f mod RING_SZ) n) b else [])) ! j =
         b ! ((f + j) mod RING_SZ)"
proof -
  let ?off = "f mod RING_SZ"
  have off: "?off < RING_SZ" using ring_pos by simp
  have m: "(f + j) mod RING_SZ = (if ?off + j < RING_SZ then ?off + j else ?off + j - RING_SZ)"
    using assms by (intro mod_plus ring_pos) simp
  have l: "length (take (min (RING_SZ - ?off) n) (drop ?off b)) = min (RING_SZ - ?off) n"
    using assms(1) by simp
  show ?thesis
  proof (cases "?off + j < RING_SZ")
    case True
    then have "j < min (RING_SZ - ?off) n" using assms(3) by linarith
    then show ?thesis using True m l assms(1) off by (simp add: nth_append)
  next
    case False
    then have mn: "min (RING_SZ - ?off) n = RING_SZ - ?off" using assms(3) by linarith
    have "\<not> j < RING_SZ - ?off" "RING_SZ - ?off < n" "j - (RING_SZ - ?off) < n - (RING_SZ - ?off)"
      "?off + j - RING_SZ = j - (RING_SZ - ?off)" using False assms(3) off by linarith+
    then show ?thesis using False l unfolding m mn by (simp only: nth_append if_False if_True nth_take)
  qed
qed

lemma ring_read_tail:
  assumes h: "ring_holds r h" and f: "from \<le> length h"
  shows "log_ring_read r from room =
         (drop (length h - min room (min RING_SZ (length h - from))) h, length h)"
proof -
  have b: "length (r_buf r) = RING_SZ" and hd: "r_head r = length h" using h by (simp_all add: ring_holds_def)
  define n where "n = min room (min RING_SZ (length h - from))"
  define at where "at = length h - n"
  have n: "n \<le> RING_SZ" "n \<le> length h" by (simp_all add: n_def)
  have at: "at + n = length h" using n by (simp add: at_def)
  define piece where "piece = take (min (RING_SZ - at mod RING_SZ) n) (drop (at mod RING_SZ) (r_buf r)) @
          (if min (RING_SZ - at mod RING_SZ) n < n then take (n - min (RING_SZ - at mod RING_SZ) n) (r_buf r) else [])"
  have "log_ring_read r from room = (piece, length h)"
  proof -
    define f1 where "f1 = (if from < (if length h > RING_SZ then length h - RING_SZ else 0)
        then (if length h > RING_SZ then length h - RING_SZ else 0) else from)"
    have f1: "f1 \<le> length h" "length h - f1 = min RING_SZ (length h - from)"
      using f by (auto simp: f1_def)
    have sel: "(if length h - f1 > room then (room, length h - room) else (length h - f1, f1)) = (n, at)"
      using f1 by (auto simp: n_def at_def)
    have "log_ring_read r from room = (let (avail, from) = (n, at); off = from mod RING_SZ; first = min (RING_SZ - off) avail
        in (take first (drop off (r_buf r)) @ (if avail > first then take (avail - first) (r_buf r) else []), from + avail))"
      unfolding log_ring_read_def hd Let_def f1_def [symmetric]
      using f1(1) sel by (simp only: not_less [THEN iffD2] if_False)
    then show ?thesis using at by (simp add: Let_def piece_def)
  qed
  moreover have "piece = drop at h"
  proof (rule nth_equalityI)
    show "length piece = length (drop at h)"
      using b at n ring_pos mod_less_divisor [OF ring_pos, of at] by (auto simp: piece_def)
    fix j assume "j < length piece"
    moreover have "length piece = n"
      using b at n ring_pos mod_less_divisor [OF ring_pos, of at] by (auto simp: piece_def)
    ultimately have j: "j < n" by simp
    have "piece ! j = r_buf r ! ((at + j) mod RING_SZ)"
      unfolding piece_def by (rule ring_stretch_nth [OF b n(1) j])
    also have "\<dots> = h ! (at + j)"
      using h j at n unfolding ring_holds_def by auto
    finally show "piece ! j = drop at h ! j" using at j by simp
  qed
  ultimately show ?thesis by (simp add: at_def n_def)
qed

interpretation log_ring: log_tail ring_write log_ring_read ring_holds RING_SZ
  by unfold_locales (rule ring_holds_write, assumption+, rule ring_read_tail)

lemma strip_ansi_csi:
  "c = ESC \<and> t \<noteq> [] \<and> hd t = CHR ''['' \<Longrightarrow> strip_ansi (c # t) = strip_ansi (drop_csi (tl t))"
  unfolding strip_ansi.simps [of "c # t"] list.case by (rule if_P)

lemma strip_ansi_other:
  "\<not> (c = ESC \<and> t \<noteq> [] \<and> hd t = CHR ''['') \<Longrightarrow> strip_ansi (c # t) = c # strip_ansi t"
  unfolding strip_ansi.simps [of "c # t"] list.case by (rule if_not_P)

lemma strip_ansi_Nil [simp]: "strip_ansi [] = []"
  by (simp add: strip_ansi.simps)

lemma strip_ansi_length: "length (strip_ansi s) \<le> length s"
proof (induction s rule: strip_ansi.induct)
  case (1 s)
  show ?case
  proof (cases s)
    case (Cons c t)
    show ?thesis
    proof (cases "c = ESC \<and> t \<noteq> [] \<and> hd t = CHR ''[''")
      case True
      then have "length (strip_ansi (drop_csi (tl t))) \<le> length (drop_csi (tl t))"
        using 1 Cons by blast
      also have "\<dots> \<le> length (tl t)" by (rule drop_csi_length)
      also have "\<dots> \<le> length s" using Cons by simp
      finally show ?thesis unfolding Cons strip_ansi_csi [OF True] .
    next
      case False
      then have "length (strip_ansi t) \<le> length t" using 1 Cons by blast
      then show ?thesis unfolding Cons strip_ansi_other [OF False] by simp
    qed
  qed simp
qed

lemma ring_line_length: "length (ring_line line) \<le> 255"
proof -
  have "length (ring_line line) \<le> length (snprintf_buf 256 line)"
    unfolding ring_line_def by (rule strip_ansi_length)
  also have "\<dots> < 256" by (rule snprintf_buf_bound) simp
  finally show ?thesis by simp
qed

lemma ring_line_fits: "length (ring_line line) \<le> RING_SZ"
  using ring_line_length [of line] by (simp add: RING_SZ_def)

lemma ring_holds0: "ring_holds log_ring0 []"
  by (simp add: ring_holds_def log_ring0_def)

lemma ring_holds_lines:
  "ring_holds r h \<Longrightarrow> ring_holds (foldl ring_vprintf r ls) (h @ concat (map ring_line ls))"
proof (induction ls arbitrary: r h)
  case (Cons l ls)
  have "ring_holds (ring_vprintf r l) (h @ ring_line l)"
    using ring_holds_write [OF Cons.prems ring_line_fits] Cons.prems
    by (simp add: ring_vprintf_def ring_line_def snprintf_buf_def strip_ansi.simps)
  then show ?case using Cons.IH by fastforce
qed simp

section \<open>Properties\<close>

text \<open>C34: After any sequence of lines logged, a read from an offset answers exactly the bytes of the
  stripped lines from there on: as many of the latest as the ring retains and the buffer holds, with
  the end of the log as the next offset.\<close>

theorem log_tail_exact:
  assumes "from \<le> length (concat (map ring_line ls))"
  shows "log_ring_read (foldl ring_vprintf log_ring0 ls) from room =
    (drop (length (concat (map ring_line ls)) - min room (min RING_SZ (length (concat (map ring_line ls)) - from)))
       (concat (map ring_line ls)),
     length (concat (map ring_line ls)))"
  using ring_read_tail [OF ring_holds_lines [OF ring_holds0], of "from" ls room] assms by simp

theorem log_tail_exact_witness:
  "log_ring_read (foldl ring_vprintf log_ring0 [''ab'', ''cde'']) 1 3 = (''cde'', 5)"
proof -
  have l: "ring_line ''ab'' = ''ab''" "ring_line ''cde'' = ''cde''"
    by (simp_all add: ring_line_def snprintf_buf_def strip_ansi.simps ESC_def)
  show ?thesis using log_tail_exact [of 1 "[''ab'', ''cde'']" 3] by (simp add: l RING_SZ_def)
qed

text \<open>A reader that polls after each line, always with the offset the last answer gave and a
  buffer for the longest line, receives every line once and in order.\<close>

theorem log_poller_misses_nothing:
  "255 \<le> room \<Longrightarrow> log_ring.poll room (log_ring0, 0) (map ring_line ls) = concat (map ring_line ls)"
  using log_ring.poll_complete [OF ring_holds0, of "map ring_line ls" room] ring_line_fits
    order_trans [OF ring_line_length]
  by (simp add: image_iff)

theorem log_poller_misses_nothing_witness:
  "log_ring.poll 4096 (log_ring0, 0) (map ring_line [''up'', ''down'']) = ring_line ''up'' @ ring_line ''down''"
  using log_poller_misses_nothing [of 4096 "[''up'', ''down'']"] by simp

end
