(* ===== verification/Dns_Server.thy ===== *)
theory Dns_Server
  imports Bridge_Prelude
begin

text \<open>
  The name server of the setup portal, \<^verbatim>\<open>components/provisioning/dns_server.c\<close>: the answer
  \<^verbatim>\<open>dns_task\<close> builds for one datagram, its loop over the datagrams, and the start and stop of the
  server. A datagram is a list of bytes, at most 512 as received into the task's buffer; \<open>s_ip\<close> is the
  four bytes of the address in memory, as \<^verbatim>\<open>inet_addr\<close> leaves them.

  The lemmas show what is answered (every single-question query that leaves room for the answer
  record) and that the reply stays inside the 512-byte transmit buffer.
\<close>

section \<open>One datagram\<close>

definition DNS_MAX :: nat where "DNS_MAX = 512"

text \<open>The size of \<^verbatim>\<open>dns_header_t\<close>; \<open>qd_count\<close> and \<open>an_count\<close> are the big-endian words at 4 and 6.\<close>

definition DNS_HEADER :: nat where "DNS_HEADER = 12"

definition qd_count :: "byte list \<Rightarrow> nat" where
  "qd_count rx = unat (rx ! 4) * 256 + unat (rx ! 5)"

text \<open>The walk over the labels of the question name.\<close>

function name_end :: "byte list \<Rightarrow> nat \<Rightarrow> nat" where
  "name_end rx p = (if p < length rx \<and> rx ! p \<noteq> 0 then name_end rx (p + unat (rx ! p) + 1) else p)"
  by pat_completeness auto
termination
  by (relation "measure (\<lambda>(rx, p). length rx - p)") auto

declare name_end.simps [simp del]

text \<open>The answer record: a pointer to the name, type A, class IN, 60 seconds, four bytes of address.\<close>

definition answer_record :: "byte list \<Rightarrow> byte list" where
  "answer_record ip = [0xC0, 0x0C, 0x00, 0x01, 0x00, 0x01, 0x00, 0x00, 0x00, 0x3C, 0x00, 0x04] @ ip"

definition reply_header :: "byte list \<Rightarrow> byte list" where
  "reply_header rx = take 2 rx @ [0x81, 0x80] @ take 2 (drop 4 rx) @ [0, 1, 0, 0, 0, 0]"

definition dns_reply :: "byte list \<Rightarrow> byte list \<Rightarrow> byte list option" where
  "dns_reply ip rx =
     (if length rx < DNS_HEADER then None
      else if qd_count rx \<noteq> 1 then None
      else
        let p = name_end rx DNS_HEADER + 1;
            qend = p + 4
        in if qend > length rx \<or> qend + 16 > DNS_MAX then None
           else Some (reply_header rx @ drop DNS_HEADER (take qend rx) @ answer_record ip))"

section \<open>The server\<close>

record dns_server =
  d_sock :: int
  d_ip :: "byte list"
  d_task :: bool

definition dns_idle :: dns_server where
  "dns_idle = \<lparr>d_sock = -1, d_ip = [0, 0, 0, 0], d_task = False\<rparr>"

text \<open>The task's loop over the datagrams that arrive while the socket is open: what it sends.\<close>

fun dns_task :: "dns_server \<Rightarrow> byte list list \<Rightarrow> byte list list" where
  "dns_task s [] = []"
| "dns_task s (rx # rxs) =
     (if d_sock s < 0 then []
      else case dns_reply (d_ip s) (take DNS_MAX rx) of
             None \<Rightarrow> dns_task s rxs
           | Some tx \<Rightarrow> tx # dns_task s rxs)"

text \<open>\<open>sock\<close> is what \<^verbatim>\<open>socket\<close> returns, \<open>bound\<close> and \<open>created\<close> the outcome of \<^verbatim>\<open>bind\<close> and
  \<^verbatim>\<open>xTaskCreate\<close>; the first component tells \<^verbatim>\<open>ESP_OK\<close> from \<^verbatim>\<open>ESP_FAIL\<close>.\<close>

definition dns_server_start :: "byte list \<Rightarrow> int \<Rightarrow> bool \<Rightarrow> bool \<Rightarrow> dns_server \<Rightarrow> bool \<times> dns_server" where
  "dns_server_start ip sock bound created s =
     (if d_sock s \<ge> 0 then (True, s)
      else
        let s = s\<lparr>d_ip := ip, d_sock := sock\<rparr>
        in if sock < 0 then (False, s)
           else if \<not> bound then (False, s\<lparr>d_sock := -1\<rparr>)
           else if \<not> created then (False, s\<lparr>d_sock := -1\<rparr>)
           else (True, s\<lparr>d_task := True\<rparr>))"

definition dns_server_stop :: "dns_server \<Rightarrow> dns_server" where
  "dns_server_stop s = s\<lparr>d_sock := -1\<rparr>"

section \<open>Queries as a client writes them\<close>

text \<open>A name is its labels, each behind its length byte, and a zero byte; a query is a header with one
  question. \<open>ident\<close> and \<open>flags\<close> are the words before the question count, \<open>counts\<close> the three after it.\<close>

definition dns_labels :: "byte list list \<Rightarrow> byte list" where
  "dns_labels ls = concat (map (\<lambda>l. of_nat (length l) # l) ls)"

definition dns_query :: "byte list \<Rightarrow> byte list \<Rightarrow> byte list \<Rightarrow> byte list list \<Rightarrow> byte list \<Rightarrow> byte list \<Rightarrow> byte list" where
  "dns_query ident flags counts ls qtype extra =
     ident @ flags @ [0, 1] @ counts @ dns_labels ls @ [0] @ qtype @ extra"

lemma name_end_labels:
  assumes "\<forall>l \<in> set ls. l \<noteq> [] \<and> length l < 256" "length h = p"
  shows "name_end (h @ dns_labels ls @ 0 # t) p = p + length (dns_labels ls)"
  using assms
proof (induction ls arbitrary: h p)
  case Nil
  then have "(h @ 0 # t) ! p = 0" by (simp add: nth_append)
  then show ?case by (subst name_end.simps) (simp add: dns_labels_def)
next
  case (Cons l ls)
  let ?n = "of_nat (length l) :: byte"
  have n: "unat ?n = length l"
    using Cons.prems(1) by (simp add: unsigned_of_nat take_bit_nat_eq_self)
  then have n0: "?n \<noteq> 0" using Cons.prems(1) by (metis length_0_conv list.set_intros(1) unat_0)
  have e: "h @ dns_labels (l # ls) @ 0 # t = (h @ ?n # l) @ dns_labels ls @ 0 # t"
    by (simp add: dns_labels_def)
  have at: "((h @ ?n # l) @ dns_labels ls @ 0 # t) ! p = ?n" using Cons.prems(2) by (simp add: nth_append)
  have "name_end ((h @ ?n # l) @ dns_labels ls @ 0 # t) p =
        name_end ((h @ ?n # l) @ dns_labels ls @ 0 # t) (p + length l + 1)"
    by (subst name_end.simps) (use at n n0 Cons.prems(2) in simp)
  also have "\<dots> = (p + length l + 1) + length (dns_labels ls)"
    using Cons.prems by (intro Cons.IH) simp_all
  finally show ?case unfolding e by (simp add: dns_labels_def)
qed

lemma name_end_ge: "p \<le> name_end rx p"
proof (induction rx p rule: name_end.induct)
  case (1 rx p)
  then show ?case by (subst name_end.simps) auto
qed

lemma dns_reply_length: "dns_reply ip rx = Some tx \<Longrightarrow> length ip = 4 \<Longrightarrow> length tx \<le> DNS_MAX"
  using name_end_ge [of 12 rx]
  by (auto simp: dns_reply_def Let_def reply_header_def answer_record_def DNS_HEADER_def split: if_splits)

section \<open>Properties\<close>

text \<open>Every query with one question, whatever it asks for, is answered with the portal's address if
  the reply fits the transmit buffer: the identification and the question come back unchanged, with
  one answer record.\<close>

theorem portal_answers_every_name:
  assumes "length ident = 2" "length flags = 2" "length counts = 6" "length qtype = 4"
    "\<forall>l \<in> set ls. l \<noteq> [] \<and> length l < 256" "length (dns_labels ls) + 33 \<le> DNS_MAX"
  shows "dns_reply ip (dns_query ident flags counts ls qtype extra) =
    Some (ident @ [0x81, 0x80, 0, 1, 0, 1, 0, 0, 0, 0] @ dns_labels ls @ [0] @ qtype @ answer_record ip)"
proof -
  let ?h = "ident @ flags @ [0, 1] @ counts"
  let ?q = "dns_query ident flags counts ls qtype extra"
  have h: "length ?h = 12" using assms by simp
  have q: "?q = ?h @ dns_labels ls @ 0 # (qtype @ extra)" by (simp add: dns_query_def)
  have e: "name_end ?q 12 = 12 + length (dns_labels ls)"
    unfolding q by (rule name_end_labels [OF assms(5) h])
  have c: "qd_count ?q = 1" using assms(1,2) by (simp add: qd_count_def dns_query_def nth_append)
  have l: "length ?q = 17 + length (dns_labels ls) + length extra" using assms by (simp add: dns_query_def)
  have t: "reply_header ?q = ident @ [0x81, 0x80, 0, 1, 0, 1, 0, 0, 0, 0]"
    using assms(1,2) by (simp add: reply_header_def dns_query_def)
  have d: "drop 12 (take (12 + length (dns_labels ls) + 1 + 4) ?q) = dns_labels ls @ [0] @ qtype"
  proof -
    let ?b = "dns_labels ls @ [0] @ qtype"
    have q2: "?q = ?h @ ?b @ extra" by (simp add: dns_query_def)
    have "12 + length (dns_labels ls) + 1 + 4 = length ?h + length ?b" using h assms(4) by simp
    then have "take (12 + length (dns_labels ls) + 1 + 4) ?q = ?h @ ?b"
      unfolding q2 by (simp only: take_append) simp
    then show ?thesis using h by (simp only: append_eq_conv_conj [symmetric] drop_append) simp
  qed
  show ?thesis
    using e c l t d assms(6) by (simp add: dns_reply_def DNS_HEADER_def Let_def)
qed

theorem portal_answers_every_name_witness:
  "dns_reply [192, 168, 4, 1] (dns_query [0xAB, 0xCD] [1, 0] [0, 0, 0, 0, 0, 0] [[97, 98], [99]] [0, 1, 0, 1] []) =
   Some ([0xAB, 0xCD] @ [0x81, 0x80, 0, 1, 0, 1, 0, 0, 0, 0] @ dns_labels [[97, 98], [99]] @ [0] @ [0, 1, 0, 1] @
     answer_record [192, 168, 4, 1])"
  by (rule portal_answers_every_name) (simp_all add: dns_labels_def DNS_MAX_def)

text \<open>Whatever the datagrams hold, malformed names included, no reply the server sends is longer than
  its transmit buffer.\<close>

theorem dns_replies_fit:
  "length (d_ip s) = 4 \<Longrightarrow> tx \<in> set (dns_task s rxs) \<Longrightarrow> length tx \<le> DNS_MAX"
  by (induction rxs) (auto split: if_splits option.splits dest: dns_reply_length)

theorem dns_replies_fit_witness:
  "dns_task (dns_idle\<lparr>d_sock := 3\<rparr>) [[1, 2, 0, 0, 0, 1, 0, 0, 0, 0, 0, 0, 0, 0, 1, 0, 1], [7]] =
     [[1, 2, 0x81, 0x80, 0, 1, 0, 1, 0, 0, 0, 0, 0, 0, 1, 0, 1, 0xC0, 0x0C, 0, 1, 0, 1, 0, 0, 0, 0x3C, 0, 4, 0, 0, 0, 0]] \<and>
   (\<forall>tx \<in> set (dns_task (dns_idle\<lparr>d_sock := 3\<rparr>) [[1, 2, 0, 0, 0, 1, 0, 0, 0, 0, 0, 0, 0, 0, 1, 0, 1], [7]]).
      length tx \<le> DNS_MAX)"
  using dns_replies_fit [of "dns_idle\<lparr>d_sock := 3\<rparr>"]
  by (auto simp: dns_idle_def dns_reply_def DNS_MAX_def DNS_HEADER_def qd_count_def name_end.simps Let_def
      reply_header_def answer_record_def)

end
