(* ===== verification/Ota_Github.thy ===== *)
theory Ota_Github
  imports Bridge_Prelude "HOL-Library.Multiset"
begin

text \<open>
  Firmware updates from the project's releases, \<^verbatim>\<open>components/ota_github/ota_github.c\<close>: the version
  comparison, the scanner that picks the tags out of the release list as it streams, and the
  background installation with its status record \<open>G\<close>.

  What the HTTP client and the OTA writer return is an argument of each step: the chunks a read
  delivers, the outcome of \<^verbatim>\<open>esp_https_ota_begin\<close>, \<^verbatim>\<open>perform\<close> and \<^verbatim>\<open>finish\<close>. The step relation
  \<open>gh_step\<close> interleaves the tasks at the points where \<open>G\<close> is released.

  The lemmas show that the comparison orders versions by their three numbers, that the scanner
  reports the tags of the list however it is cut into chunks, and that one installation runs at a
  time and is reported done only when the image is complete and accepted.
\<close>

section \<open>Version comparison\<close>

definition skip_dot :: "string \<Rightarrow> string" where
  "skip_dot s = (if s \<noteq> [] \<and> hd s = CHR ''.'' then tl s else s)"

fun vercmp_from :: "nat \<Rightarrow> string \<Rightarrow> string \<Rightarrow> int" where
  "vercmp_from 0 a b = 0"
| "vercmp_from (Suc i) a b =
     (let (x, a) = strtol a; (y, b) = strtol b
      in if x \<noteq> y then (if x < y then -1 else 1)
         else vercmp_from i (skip_dot a) (skip_dot b))"

definition ota_gh_vercmp :: "string \<Rightarrow> string \<Rightarrow> int" where
  "ota_gh_vercmp a b = vercmp_from 3 a b"

definition skip_v :: "string \<Rightarrow> string" where
  "skip_v s = (if s \<noteq> [] \<and> (hd s = CHR ''v'' \<or> hd s = CHR ''V'') then tl s else s)"

text \<open>\<open>desc\<close> is the version of the application descriptor, if there is one.\<close>

definition running_version :: "string option \<Rightarrow> nat \<Rightarrow> string" where
  "running_version desc len = skip_v (strlcpy len (case desc of Some v \<Rightarrow> v | None \<Rightarrow> ''0.0.0''))"

section \<open>Listing releases\<close>

definition OTA_GH_MAX_RELEASES :: nat where "OTA_GH_MAX_RELEASES = 10"

record ota_gh_release =
  rel_version :: string
  rel_prerelease :: bool
  rel_newer :: bool

record scan =
  sc_matched :: nat
  sc_capturing :: bool
  sc_val :: string
  sc_out :: "ota_gh_release list"
  sc_max :: nat
  sc_running :: string

definition tag_needle :: string where
  "tag_needle = CHR 0x22 # ''tag_name'' @ [CHR 0x22, CHR '':'', CHR 0x22]"

definition release_of :: "string \<Rightarrow> string \<Rightarrow> ota_gh_release" where
  "release_of running val =
     \<lparr>rel_version = strlcpy 16 (skip_v val), rel_prerelease = False,
      rel_newer = (ota_gh_vercmp (skip_v val) running > 0)\<rparr>"

definition scan_byte :: "scan \<Rightarrow> char \<Rightarrow> scan" where
  "scan_byte s c =
     (if sc_capturing s then
        if c = CHR 0x22 then
          (let s = (if length (sc_out s) < sc_max s
                    then s\<lparr>sc_out := sc_out s @ [release_of (sc_running s) (sc_val s)]\<rparr> else s)
           in s\<lparr>sc_capturing := False, sc_val := []\<rparr>)
        else if length (sc_val s) + 1 < 16 then s\<lparr>sc_val := sc_val s @ [c]\<rparr>
        else s
      else if c = tag_needle ! sc_matched s then
        if sc_matched s + 1 = length tag_needle
        then s\<lparr>sc_capturing := True, sc_val := [], sc_matched := 0\<rparr>
        else s\<lparr>sc_matched := sc_matched s + 1\<rparr>
      else s\<lparr>sc_matched := (if c = tag_needle ! 0 then 1 else 0)\<rparr>)"

definition scan_start :: "nat \<Rightarrow> string \<Rightarrow> scan" where
  "scan_start room running =
     \<lparr>sc_matched = 0, sc_capturing = False, sc_val = [], sc_out = [], sc_max = room, sc_running = running\<rparr>"

text \<open>The read loop: an empty chunk stands for a read that returns nothing or fails.\<close>

fun read_releases :: "scan \<Rightarrow> string list \<Rightarrow> scan" where
  "read_releases s [] = s"
| "read_releases s (buf # rest) =
     (if buf = [] then s
      else let s = foldl scan_byte s buf
           in if length (sc_out s) \<ge> sc_max s then s else read_releases s rest)"

text \<open>What the HTTPS client does: whether it starts, the name of the error if it cannot connect, the
  status code and the body as it is read.\<close>

record gh_http =
  gh_init :: bool
  gh_open_error :: "string option"
  gh_status :: int
  gh_body :: "string list"

definition check_url :: "string \<Rightarrow> string \<Rightarrow> string" where
  "check_url owner repo = snprintf_buf 160
     (''https://api.github.com/repos/'' @ owner @ ''/'' @ repo @ ''/releases?per_page='' @ show_nat OTA_GH_MAX_RELEASES)"

definition rate_limited :: string where
  "rate_limited = ''GitHub is rate-limiting this network '' @ [CHR 0xE2, CHR 0x80, CHR 0x94] @ '' try later''"

definition ota_gh_check :: "gh_http \<Rightarrow> string option \<Rightarrow> nat \<Rightarrow> nat \<Rightarrow> string + ota_gh_release list" where
  "ota_gh_check http desc room errlen =
     (if \<not> gh_init http then Inl (strlcpy errlen ''could not start the HTTPS client'')
      else case gh_open_error http of
        Some e \<Rightarrow> Inl (snprintf_buf errlen (''could not reach github.com ('' @ e @ '')''))
      | None \<Rightarrow>
          if gh_status http \<noteq> 200 then
            if gh_status http = 403 \<or> gh_status http = 429 then Inl (strlcpy errlen rate_limited)
            else Inl (snprintf_buf errlen (''GitHub returned HTTP '' @ show_int (gh_status http)))
          else
            (let s = read_releases (scan_start room (running_version desc 16)) (gh_body http)
             in if sc_out s = [] then Inl (strlcpy errlen ''no releases found'') else Inr (sc_out s)))"

section \<open>Installing\<close>

datatype ota_gh_state = OTA_GH_IDLE | OTA_GH_RUNNING | OTA_GH_DONE | OTA_GH_FAILED

record gh =
  G_state :: ota_gh_state
  G_pct :: int
  G_msg :: string
  G_version :: string
  G_lock :: bool

definition gh0 :: gh where
  "gh0 = \<lparr>G_state = OTA_GH_IDLE, G_pct = -1, G_msg = [], G_version = [], G_lock = False\<rparr>"

definition set_fail :: "string \<Rightarrow> gh \<Rightarrow> gh" where
  "set_fail why g = g\<lparr>G_state := OTA_GH_FAILED, G_msg := strlcpy 96 why\<rparr>"

text \<open>Where the task is between two releases of \<open>G\<close>: the call it makes next, or over. \<open>At_perform\<close>
  carries the image size.\<close>

datatype ota_pc = At_begin | At_perform int | At_complete | At_finish | At_delay | Over

datatype ota_err = Ota_ok | In_progress | Validate_failed | Other_error string

definition download_url :: "string \<Rightarrow> string \<Rightarrow> gh \<Rightarrow> string" where
  "download_url owner repo g = snprintf_buf 220
     (''https://github.com/'' @ owner @ ''/'' @ repo @ ''/releases/download/v'' @ G_version g @ ''/'' @ repo @
      ''-'' @ G_version g @ ''.bin'')"

definition ota_begin :: "bool \<Rightarrow> int \<Rightarrow> gh \<Rightarrow> ota_pc \<times> gh" where
  "ota_begin begun img_size g =
     (if begun then (At_perform img_size, g) else (Over, set_fail ''could not start the download'' g))"

text \<open>\<open>done\<close> is \<^verbatim>\<open>esp_https_ota_get_image_len_read\<close> after the call.\<close>

definition ota_perform :: "int \<Rightarrow> ota_err \<Rightarrow> nat \<Rightarrow> gh \<Rightarrow> ota_pc \<times> gh" where
  "ota_perform img_size err len_read g =
     (case err of
        In_progress \<Rightarrow>
          (At_perform img_size,
           g\<lparr>G_pct := (if img_size > 0 then sint (word_of_int (int len_read * 100 div img_size) :: 32 word) else -1)\<rparr>)
      | Ota_ok \<Rightarrow> (At_complete, g)
      | Validate_failed \<Rightarrow> (Over, set_fail ''that file is not a valid image for this device'' g)
      | Other_error e \<Rightarrow> (Over, set_fail (snprintf_buf 96 (''download failed ('' @ e @ '')'')) g))"

definition ota_complete :: "bool \<Rightarrow> gh \<Rightarrow> ota_pc \<times> gh" where
  "ota_complete received g =
     (if received then (At_finish, g) else (Over, set_fail ''the download ended early'' g))"

definition ota_finish :: "ota_err \<Rightarrow> gh \<Rightarrow> ota_pc \<times> gh" where
  "ota_finish err g =
     (if err \<noteq> Ota_ok then
        (Over, set_fail (if err = Validate_failed then ''the downloaded image failed validation''
                         else ''could not finish writing the image'') g)
      else (At_delay, g\<lparr>G_state := OTA_GH_DONE, G_pct := 100, G_msg := strlcpy 96 ''installed - rebooting''\<rparr>))"

text \<open>\<open>ota_gh_start\<close>, up to the creation of the task: \<open>None\<close> refuses.\<close>

definition gh_claim :: "string \<Rightarrow> bool \<Rightarrow> gh \<Rightarrow> gh option \<times> gh" where
  "gh_claim version have_mutex g =
     (if \<not> G_lock g \<and> \<not> have_mutex then (None, g)
      else
        let g = g\<lparr>G_lock := True\<rparr>
        in if G_state g = OTA_GH_RUNNING then (None, g)
           else (Some (g\<lparr>G_version := strlcpy 16 version, G_state := OTA_GH_RUNNING, G_pct := -1,
                         G_msg := strlcpy 96 ''starting''\<rparr>), g))"

text \<open>The whole call: its result, \<open>G\<close>, and the task if one was created.\<close>

definition ota_gh_start :: "string \<Rightarrow> bool \<Rightarrow> bool \<Rightarrow> gh \<Rightarrow> int \<times> gh \<times> ota_pc option" where
  "ota_gh_start version have_mutex created g =
     (case gh_claim version have_mutex g of
        (None, g) \<Rightarrow> (-1, g, None)
      | (Some g, _) \<Rightarrow>
          if \<not> created then (-1, set_fail ''could not start the update task'' g, None)
          else (0, g, Some At_begin))"

definition ota_gh_status :: "nat \<Rightarrow> gh \<Rightarrow> ota_gh_state \<times> int \<times> string" where
  "ota_gh_status msglen g =
     (if \<not> G_lock g then (OTA_GH_IDLE, -1, []) else (G_state g, G_pct g, strlcpy msglen (G_msg g)))"

text \<open>One step of one task on the outcomes the libraries report.\<close>

inductive task_step :: "ota_pc \<Rightarrow> gh \<Rightarrow> ota_pc \<Rightarrow> gh \<Rightarrow> bool" where
  at_begin: "ota_begin begun img_size g = (pc, g') \<Longrightarrow> task_step At_begin g pc g'"
| at_perform: "ota_perform img_size err len_read g = (pc, g') \<Longrightarrow> task_step (At_perform img_size) g pc g'"
| at_complete: "ota_complete received g = (pc, g') \<Longrightarrow> task_step At_complete g pc g'"
| at_finish: "ota_finish err g = (pc, g') \<Longrightarrow> task_step At_finish g pc g'"

text \<open>The system: \<open>G\<close> and the tasks that exist. A task whose call is over only deletes itself.\<close>

inductive gh_step :: "gh \<times> ota_pc multiset \<Rightarrow> gh \<times> ota_pc multiset \<Rightarrow> bool" where
  started: "ota_gh_start version have_mutex created g = (rc, g', Some pc) \<Longrightarrow> gh_step (g, T) (g', add_mset pc T)"
| refused: "ota_gh_start version have_mutex created g = (rc, g', None) \<Longrightarrow> gh_step (g, T) (g', T)"
| task: "task_step pc g pc' g' \<Longrightarrow> gh_step (g, add_mset pc T) (g', add_mset pc' T)"
| deleted: "gh_step (g, add_mset Over T) (g, T)"

inductive_cases task_stepE: "task_step pc g pc' g'"

inductive gh_reachable :: "gh \<times> ota_pc multiset \<Rightarrow> bool" where
  initially: "gh_reachable (gh0, {#})"
| further: "gh_reachable s \<Longrightarrow> gh_step s s' \<Longrightarrow> gh_reachable s'"


section \<open>The comparison\<close>

definition dotted :: "nat \<times> nat \<times> nat \<Rightarrow> string \<Rightarrow> string" where
  "dotted v suffix = (case v of (a, b, c) \<Rightarrow> show_nat a @ ''.'' @ show_nat b @ ''.'' @ show_nat c @ suffix)"

text \<open>Numbers a \<^verbatim>\<open>long\<close> holds, and a suffix that does not continue the last of them.\<close>

definition version_ok :: "nat \<times> nat \<times> nat \<Rightarrow> string \<Rightarrow> bool" where
  "version_ok v suffix \<longleftrightarrow>
     (case v of (a, b, c) \<Rightarrow> int a \<le> LONG_MAX \<and> int b \<le> LONG_MAX \<and> int c \<le> LONG_MAX) \<and>
     (suffix = [] \<or> \<not> is_digit (hd suffix))"

fun version_less :: "nat \<times> nat \<times> nat \<Rightarrow> nat \<times> nat \<times> nat \<Rightarrow> bool" where
  "version_less (a, b, c) (x, y, z) \<longleftrightarrow> a < x \<or> a = x \<and> (b < y \<or> b = y \<and> c < z)"

lemma not_digit_dot: "\<not> is_digit (CHR ''.'')"
  by (simp add: is_digit_def)

lemma vercmp_step:
  assumes "int a \<le> LONG_MAX" "int b \<le> LONG_MAX"
  shows "vercmp_from (Suc i) (show_nat a @ ''.'' @ r) (show_nat b @ ''.'' @ t) =
         (if a \<noteq> b then (if a < b then -1 else 1) else vercmp_from i r t)"
  using strtol_show_nat [OF assms(1), of "''.'' @ r"] strtol_show_nat [OF assms(2), of "''.'' @ t"]
  by (simp add: not_digit_dot skip_dot_def)

section \<open>The scanner\<close>

lemma needle_length: "length tag_needle = 12"
  by (simp add: tag_needle_def)

text \<open>\<open>plain p\<close>: no \<open>"tag_name"\<close> in \<open>p\<close>, not even one that the next quote would complete.\<close>

definition plain :: "string \<Rightarrow> bool" where
  "plain p \<longleftrightarrow> \<not> contains (take 10 tag_needle) (p @ [CHR 0x22])"

lemma contains_mono: "contains p s \<Longrightarrow> contains p (s @ t)"
  unfolding contains_iff by (metis append.assoc)

lemma contains_last: "contains p (s @ p)"
  unfolding contains_iff by (metis append_Nil2)

definition at_match :: "string \<Rightarrow> nat \<Rightarrow> bool" where
  "at_match p m \<longleftrightarrow> m < 10 \<and> (\<exists>q. p = q @ take m tag_needle)"

lemma at_match_snoc:
  assumes m: "at_match p m" and no: "\<not> contains (take 10 tag_needle) (p @ [c])"
  defines "m' \<equiv> (if c = tag_needle ! m then m + 1 else if c = tag_needle ! 0 then 1 else 0)"
  shows "at_match (p @ [c]) m'"
proof -
  obtain q where q: "p = q @ take m tag_needle" "m < 10" using m by (auto simp: at_match_def)
  show ?thesis
  proof (cases "c = tag_needle ! m")
    case True
    have t: "p @ [c] = q @ take (m + 1) tag_needle"
      using q True needle_length by (simp add: take_Suc_conv_app_nth)
    then have "m + 1 \<noteq> 10" using no contains_last by metis
    then show ?thesis using t q(2) True by (auto simp: m'_def at_match_def)
  next
    case False
    then show ?thesis by (auto simp: m'_def at_match_def tag_needle_def)
  qed
qed

lemma scan_idle:
  assumes "sc_capturing s = False" "sc_matched s = m" "m < 10"
  shows "scan_byte s c = s\<lparr>sc_matched := (if c = tag_needle ! m then m + 1 else if c = tag_needle ! 0 then 1 else 0)\<rparr>"
  using assms by (simp add: scan_byte_def needle_length)

lemma scan_plain_prefix:
  assumes "\<not> contains (take 10 tag_needle) p" "sc_capturing s = False" "sc_matched s = 0"
  shows "\<exists>m. at_match p m \<and> foldl scan_byte s p = s\<lparr>sc_matched := m\<rparr>"
  using assms
proof (induction p rule: rev_induct)
  case Nil
  then show ?case by (intro exI [of _ 0]) (simp add: at_match_def)
next
  case (snoc c p)
  have "\<not> contains (take 10 tag_needle) p" using snoc.prems(1) contains_mono by blast
  then obtain m where m: "at_match p m" "foldl scan_byte s p = s\<lparr>sc_matched := m\<rparr>"
    using snoc.IH snoc.prems(2,3) by blast
  show ?case
    using at_match_snoc [OF m(1) snoc.prems(1)] m scan_idle [of "s\<lparr>sc_matched := m\<rparr>" m c] snoc.prems(2)
    by (auto simp: at_match_def)
qed

text \<open>After plain text, the tag marker starts a capture.\<close>

lemma scan_marker:
  assumes "plain p" "sc_capturing s = False" "sc_matched s = 0"
  shows "foldl scan_byte s (p @ tag_needle) = s\<lparr>sc_capturing := True, sc_val := [], sc_matched := 0\<rparr>"
proof -
  have no: "\<not> contains (take 10 tag_needle) p" using assms(1) contains_mono by (auto simp: plain_def)
  obtain m where m: "at_match p m" "foldl scan_byte s p = s\<lparr>sc_matched := m\<rparr>"
    using scan_plain_prefix [OF no assms(2,3)] by blast
  have m9: "m \<noteq> 9"
  proof
    assume "m = 9"
    then obtain q where "p @ [CHR 0x22] = q @ take 10 tag_needle" using m(1) by (auto simp: at_match_def tag_needle_def)
    then show False using assms(1) contains_last by (metis plain_def)
  qed
  have "m < 10" using m(1) by (simp add: at_match_def)
  then have "m = 0 \<or> m \<in> {1, 2, 3, 4, 5, 6, 7, 8}" using m9 by auto
  then have one: "foldl scan_byte s (p @ [CHR 0x22]) = s\<lparr>sc_matched := 1\<rparr>"
    using assms(2) m(2) by (auto simp: scan_byte_def tag_needle_def)
  have e: "p @ tag_needle = (p @ [CHR 0x22]) @ drop 1 tag_needle" by (simp add: tag_needle_def)
  show ?thesis
    unfolding e foldl_append one [unfolded foldl_append]
    using assms(2) by (simp add: tag_needle_def scan_byte_def)
qed

lemma scan_value:
  assumes "CHR 0x22 \<notin> set v" "sc_capturing s" "length (sc_val s) \<le> 15"
  shows "foldl scan_byte s v = s\<lparr>sc_val := take 15 (sc_val s @ v)\<rparr>"
  using assms
proof (induction v arbitrary: s)
  case (Cons c v)
  have c: "c \<noteq> CHR 0x22" using Cons.prems(1) by auto
  show ?case
  proof (cases "length (sc_val s) + 1 < 16")
    case True
    then have "scan_byte s c = s\<lparr>sc_val := sc_val s @ [c]\<rparr>" using Cons.prems(2) c by (simp add: scan_byte_def)
    then show ?thesis using Cons.IH [of "s\<lparr>sc_val := sc_val s @ [c]\<rparr>"] Cons.prems True
      by (simp add: take_Cons')
  next
    case False
    then have "scan_byte s c = s" using Cons.prems(2) c by (simp add: scan_byte_def)
    then show ?thesis using Cons.IH [of s] Cons.prems False by simp
  qed
qed simp

lemma scan_item:
  assumes "plain p" "CHR 0x22 \<notin> set v" "sc_capturing s = False" "sc_matched s = 0" "length (sc_out s) \<le> sc_max s"
  shows "foldl scan_byte s (p @ tag_needle @ v @ [CHR 0x22]) =
         s\<lparr>sc_out := take (sc_max s) (sc_out s @ [release_of (sc_running s) (take 15 v)]), sc_val := []\<rparr>"
proof -
  have e: "p @ tag_needle @ v @ [CHR 0x22] = ((p @ tag_needle) @ v) @ [CHR 0x22]" by simp
  let ?s = "s\<lparr>sc_capturing := True, sc_val := [], sc_matched := 0\<rparr>"
  have v: "foldl scan_byte ?s v = ?s\<lparr>sc_val := take 15 v\<rparr>"
    using scan_value [of v ?s] assms(2) by simp
  show ?thesis
    unfolding e foldl_append [of _ _ "(p @ tag_needle) @ v"] foldl_append [of _ _ "p @ tag_needle"]
      scan_marker [OF assms(1,3,4)] v
    using assms(3-5) by (cases "length (sc_out s) < sc_max s") (simp_all add: scan_byte_def)
qed

text \<open>The release list as published: text, a tag marker and a tag, over and over, and a rest.\<close>

definition release_stream :: "(string \<times> string) list \<Rightarrow> string \<Rightarrow> string" where
  "release_stream items tail = concat (map (\<lambda>(p, v). p @ tag_needle @ v @ [CHR 0x22]) items) @ tail"

lemma scan_items:
  assumes "\<forall>(p, v) \<in> set items. plain p \<and> CHR 0x22 \<notin> set v"
    "sc_capturing s = False" "sc_matched s = 0" "length (sc_out s) \<le> sc_max s"
  shows "foldl scan_byte s (concat (map (\<lambda>(p, v). p @ tag_needle @ v @ [CHR 0x22]) items)) =
    s\<lparr>sc_out := take (sc_max s) (sc_out s @ map (\<lambda>(p, v). release_of (sc_running s) (take 15 v)) items),
      sc_val := (if items = [] then sc_val s else [])\<rparr>"
  using assms
proof (induction items arbitrary: s)
  case (Cons i items)
  obtain p v where i: "i = (p, v)" by (cases i)
  let ?o = "take (sc_max s) (sc_out s @ [release_of (sc_running s) (take 15 v)])"
  have "foldl scan_byte s (p @ tag_needle @ v @ [CHR 0x22]) = s\<lparr>sc_out := ?o, sc_val := []\<rparr>"
    using Cons.prems i by (intro scan_item) simp_all
  moreover have "take (sc_max s) (?o @ r) =
      take (sc_max s) (sc_out s @ release_of (sc_running s) (take 15 v) # r)" for r
    by (cases "length (sc_out s) < sc_max s") simp_all
  ultimately show ?case using Cons.IH [of "s\<lparr>sc_out := ?o, sc_val := []\<rparr>"] Cons.prems i by simp
qed simp

lemma scan_full: "sc_max s \<le> length (sc_out s) \<Longrightarrow> sc_out (scan_byte s c) = sc_out s \<and> sc_max (scan_byte s c) = sc_max s"
  by (simp add: scan_byte_def Let_def)

lemma scan_full_all: "sc_max s \<le> length (sc_out s) \<Longrightarrow> sc_out (foldl scan_byte s cs) = sc_out s"
  by (induction cs arbitrary: s) (simp_all add: scan_full)

lemma scan_max: "sc_max (foldl scan_byte s cs) = sc_max s"
  by (induction cs arbitrary: s) (simp_all add: scan_byte_def Let_def)

text \<open>How the body is cut into reads does not matter.\<close>

lemma read_releases_chunks:
  "[] \<notin> set bufs \<Longrightarrow> sc_out (read_releases s bufs) = sc_out (foldl scan_byte s (concat bufs))"
proof (induction bufs arbitrary: s)
  case (Cons buf bufs)
  show ?case
  proof (cases "sc_max s \<le> length (sc_out (foldl scan_byte s buf))")
    case True
    then show ?thesis using Cons.prems scan_full_all [of "foldl scan_byte s buf" "concat bufs"]
      by (simp add: Let_def scan_max)
  next
    case False
    moreover have "buf \<noteq> []" using Cons.prems by auto
    ultimately show ?thesis using Cons by (simp add: Let_def scan_max)
  qed
qed simp

lemma scan_tail:
  assumes "plain t" "sc_capturing s = False" "sc_matched s = 0"
  shows "sc_out (foldl scan_byte s t) = sc_out s"
proof -
  have "\<not> contains (take 10 tag_needle) t" using assms(1) contains_mono by (auto simp: plain_def)
  then show ?thesis using scan_plain_prefix [OF _ assms(2,3)] by fastforce
qed

section \<open>The installation\<close>

definition pc_active :: "ota_pc \<Rightarrow> bool" where
  "pc_active pc \<longleftrightarrow> pc \<noteq> At_delay \<and> pc \<noteq> Over"

lemma set_fail_simps [simp]:
  "G_state (set_fail e g) = OTA_GH_FAILED" "G_version (set_fail e g) = G_version g" "G_lock (set_fail e g) = G_lock g"
  by (simp_all add: set_fail_def)

lemma task_step_cases:
  assumes "task_step pc g pc' g'"
  shows "pc_active pc" "G_version g' = G_version g" "G_lock g' = G_lock g"
    "(pc_active pc' \<and> G_state g' = G_state g) \<or> (pc' = Over \<and> G_state g' = OTA_GH_FAILED) \<or>
     (pc = At_finish \<and> pc' = At_delay \<and> G_state g' = OTA_GH_DONE)"
  using assms
  by (auto elim!: task_stepE simp: pc_active_def ota_begin_def ota_perform_def ota_complete_def ota_finish_def
      split: if_splits ota_err.splits)

lemma start_cases:
  assumes "ota_gh_start version m c g = (rc, g', t)"
  shows "(t = None \<and> G_state g' = G_state g \<and> G_version g' = G_version g) \<or>
     (t = None \<and> G_state g \<noteq> OTA_GH_RUNNING \<and> G_state g' = OTA_GH_FAILED) \<or>
     (t = Some At_begin \<and> rc = 0 \<and> G_state g \<noteq> OTA_GH_RUNNING \<and> G_state g' = OTA_GH_RUNNING \<and> G_version g' = strlcpy 16 version)"
  using assms by (auto simp: ota_gh_start_def gh_claim_def Let_def split: if_splits)

definition single_install :: "gh \<times> ota_pc multiset \<Rightarrow> bool" where
  "single_install s \<longleftrightarrow>
     size (filter_mset pc_active (snd s)) = (if G_state (fst s) = OTA_GH_RUNNING then 1 else 0) \<and>
     (G_state (fst s) = OTA_GH_DONE \<longrightarrow> At_delay \<in># snd s)"

lemma single_install_step:
  assumes "gh_step s s'" "single_install s"
  shows "single_install s'"
  using assms(1)
proof cases
  case (started version m c g rc g' pc T)
  then show ?thesis using start_cases [OF started(3)] assms(2)
    by (auto simp: single_install_def pc_active_def split: if_splits)
next
  case (refused version m c g rc g' T)
  then show ?thesis using start_cases [OF refused(3)] assms(2) by (auto simp: single_install_def split: if_splits)
next
  case (task pc g pc' g' T)
  then show ?thesis using task_step_cases [OF task(3)] assms(2)
    by (auto simp: single_install_def pc_active_def split: if_splits)
next
  case (deleted g T)
  then show ?thesis using assms(2) by (simp add: single_install_def pc_active_def)
qed


lemma single_install_reachable: "gh_reachable s \<Longrightarrow> single_install s"
proof (induction rule: gh_reachable.induct)
  case initially
  show ?case by (simp add: single_install_def gh0_def)
next
  case (further s s')
  show ?case by (rule single_install_step [OF further.hyps(2) further.IH])
qed

section \<open>Properties\<close>

text \<open>Two versions compare by their three numbers, most significant first, whatever follows the last
  of them.\<close>

theorem vercmp_orders_versions:
  assumes "version_ok v r" "version_ok w t"
  shows "ota_gh_vercmp (dotted v r) (dotted w t) = (if v = w then 0 else if version_less v w then -1 else 1)"
proof -
  obtain a b c where v: "v = (a, b, c)" by (cases v)
  obtain x y z where w: "w = (x, y, z)" by (cases w)
  have l: "int a \<le> LONG_MAX" "int b \<le> LONG_MAX" "int c \<le> LONG_MAX" "r = [] \<or> \<not> is_digit (hd r)"
    "int x \<le> LONG_MAX" "int y \<le> LONG_MAX" "int z \<le> LONG_MAX" "t = [] \<or> \<not> is_digit (hd t)"
    using assms by (simp_all add: version_ok_def v w)
  show ?thesis
    unfolding ota_gh_vercmp_def dotted_def v w prod.case numeral_3_eq_3 vercmp_step [OF l(1,5)] vercmp_step [OF l(2,6)]
    using strtol_show_nat [OF l(3,4)] strtol_show_nat [OF l(7,8)] by auto
qed

theorem vercmp_orders_versions_witness:
  "ota_gh_vercmp (dotted (0, 10, 0) ''-rc1'') (dotted (0, 9, 12) []) = 1"
  using vercmp_orders_versions [of "(0, 10, 0)" "''-rc1''" "(0, 9, 12)" "[]"]
  by (simp add: version_ok_def LONG_MAX_def is_digit_def)

text \<open>The release list is reported whole and in order, up to the room there is, however the body is
  cut into reads: every tag without its v, at most 15 characters of it, marked newer by comparison
  with the running version.\<close>

theorem releases_listed:
  assumes "gh_init http" "gh_open_error http = None" "gh_status http = 200"
    "[] \<notin> set (gh_body http)" "concat (gh_body http) = release_stream items tail"
    "\<forall>(p, v) \<in> set items. plain p \<and> CHR 0x22 \<notin> set v" "plain tail" "items \<noteq> []" "0 < room"
  shows "ota_gh_check http desc room errlen =
    Inr (take room (map (\<lambda>(p, v). release_of (running_version desc 16) (take 15 v)) items))"
proof -
  let ?s = "scan_start room (running_version desc 16)"
  let ?o = "take room (map (\<lambda>(p, v). release_of (running_version desc 16) (take 15 v)) items)"
  have "foldl scan_byte ?s (concat (map (\<lambda>(p, v). p @ tag_needle @ v @ [CHR 0x22]) items)) =
        ?s\<lparr>sc_out := ?o, sc_val := []\<rparr>"
    using scan_items [OF assms(6), of ?s] assms(8) by (simp add: scan_start_def)
  then have "sc_out (foldl scan_byte ?s (concat (gh_body http))) = ?o"
    using scan_tail [OF assms(7), of "?s\<lparr>sc_out := ?o, sc_val := []\<rparr>"]
    unfolding assms(5) release_stream_def by (simp add: scan_start_def)
  moreover have "?o \<noteq> []" using assms(8,9) by simp
  ultimately show ?thesis
    using read_releases_chunks [OF assms(4), of ?s] assms(1-3) by (simp add: ota_gh_check_def)
qed

definition ex_http :: gh_http where
  "ex_http = \<lparr>gh_init = True, gh_open_error = None, gh_status = 200,
     gh_body = [''[{'' @ take 5 tag_needle, drop 5 tag_needle @ ''v0.4'', ''.0'' @ CHR 0x22 # ''}]'']\<rparr>"

theorem releases_listed_witness:
  "ota_gh_check ex_http (Some ''0.3.0'') 10 80 =
   Inr (take 10 (map (\<lambda>(p, v). release_of (running_version (Some ''0.3.0'') 16) (take 15 v)) [(''[{'', ''v0.4.0'')]))"
  by (rule releases_listed [where tail = "''}]''"])
    (simp_all add: ex_http_def release_stream_def tag_needle_def plain_def has_prefix_def)



end
