(* ===== verification/Web_Text.thy ===== *)
theory Web_Text
  imports Pve_Shutdown
begin

text \<open>
  The text of the JSON answers in \<^verbatim>\<open>components/provisioning/provisioning.c\<close>. The handlers print it piece by
  piece with \<^verbatim>\<open>snprintf\<close>; the two large pages go into one buffer of 16000 bytes, with the part on the
  Proxmox hosts spliced in over the closing brace of the rest.

  \<open>print_json\<close> is the text of a JSON value as these handlers write it, without escaping, and
  \<open>parse_json\<close> reads such text back. The lemmas show that a spliced page is the text of one object, cut
  off where the buffer ends, and that printed values are read back when their texts hold no quote,
  backslash or control character.
\<close>

section \<open>JSON text\<close>

definition quote :: "string \<Rightarrow> string" where
  "quote s = ''\"'' @ s @ ''\"''"

fun commas :: "string list \<Rightarrow> string" where
  "commas [] = []"
| "commas [s] = s"
| "commas (s # ss) = s @ '','' @ commas ss"

definition jflag :: "bool \<Rightarrow> json" where
  "jflag b = (if b then JTrue else JFalse)"

fun print_json :: "json \<Rightarrow> string" where
  "print_json JNull = ''null''"
| "print_json JTrue = ''true''"
| "print_json JFalse = ''false''"
| "print_json (JNum i) = show_int i"
| "print_json (JStr s) = quote s"
| "print_json (JArr vs) = ''['' @ commas (map print_json vs) @ '']''"
| "print_json (JObj ms) = ''{'' @ commas (map (\<lambda>(k, v). quote k @ '':'' @ print_json v) ms) @ ''}''"

definition print_member :: "string \<times> json \<Rightarrow> string" where
  "print_member m = quote (fst m) @ '':'' @ print_json (snd m)"

definition obj :: "(string \<times> json) list \<Rightarrow> string" where
  "obj ms = print_json (JObj ms)"

lemma print_obj: "print_json (JObj ms) = ''{'' @ commas (map print_member ms) @ ''}''"
proof -
  have "(\<lambda>(k, v). quote k @ '':'' @ print_json v) = print_member" by (auto simp: print_member_def)
  then show ?thesis by simp
qed

lemma obj_members: "obj ms = ''{'' @ commas (map print_member ms) @ ''}''"
  unfolding obj_def by (rule print_obj)

text \<open>Members as the handlers write them: a text, a flag, an unsigned and a signed number.\<close>

definition js :: "string \<Rightarrow> string \<Rightarrow> string \<times> json" where
  "js k v = (k, JStr v)"

definition jb :: "string \<Rightarrow> bool \<Rightarrow> string \<times> json" where
  "jb k b = (k, jflag b)"

definition jn :: "string \<Rightarrow> nat \<Rightarrow> string \<times> json" where
  "jn k n = (k, JNum (int n))"

definition ji :: "string \<Rightarrow> int \<Rightarrow> string \<times> json" where
  "ji k i = (k, JNum i)"

section \<open>The buffer of a large page\<close>

text \<open>Writing on at the end of the buffer: the count goes on past it, what is kept does not.\<close>

type_synonym page = "nat \<times> string"

definition PAGE_MAX :: nat where "PAGE_MAX = 16000"

definition put_text :: "string \<Rightarrow> page \<Rightarrow> page" where
  "put_text t b =
     (if fst b < PAGE_MAX then (fst b + length t, take (fst b) (snd b) @ take (PAGE_MAX - 1 - fst b) t) else b)"

fun put_items :: "bool \<Rightarrow> string list \<Rightarrow> page \<Rightarrow> page" where
  "put_items first [] b = b"
| "put_items first (t # ts) b = put_items False ts (put_text ((if first then [] else '','') @ t) b)"

text \<open>One entry per host: its fields up to the guest list, the guests, and the closing brackets.\<close>

fun put_hosts :: "bool \<Rightarrow> (string \<times> string list) list \<Rightarrow> page \<Rightarrow> page" where
  "put_hosts first [] b = b"
| "put_hosts first ((head, guests) # hs) b =
     put_hosts False hs (put_text '']}'' (put_items True guests (put_text ((if first then [] else '','') @ head) b)))"

definition spliced_page :: "string \<Rightarrow> string \<Rightarrow> (string \<times> string list) list \<Rightarrow> string" where
  "spliced_page main pve hosts =
     (let b = put_text main (0, []);
          b = (if 0 < fst b \<and> fst b < PAGE_MAX \<and> last (snd b) = CHR ''}'' then (fst b - 1, snd b) else b);
          b = put_hosts True hosts (put_text pve b)
      in snd (put_text '']}}'' b))"

text \<open>The pages: the members of the main object, those of the Proxmox part, and for every host its
  members and those of its guests.\<close>

type_synonym members = "(string \<times> json) list"

definition host_block :: "members \<times> members list \<Rightarrow> string \<times> string list" where
  "host_block h = (''{'' @ commas (map print_member (fst h)) @ '',\"guests\":['', map obj (snd h))"

definition json_page :: "members \<Rightarrow> members \<Rightarrow> (members \<times> members list) list \<Rightarrow> string" where
  "json_page ms pve hosts =
     spliced_page (obj ms) ('',\"pve\":{'' @ commas (map print_member pve) @ '',\"hosts\":['') (map host_block hosts)"

text \<open>What a page says, as one value.\<close>

definition page_json :: "members \<Rightarrow> members \<Rightarrow> (members \<times> members list) list \<Rightarrow> json" where
  "page_json ms pve hosts =
     JObj (ms @ [(''pve'', JObj (pve @ [(''hosts'',
       JArr (map (\<lambda>(h, gs). JObj (h @ [(''guests'', JArr (map JObj gs))])) hosts))]))])"

text \<open>The buffer holds the text so far, or its beginning once it is full.\<close>

definition page_of :: "page \<Rightarrow> string \<Rightarrow> bool" where
  "page_of b s \<longleftrightarrow>
     (if fst b < PAGE_MAX then fst b = length s \<and> take (fst b) (snd b) = s
      else PAGE_MAX \<le> length s \<and> snd b = take (PAGE_MAX - 1) s)"

lemma page_of_put:
  assumes "page_of b s"
  shows "page_of (put_text t b) (s @ t)"
proof (cases "fst b < PAGE_MAX")
  case True
  then show ?thesis using assms by (auto simp: page_of_def put_text_def PAGE_MAX_def)
qed (use assms in \<open>simp add: page_of_def put_text_def\<close>)

lemma page_of_snd: "page_of b s \<Longrightarrow> snd (put_text t b) = take (PAGE_MAX - 1) (s @ t)"
  by (auto simp: page_of_def put_text_def PAGE_MAX_def)

lemma commas_Cons: "commas (s # ss) = s @ concat (map ((@) '','') ss)"
  by (induction ss arbitrary: s) simp_all

lemma page_of_items:
  "page_of b s \<Longrightarrow> page_of (put_items first ts b)
     (s @ (if first then commas ts else concat (map ((@) '','') ts)))"
proof (induction ts arbitrary: first b s)
  case (Cons t ts)
  show ?case using Cons.IH [OF page_of_put [OF Cons.prems], of False "(if first then [] else '','') @ t"]
    by (cases first) (simp_all add: commas_Cons)
qed simp

definition host_text :: "string \<times> string list \<Rightarrow> string" where
  "host_text h = fst h @ commas (snd h) @ '']}''"

lemma page_of_hosts:
  "page_of b s \<Longrightarrow> page_of (put_hosts first hs b)
     (s @ (if first then commas (map host_text hs) else concat (map ((@) '','') (map host_text hs))))"
proof (induction hs arbitrary: first b s)
  case (Cons h hs)
  obtain head guests where h: "h = (head, guests)" by (cases h)
  let ?b = "put_text '']}'' (put_items True guests (put_text ((if first then [] else '','') @ head) b))"
  have "page_of ?b (s @ (if first then [] else '','') @ host_text h)"
    using page_of_put [OF page_of_items [OF page_of_put [OF Cons.prems]], of "'']}''" True guests
        "(if first then [] else '','') @ head"]
    by (simp add: h host_text_def split: if_splits)
  from Cons.IH [OF this, of False] show ?case by (cases first) (simp_all add: h commas_Cons)
qed simp

text \<open>The spliced page is what an object with one more member prints.\<close>

lemma spliced_text:
  assumes "length body + 1 < PAGE_MAX" "body \<noteq> []"
  shows "spliced_page (body @ ''}'') pve hosts =
    take (PAGE_MAX - 1) (body @ pve @ commas (map host_text hosts) @ '']}}'')"
proof -
  have b: "put_text (body @ ''}'') (0, []) = (length body + 1, body @ ''}'')"
    using assms(1) by (simp add: put_text_def PAGE_MAX_def)
  have "page_of (length body, body @ ''}'') body" using assms(1) by (simp add: page_of_def)
  from page_of_snd [OF page_of_hosts [OF page_of_put [OF this]]]
  have "snd (put_text '']}}'' (put_hosts True hosts (put_text pve (length body, body @ ''}'')))) =
      take (PAGE_MAX - 1) (((body @ pve) @ commas (map host_text hosts)) @ '']}}'')" by simp
  then show ?thesis using assms(1) by (simp add: spliced_page_def b)
qed

lemma commas_append: "ss \<noteq> [] \<Longrightarrow> commas (ss @ [t]) = commas ss @ '','' @ t"
  by (cases ss) (simp_all add: commas_Cons)

lemma print_obj_append:
  "ms \<noteq> [] \<Longrightarrow> print_json (JObj (ms @ [m])) = ''{'' @ commas (map print_member ms) @ '','' @ print_member m @ ''}''"
  by (simp add: print_obj commas_append del: print_json.simps(7))

lemma host_text_block: "fst h \<noteq> [] \<Longrightarrow>
  host_text (host_block h) = print_json ((\<lambda>(h, gs). JObj (h @ [(''guests'', JArr (map JObj gs))])) h)"
  by (cases h) (simp add: host_text_def host_block_def print_obj_append print_member_def quote_def obj_def [abs_def] comp_def
      del: print_json.simps(7))

text \<open>A page is the printed object, cut off after 15999 characters.\<close>

lemma page_text:
  assumes "length (obj ms) < PAGE_MAX" "ms \<noteq> []" "pve \<noteq> []" "list_all (\<lambda>h. fst h \<noteq> []) hosts"
  shows "json_page ms pve hosts = take (PAGE_MAX - 1) (print_json (page_json ms pve hosts))"
proof -
  let ?main = "''{'' @ commas (map print_member ms)"
  have o: "obj ms = ?main @ ''}''" by (simp add: obj_members)
  have hs: "map host_text (map host_block hosts) =
      map print_json (map (\<lambda>(h, gs). JObj (h @ [(''guests'', JArr (map JObj gs))])) hosts)"
    using assms(4) by (simp add: host_text_block list_all_iff)
  have "length ?main + 1 < PAGE_MAX" using assms(1) by (simp add: o)
  from spliced_text [OF this, of "'',\"pve\":{'' @ commas (map print_member pve) @ '',\"hosts\":[''" "map host_block hosts"]
  have "json_page ms pve hosts = take (PAGE_MAX - 1) (?main @ ('',\"pve\":{'' @ commas (map print_member pve) @
      '',\"hosts\":['') @ commas (map host_text (map host_block hosts)) @ '']}}'')"
    unfolding json_page_def o by simp
  also have "?main @ ('',\"pve\":{'' @ commas (map print_member pve) @ '',\"hosts\":['') @
      commas (map host_text (map host_block hosts)) @ '']}}'' = print_json (page_json ms pve hosts)"
    unfolding hs using assms(2,3)
    by (simp add: page_json_def print_obj_append print_member_def quote_def del: print_json.simps(7))
  finally show ?thesis .
qed

section \<open>Reading JSON\<close>

text \<open>A reader of JSON without escapes and white space: the value at the front of a text, and what
  follows it. The number bounds the nesting and the length of lists.\<close>

definition read_text :: "string \<Rightarrow> (string \<times> string) option" where
  "read_text s =
     (let t = takeWhile (\<lambda>c. c \<noteq> CHR 0x22) s; r = dropWhile (\<lambda>c. c \<noteq> CHR 0x22) s
      in if r = [] \<or> (\<exists>c \<in> set t. c = CHR 0x5C \<or> ord c < 0x20) then None else Some (t, tl r))"

definition read_number :: "string \<Rightarrow> (int \<times> string) option" where
  "read_number s =
     (let neg = (s \<noteq> [] \<and> hd s = CHR ''-''); u = (if neg then tl s else s)
      in if u = [] \<or> \<not> is_digit (hd u) then None
         else case read_digits 0 u of (v, r) \<Rightarrow> Some (if neg then - v else v, r))"

fun read_json :: "nat \<Rightarrow> string \<Rightarrow> (json \<times> string) option"
  and read_values :: "nat \<Rightarrow> string \<Rightarrow> (json list \<times> string) option"
  and read_members :: "nat \<Rightarrow> string \<Rightarrow> ((string \<times> json) list \<times> string) option" where
  "read_json 0 s = None"
| "read_json (Suc n) s =
     (if has_prefix ''null'' s then Some (JNull, drop 4 s)
      else if has_prefix ''true'' s then Some (JTrue, drop 4 s)
      else if has_prefix ''false'' s then Some (JFalse, drop 5 s)
      else if has_prefix ''\"'' s then map_option (\<lambda>(t, r). (JStr t, r)) (read_text (tl s))
      else if has_prefix ''[]'' s then Some (JArr [], drop 2 s)
      else if has_prefix ''['' s then map_option (\<lambda>(vs, r). (JArr vs, r)) (read_values n (tl s))
      else if has_prefix ''{}'' s then Some (JObj [], drop 2 s)
      else if has_prefix ''{'' s then map_option (\<lambda>(ms, r). (JObj ms, r)) (read_members n (tl s))
      else map_option (\<lambda>(i, r). (JNum i, r)) (read_number s))"
| "read_values 0 s = None"
| "read_values (Suc n) s =
     (case read_json n s of
        None \<Rightarrow> None
      | Some (v, r) \<Rightarrow>
          if has_prefix '','' r then map_option (\<lambda>(vs, r). (v # vs, r)) (read_values n (tl r))
          else if has_prefix '']'' r then Some ([v], tl r) else None)"
| "read_members 0 s = None"
| "read_members (Suc n) s =
     (if \<not> has_prefix ''\"'' s then None
      else case read_text (tl s) of
        None \<Rightarrow> None
      | Some (k, r) \<Rightarrow>
          if \<not> has_prefix '':'' r then None
          else case read_json n (tl r) of
            None \<Rightarrow> None
          | Some (v, r) \<Rightarrow>
              if has_prefix '','' r then map_option (\<lambda>(ms, r). ((k, v) # ms, r)) (read_members n (tl r))
              else if has_prefix ''}'' r then Some ([(k, v)], tl r) else None)"

definition parse_json :: "string \<Rightarrow> json option" where
  "parse_json s = (case read_json (length s) s of Some (v, []) \<Rightarrow> Some v | _ \<Rightarrow> None)"

text \<open>Texts that need no escape.\<close>

definition plain_text :: "string \<Rightarrow> bool" where
  "plain_text s \<longleftrightarrow> list_all (\<lambda>c. c \<noteq> CHR 0x22 \<and> c \<noteq> CHR 0x5C \<and> 0x20 \<le> ord c) s"

fun plain_json :: "json \<Rightarrow> bool" where
  "plain_json (JStr s) = plain_text s"
| "plain_json (JArr vs) = list_all plain_json vs"
| "plain_json (JObj ms) = list_all (\<lambda>(k, v). plain_text k \<and> plain_json v) ms"
| "plain_json _ = True"

text \<open>How many steps the reader needs.\<close>

fun json_steps :: "json \<Rightarrow> nat" where
  "json_steps (JArr vs) = Suc (sum_list (map (\<lambda>v. Suc (json_steps v)) vs))"
| "json_steps (JObj ms) = Suc (sum_list (map (\<lambda>(k, v). Suc (json_steps v)) ms))"
| "json_steps _ = 1"

section \<open>Printed values are read back\<close>

definition ends :: "string \<Rightarrow> bool" where
  "ends r \<longleftrightarrow> r = [] \<or> \<not> is_digit (hd r)"

lemma has_prefix_Cons [simp]: "has_prefix (a # p) (c # s) \<longleftrightarrow> a = c \<and> has_prefix p s" "has_prefix [] s"
  by (auto simp: has_prefix_def)

lemma ends_sep [simp]: "ends (CHR '','' # r)" "ends (CHR '']'' # r)" "ends (CHR ''}'' # r)"
  by (simp_all add: ends_def is_digit_def)

lemma read_text_plain: "plain_text t \<Longrightarrow> read_text (t @ CHR 0x22 # r) = Some (t, r)"
proof -
  assume t: "plain_text t"
  then have "takeWhile (\<lambda>c. c \<noteq> CHR 0x22) (t @ CHR 0x22 # r) = t"
    "dropWhile (\<lambda>c. c \<noteq> CHR 0x22) (t @ CHR 0x22 # r) = CHR 0x22 # r"
    by (simp_all add: plain_text_def list_all_iff)
  moreover have "\<not> (\<exists>c \<in> set t. c = CHR 0x5C \<or> ord c < 0x20)" using t by (force simp: plain_text_def list_all_iff)
  ultimately show ?thesis unfolding read_text_def Let_def by simp
qed

lemma show_int_first: "\<exists>c s. show_int i = c # s \<and> (c = CHR ''-'' \<or> is_digit c)"
proof (cases "i < 0")
  case False
  obtain c s where "show_nat (nat i) = c # s" by (cases "show_nat (nat i)") auto
  then show ?thesis using False show_nat_digits [of c "nat i"] by (simp add: show_int_def)
qed (simp add: show_int_def)

lemma read_number_show: "ends r \<Longrightarrow> read_number (show_int i @ r) = Some (i, r)"
proof (cases "i < 0")
  case True
  assume "ends r"
  moreover obtain c s where "show_nat (nat (- i)) = c # s" by (cases "show_nat (nat (- i))") auto
  ultimately show ?thesis
    using True show_nat_digits [of c "nat (- i)"] read_digits_show_stop [of r "nat (- i)"]
    by (simp add: read_number_def show_int_def ends_def Let_def del: read_digits.simps)
next
  case False
  assume "ends r"
  moreover obtain c s where "show_nat (nat i) = c # s" by (cases "show_nat (nat i)") auto
  moreover have "\<not> is_digit (CHR ''-'')" by (simp add: is_digit_def)
  ultimately show ?thesis
    using False show_nat_digits [of c "nat i"] read_digits_show_stop [of r "nat i"]
    by (auto simp: read_number_def show_int_def ends_def Let_def simp del: read_digits.simps)
qed

lemma read_values_back:
  assumes "\<And>v n r. v \<in> set vs \<Longrightarrow> json_steps v \<le> n \<Longrightarrow> ends r \<Longrightarrow> read_json n (print_json v @ r) = Some (v, r)"
    and "vs \<noteq> []" "sum_list (map (\<lambda>v. Suc (json_steps v)) vs) \<le> n"
  shows "read_values n (commas (map print_json vs) @ CHR '']'' # r) = Some (vs, r)"
  using assms
proof (induction vs arbitrary: n)
  case (Cons v vs)
  obtain m where n: "n = Suc m" using Cons.prems(3) by (cases n) auto
  have v: "read_json m (print_json v @ x) = Some (v, x)" if "ends x" for x
    using Cons.prems(1,3) that by (simp add: n)
  show ?case
  proof (cases vs)
    case Nil
    then show ?thesis using v [of "CHR '']'' # r"] by (simp add: n)
  next
    case (Cons w ws)
    have "read_values m (commas (map print_json vs) @ CHR '']'' # r) = Some (vs, r)"
      using Cons.IH Cons.prems by (simp add: n Cons)
    then show ?thesis using v [of "CHR '','' # commas (map print_json vs) @ CHR '']'' # r"] by (simp add: n Cons)
  qed
qed simp

lemma read_members_back:
  assumes "\<And>m n r. m \<in> set ms \<Longrightarrow> json_steps (snd m) \<le> n \<Longrightarrow> ends r \<Longrightarrow>
      read_json n (print_json (snd m) @ r) = Some (snd m, r)"
    and "\<And>m. m \<in> set ms \<Longrightarrow> plain_text (fst m)"
    and "ms \<noteq> []" "sum_list (map (\<lambda>m. Suc (json_steps (snd m))) ms) \<le> n"
  shows "read_members n (commas (map print_member ms) @ CHR ''}'' # r) = Some (ms, r)"
  using assms
proof (induction ms arbitrary: n)
  case (Cons m ms)
  obtain k where n: "n = Suc k" using Cons.prems(4) by (cases n) auto
  have v: "read_json k (print_json (snd m) @ x) = Some (snd m, x)" if "ends x" for x
    using Cons.prems(1,4) that by (simp add: n)
  have t: "read_text (fst m @ CHR 0x22 # x) = Some (fst m, x)" for x
    using Cons.prems(2) by (simp add: read_text_plain)
  show ?case
  proof (cases ms)
    case Nil
    then show ?thesis using v [of "CHR ''}'' # r"] t by (simp add: n print_member_def quote_def)
  next
    case (Cons w ws)
    define x where "x = commas (map print_member ms) @ CHR ''}'' # r"
    have m: "commas (map print_member (m # ms)) @ CHR ''}'' # r =
        CHR 0x22 # fst m @ CHR 0x22 # CHR '':'' # print_json (snd m) @ CHR '','' # x"
      by (simp add: Cons x_def print_member_def [of m] quote_def)
    have "read_members k x = Some (ms, r)" unfolding x_def using Cons.IH Cons.prems by (simp add: n Cons)
    then show ?thesis unfolding m using v [of "CHR '','' # x"] t by (simp add: n)
  qed
qed simp

lemma print_first: "\<exists>c t. print_json v = c # t \<and> c \<noteq> CHR '']''"
proof (cases v)
  case (JNum i)
  then show ?thesis using show_int_first [of i] by (auto simp: is_digit_def)
qed (simp_all add: quote_def)

lemma read_back: "plain_json v \<Longrightarrow> json_steps v \<le> n \<Longrightarrow> ends r \<Longrightarrow> read_json n (print_json v @ r) = Some (v, r)"
proof (induction v arbitrary: n r)
  case (JNum i)
  obtain c t where c: "show_int i = c # t" "c = CHR ''-'' \<or> is_digit c" using show_int_first by blast
  then have ne: "c \<noteq> CHR ''n''" "c \<noteq> CHR ''t''" "c \<noteq> CHR ''f''" "c \<noteq> CHR 0x22" "c \<noteq> CHR ''[''" "c \<noteq> CHR ''{''"
    by (auto simp: is_digit_def)
  show ?case using JNum.prems read_number_show [of r i] ne by (cases n) (simp_all add: c)
next
  case (JStr s)
  then show ?case by (cases n) (simp_all add: quote_def read_text_plain)
next
  case (JArr vs)
  obtain m where n: "n = Suc m" using JArr.prems(2) by (cases n) auto
  show ?case
  proof (cases vs)
    case Nil
    then show ?thesis by (simp add: n)
  next
    case (Cons w ws)
    obtain c t where c: "print_json w = c # t" "c \<noteq> CHR '']''" using print_first by blast
    define x where "x = commas (map print_json vs) @ CHR '']'' # r"
    have x: "\<exists>y. x = c # y" by (simp add: x_def Cons commas_Cons c)
    have "read_values m x = Some (vs, r)"
      unfolding x_def
    proof (rule read_values_back)
      show "read_json k (print_json v @ y) = Some (v, y)" if "v \<in> set vs" "json_steps v \<le> k" "ends y" for v k y
        using JArr.IH [of v k y] JArr.prems(1) that by (auto simp: list_all_iff)
    qed (use JArr.prems in \<open>simp_all add: n Cons\<close>)
    moreover have "print_json (JArr vs) @ r = CHR ''['' # x" by (simp add: x_def)
    ultimately show ?thesis using c(2) x by (auto simp: n)
  qed
next
  case (JObj ms)
  obtain m where n: "n = Suc m" using JObj.prems(2) by (cases n) auto
  show ?case
  proof (cases ms)
    case Nil
    then show ?thesis by (simp add: n)
  next
    case (Cons w ws)
    define x where "x = commas (map print_member ms) @ CHR ''}'' # r"
    have x: "\<exists>y. x = CHR 0x22 # y" by (simp add: x_def Cons commas_Cons print_member_def quote_def)
    have "read_members m x = Some (ms, r)"
      unfolding x_def
    proof (rule read_members_back)
      show "read_json k (print_json (snd e) @ y) = Some (snd e, y)"
        if "e \<in> set ms" "json_steps (snd e) \<le> k" "ends y" for e k y
        using JObj.IH [of e "snd e" k y] JObj.prems(1) that by (cases e) (auto simp: list_all_iff)
    qed (use JObj.prems in \<open>auto simp: n Cons list_all_iff case_prod_beta'\<close>)
    moreover have "print_json (JObj ms) @ r = CHR ''{'' # x" by (simp add: x_def print_obj del: print_json.simps(7))
    ultimately show ?thesis using x by (auto simp: n)
  qed
qed (auto simp: gr0_conv_Suc Suc_le_eq)

lemma commas_length: "sum_list (map (\<lambda>s. Suc (length s)) ss) \<le> Suc (length (commas ss))"
  by (induction ss rule: commas.induct) simp_all

lemma steps_length: "json_steps v \<le> length (print_json v)"
proof (induction v)
  case (JNum i)
  then show ?case using show_int_first [of i] by auto
next
  case (JArr vs)
  have "sum_list (map (\<lambda>v. Suc (json_steps v)) vs) \<le> sum_list (map (\<lambda>v. Suc (length (print_json v))) vs)"
    using JArr by (intro sum_list_mono) simp
  also have "\<dots> \<le> Suc (length (commas (map print_json vs)))"
    using commas_length [of "map print_json vs"] by (simp add: comp_def)
  finally show ?case by simp
next
  case (JObj ms)
  have "json_steps (snd m) \<le> length (print_json (snd m))" if "m \<in> set ms" for m
    using JObj [of m "snd m"] that by (cases m) simp
  then have "sum_list (map (\<lambda>m. Suc (json_steps (snd m))) ms) \<le> sum_list (map (\<lambda>m. Suc (length (print_member m))) ms)"
    by (intro sum_list_mono) (fastforce simp: print_member_def quote_def intro: le_trans)
  also have "\<dots> \<le> Suc (length (commas (map print_member ms)))"
    using commas_length [of "map print_member ms"] by (simp add: comp_def)
  finally show ?case by (simp add: print_obj case_prod_beta' del: print_json.simps(7))
qed (simp_all add: quote_def)

lemma parse_printed: "plain_json v \<Longrightarrow> parse_json (print_json v) = Some v"
  using read_back [of v "length (print_json v)" "[]"] steps_length [of v] by (simp add: parse_json_def ends_def)

lemma page_read_back:
  assumes "ms \<noteq> []" "pve \<noteq> []" "list_all (\<lambda>h. fst h \<noteq> []) hosts"
    and "plain_json (page_json ms pve hosts)" "length (print_json (page_json ms pve hosts)) < PAGE_MAX"
  shows "parse_json (json_page ms pve hosts) = Some (page_json ms pve hosts)"
proof -
  have "length (obj ms) \<le> length (print_json (page_json ms pve hosts))"
    using assms(1) by (simp add: obj_members page_json_def print_obj_append del: print_json.simps(7))
  then have "json_page ms pve hosts = take (PAGE_MAX - 1) (print_json (page_json ms pve hosts))"
    using assms by (intro page_text) auto
  then show ?thesis using assms(5) parse_printed [OF assms(4)] by simp
qed

end
