(* ===== verification/Web_Forms.thy ===== *)
theory Web_Forms
  imports Bridge_Prelude
begin

text \<open>
  Reading what a browser posts, the helpers at the top of \<^verbatim>\<open>components/provisioning/provisioning.c\<close>:
  receiving a body, URL decoding, picking a field out of a form, and the checks of addresses. A body
  is the C string the handlers see, so it ends at the first NUL byte.

  The lemmas show that a field is read back as it was encoded, and that the address check accepts
  exactly the dotted quads.
\<close>

definition c_str :: "string \<Rightarrow> string" where
  "c_str s = takeWhile (\<lambda>c. c \<noteq> CHR 0x00) s"

section \<open>Receiving the body\<close>

text \<open>A request: the declared length, what each receive call delivers (the empty string stands for a
  failing one), the query string and the two headers the handlers read.\<close>

record request =
  rq_len :: int
  rq_recv :: "string list"
  rq_query :: string
  rq_cookie :: "string option"
  rq_confirm :: string

fun recv_loop :: "nat \<Rightarrow> string \<Rightarrow> string list \<Rightarrow> string option" where
  "recv_loop len got chunks =
     (if length got \<ge> len then Some got
      else case chunks of
        [] \<Rightarrow> None
      | k # chunks \<Rightarrow> if k = [] then None else recv_loop len (got @ take (len - length got) k) chunks)"

declare recv_loop.simps [simp del]

datatype body = Bad_body | No_body | Body string

text \<open>The prologue of every handler that takes a form of at most \<open>limit\<close> bytes.\<close>

definition recv_body :: "int \<Rightarrow> request \<Rightarrow> body" where
  "recv_body limit r =
     (if rq_len r \<le> 0 \<or> rq_len r > limit then Bad_body
      else case recv_loop (nat (rq_len r)) [] (rq_recv r) of None \<Rightarrow> No_body | Some b \<Rightarrow> Body (c_str b))"

section \<open>Decoding\<close>

definition hexval :: "char \<Rightarrow> int" where
  "hexval c =
     (if is_digit c then int (ord c) - 48
      else if ord (tolower c) \<ge> 97 \<and> ord (tolower c) \<le> 102 then int (ord (tolower c)) - 97 + 10
      else -1)"

definition hex_escape :: "string \<Rightarrow> bool" where
  "hex_escape s \<longleftrightarrow> length s \<ge> 2 \<and> hexval (s ! 0) \<ge> 0 \<and> hexval (s ! 1) \<ge> 0"

function url_bytes :: "nat \<Rightarrow> string \<Rightarrow> string" where
  "url_bytes room [] = []"
| "url_bytes room (c # s) =
     (if \<not> 1 < room then []
      else if c = CHR ''+'' then CHR '' '' # url_bytes (room - 1) s
      else if c = CHR ''%'' \<and> hex_escape s
        then char_of (nat (hexval (s ! 0) * 16 + hexval (s ! 1))) # url_bytes (room - 1) (drop 2 s)
      else c # url_bytes (room - 1) s)"
  by pat_completeness auto
termination
  by (relation "measure (\<lambda>(room, s). length s)") auto

text \<open>What a reader of the destination sees: an encoded NUL ends it.\<close>

definition url_decode :: "nat \<Rightarrow> string \<Rightarrow> string" where
  "url_decode dstsz src = c_str (url_bytes dstsz src)"

section \<open>Form fields\<close>

function form_find :: "string \<Rightarrow> string \<Rightarrow> string option" where
  "form_find key p =
     (if p = [] then None
      else
        let field = takeWhile (\<lambda>c. c \<noteq> CHR ''&'') p;
            after = dropWhile (\<lambda>c. c \<noteq> CHR ''&'') p
        in if CHR ''='' \<in> set field \<and> takeWhile (\<lambda>c. c \<noteq> CHR ''='') field = key
           then Some (drop (length key + 1) field)
           else if after = [] then None else form_find key (tl after))"
  by pat_completeness auto
termination
proof (relation "measure (\<lambda>(key, p). length p)", goal_cases)
  case (2 key p field after)
  then have "length (tl after) < length after" by (cases after) auto
  also have "length after \<le> length p" using 2 by (simp add: length_dropWhile_le)
  finally show ?case by simp
qed simp

declare form_find.simps [simp del]

definition form_get :: "string \<Rightarrow> string \<Rightarrow> nat \<Rightarrow> bool \<times> string" where
  "form_get body key outsz =
     (case form_find key body of
        Some v \<Rightarrow> (True, url_decode outsz (take 255 v))
      | None \<Rightarrow> (False, []))"

text \<open>The three ways handlers use it: a field if present and not blank, a checkbox, a number in range.\<close>

definition form_value :: "string \<Rightarrow> string \<Rightarrow> nat \<Rightarrow> string" where
  "form_value body key outsz = snd (form_get body key outsz)"

definition form_given :: "string \<Rightarrow> string \<Rightarrow> nat \<Rightarrow> bool" where
  "form_given body key outsz \<longleftrightarrow> fst (form_get body key outsz) \<and> form_value body key outsz \<noteq> []"

definition form_set :: "string \<Rightarrow> string \<Rightarrow> nat \<Rightarrow> bool" where
  "form_set body key outsz \<longleftrightarrow> fst (form_get body key outsz) \<and>
     (form_value body key outsz \<noteq> [] \<and> hd (form_value body key outsz) = CHR ''1'')"

section \<open>Address checks\<close>

text \<open>The digits of one part; \<open>None\<close> when there are more than three or the value passes 255.\<close>

fun octet :: "int \<Rightarrow> nat \<Rightarrow> string \<Rightarrow> string option" where
  "octet val digits [] = Some []"
| "octet val digits (c # s) =
     (if is_digit c then
        (if digits + 1 > 3 \<or> val * 10 + digit_val c > 255 then None
         else octet (val * 10 + digit_val c) (digits + 1) s)
      else Some (c # s))"

text \<open>\<open>left\<close> is how many parts may still follow, of four.\<close>

fun ipv4_parts :: "nat \<Rightarrow> string \<Rightarrow> bool" where
  "ipv4_parts 0 s \<longleftrightarrow> False"
| "ipv4_parts (Suc left) s \<longleftrightarrow>
     (if s = [] \<or> \<not> is_digit (hd s) then False
      else case octet 0 0 s of
        None \<Rightarrow> False
      | Some [] \<Rightarrow> left = 0
      | Some (c # t) \<Rightarrow> c = CHR ''.'' \<and> left \<noteq> 0 \<and> ipv4_parts left t)"

definition valid_ipv4 :: "string \<Rightarrow> bool" where
  "valid_ipv4 s \<longleftrightarrow> s \<noteq> [] \<and> ipv4_parts 4 s"

definition isxdigit :: "char \<Rightarrow> bool" where
  "isxdigit c \<longleftrightarrow> hexval c \<ge> 0"

definition is_mac_addr :: "string \<Rightarrow> bool" where
  "is_mac_addr s \<longleftrightarrow> length s = 17 \<and>
     list_all (\<lambda>i. if i mod 3 = 2 then s ! i = CHR '':'' else isxdigit (s ! i)) [0..<17]"

section \<open>A form as a browser encodes it\<close>

definition plain_char :: "char \<Rightarrow> bool" where
  "plain_char c \<longleftrightarrow> is_digit c \<or> (65 \<le> ord c \<and> ord c \<le> 90) \<or> (97 \<le> ord c \<and> ord c \<le> 122) \<or>
     c \<in> {CHR ''-'', CHR ''_'', CHR ''.'', CHR ''*''}"

definition url_encode_char :: "char \<Rightarrow> string" where
  "url_encode_char c =
     (if plain_char c then [c] else if c = CHR '' '' then ''+''
      else [CHR ''%'', hex_digit (ord c div 16), hex_digit (ord c mod 16)])"

definition url_encode :: "string \<Rightarrow> string" where
  "url_encode s = concat (map url_encode_char s)"

fun form_encode :: "(string \<times> string) list \<Rightarrow> string" where
  "form_encode [] = []"
| "form_encode [(k, v)] = k @ ''='' @ url_encode v"
| "form_encode ((k, v) # kvs) = k @ ''='' @ url_encode v @ ''&'' @ form_encode kvs"


section \<open>Decoding inverts encoding\<close>

lemma hexval_hex_digit: "n < 16 \<Longrightarrow> hexval (hex_digit n) = int n"
proof -
  assume "n < 16"
  then have "n \<in> set [0..<16]" by simp
  then show ?thesis by (simp add: upt_rec hexval_def hex_digit_def is_digit_def tolower_def) (elim disjE; simp)
qed

lemma plain_char_no_meta: "plain_char c \<Longrightarrow> c \<notin> {CHR ''+'', CHR ''%'', CHR ''&'', CHR ''=''}"
  by (auto simp: plain_char_def is_digit_def)

lemma hex_digit_no_meta: "n < 16 \<Longrightarrow> hex_digit n \<notin> {CHR ''&'', CHR ''=''}"
proof -
  assume "n < 16"
  then have "0 \<le> hexval (hex_digit n)" by (simp add: hexval_hex_digit)
  moreover have "hexval (CHR ''&'') < 0" "hexval (CHR ''='') < 0" by (simp_all add: hexval_def is_digit_def tolower_def)
  ultimately show ?thesis by auto
qed

lemma encode_char_no_meta: "x \<in> set (url_encode_char c) \<Longrightarrow> x \<notin> {CHR ''&'', CHR ''=''}"
proof -
  assume x: "x \<in> set (url_encode_char c)"
  have "ord c < (256 :: nat)" by (rule ord_less_256)
  then have "ord c div 16 < 16" "ord c mod 16 < 16" by presburger+
  then show ?thesis using x plain_char_no_meta [of c] hex_digit_no_meta
    by (auto simp: url_encode_char_def split: if_splits)
qed

lemma encode_no_meta: "x \<in> set (url_encode v) \<Longrightarrow> x \<noteq> CHR ''&'' \<and> x \<noteq> CHR ''=''"
  using encode_char_no_meta by (fastforce simp: url_encode_def)

lemma decode_char:
  assumes "1 < room"
  shows "url_bytes room (url_encode_char c @ s) = c # url_bytes (room - 1) s"
proof -
  have b: "ord c < (256 :: nat)" by (rule ord_less_256)
  then have d: "ord c div 16 < 16" "ord c mod 16 < 16" by presburger+
  consider "plain_char c" | "\<not> plain_char c" "c = CHR '' ''" | "\<not> plain_char c" "c \<noteq> CHR '' ''" by blast
  then show ?thesis
  proof cases
    case 1
    then show ?thesis using assms plain_char_no_meta [OF 1] by (simp add: url_encode_char_def)
  next
    case 2
    then show ?thesis using assms by (simp add: url_encode_char_def)
  next
    case 3
    have "int (n div 16) * 16 + int (n mod 16) = int n" for n by presburger
    then have "nat (int (ord c div 16) * 16 + int (ord c mod 16)) = ord c" by (metis nat_int)
    then show ?thesis using assms 3 hexval_hex_digit [OF d(1)] hexval_hex_digit [OF d(2)]
      by (simp add: url_encode_char_def hex_escape_def)
  qed
qed

lemma decode_encode: "0 < room \<Longrightarrow> url_bytes room (url_encode v) = take (room - 1) v"
proof (induction v arbitrary: room)
  case (Cons c v)
  show ?case
  proof (cases "1 < room")
    case True
    then show ?thesis using decode_char [OF True] Cons.IH [of "room - 1"]
      by (simp add: url_encode_def take_Cons')
  next
    case False
    then have "room = 1" using Cons.prems by simp
    then show ?thesis by (cases "url_encode (c # v)") simp_all
  qed
qed (simp add: url_encode_def)

definition key_ok :: "string \<Rightarrow> bool" where
  "key_ok k \<longleftrightarrow> CHR ''&'' \<notin> set k \<and> CHR ''='' \<notin> set k"

lemma form_find_field:
  assumes "key_ok k" "\<forall>x \<in> set v. x \<noteq> CHR ''&''"
  shows "form_find key (k @ ''='' @ v) = (if k = key then Some v else None)"
    "form_find key (k @ ''='' @ v @ ''&'' @ t) = (if k = key then Some v else form_find key t)"
proof -
  let ?f = "k @ CHR ''='' # v"
  have p: "\<And>x. x \<in> set ?f \<Longrightarrow> x \<noteq> CHR ''&''" using assms by (auto simp: key_ok_def)
  have a: "takeWhile (\<lambda>c. c \<noteq> CHR ''&'') ?f = ?f" "dropWhile (\<lambda>c. c \<noteq> CHR ''&'') ?f = []"
    using p unfolding takeWhile_eq_all_conv dropWhile_eq_Nil_conv by blast+
  have b: "takeWhile (\<lambda>c. c \<noteq> CHR ''&'') (?f @ CHR ''&'' # t) = ?f"
    "dropWhile (\<lambda>c. c \<noteq> CHR ''&'') (?f @ CHR ''&'' # t) = CHR ''&'' # t"
    using takeWhile_append2 [of ?f "\<lambda>c. c \<noteq> CHR ''&''" "CHR ''&'' # t", OF p]
      dropWhile_append2 [of ?f "\<lambda>c. c \<noteq> CHR ''&''" "CHR ''&'' # t", OF p] by simp_all
  have q: "\<And>x. x \<in> set k \<Longrightarrow> x \<noteq> CHR ''=''" using assms(1) by (auto simp: key_ok_def)
  have e: "takeWhile (\<lambda>c. c \<noteq> CHR ''='') ?f = k"
    using takeWhile_append2 [of k "\<lambda>c. c \<noteq> CHR ''=''" "CHR ''='' # v", OF q] by simp
  have "form_find key ?f = (if k = key then Some v else None)"
    unfolding form_find.simps [of key ?f] a e Let_def by auto
  then show "form_find key (k @ ''='' @ v) = (if k = key then Some v else None)" by simp
  have "form_find key (?f @ CHR ''&'' # t) = (if k = key then Some v else form_find key t)"
    unfolding form_find.simps [of key "?f @ CHR ''&'' # t"] b e Let_def by auto
  then show "form_find key (k @ ''='' @ v @ ''&'' @ t) = (if k = key then Some v else form_find key t)" by simp
qed

lemma form_find_encode:
  "\<forall>(k, v) \<in> set kvs. key_ok k \<Longrightarrow> form_find key (form_encode kvs) = map_option url_encode (map_of kvs key)"
proof (induction kvs rule: form_encode.induct)
  case 1
  then show ?case by (simp add: form_find.simps)
next
  case (2 k v)
  then show ?case using form_find_field(1) [of k "url_encode v" key] encode_no_meta by auto
next
  case (3 k v kv kvs)
  then show ?case using form_find_field(2) [of k "url_encode v" key "form_encode (kv # kvs)"] encode_no_meta by auto
qed

section \<open>The strict address check\<close>

definition octet_text :: "string \<Rightarrow> bool" where
  "octet_text t \<longleftrightarrow> 1 \<le> length t \<and> length t \<le> 3 \<and> (\<forall>c \<in> set t. is_digit c) \<and> fst (read_digits 0 t) \<le> 255"

lemma read_digits_mono: "0 \<le> acc \<Longrightarrow> acc \<le> fst (read_digits acc t)"
proof (induction acc t rule: read_digits.induct)
  case (2 acc c cs)
  show ?case
  proof (cases "is_digit c")
    case True
    then have "0 \<le> acc * 10 + digit_val c" "acc \<le> acc * 10 + digit_val c" using 2 digit_val_nonneg [OF True] by simp_all
    then show ?thesis using 2 True by simp
  qed simp
qed simp

lemma octet_spec:
  assumes "0 \<le> val" "val \<le> 255" "digits \<le> 3"
  shows "octet val digits s = Some r \<longleftrightarrow>
    (\<exists>t. s = t @ r \<and> (\<forall>c \<in> set t. is_digit c) \<and> digits + length t \<le> 3 \<and> fst (read_digits val t) \<le> 255 \<and>
         (r = [] \<or> \<not> is_digit (hd r)))"
  using assms
proof (induction val digits s rule: octet.induct)
  case (1 val digits)
  then show ?case by auto
next
  case (2 val digits c s)
  let ?v = "val * 10 + digit_val c"
  show ?case
  proof (cases "is_digit c")
    case False
    then show ?thesis using 2 by (auto simp: Cons_eq_append_conv)
  next
    case True
    show ?thesis
    proof (cases "digits + 1 > 3 \<or> ?v > 255")
      case bad: True
      have "\<not> (\<exists>t. c # s = t @ r \<and> (\<forall>c \<in> set t. is_digit c) \<and> digits + length t \<le> 3 \<and> fst (read_digits val t) \<le> 255 \<and>
         (r = [] \<or> \<not> is_digit (hd r)))"
      proof
        assume "\<exists>t. c # s = t @ r \<and> (\<forall>c \<in> set t. is_digit c) \<and> digits + length t \<le> 3 \<and> fst (read_digits val t) \<le> 255 \<and>
         (r = [] \<or> \<not> is_digit (hd r))"
        then obtain t where t: "c # s = t @ r" "digits + length t \<le> 3" "fst (read_digits val t) \<le> 255" "r = [] \<or> \<not> is_digit (hd r)"
          by blast
        then obtain t' where t': "t = c # t'" using True by (cases t) auto
        then have "?v \<le> fst (read_digits val t)"
          using True 2(2) digit_val_nonneg [OF True] read_digits_mono [of ?v t'] by simp
        then show False using t t' bad by auto
      qed
      then show ?thesis using True bad by simp
    next
      case ok: False
      then have "octet val digits (c # s) = octet ?v (digits + 1) s" using True by simp
      moreover have "0 \<le> ?v" using 2(2) digit_val_nonneg [OF True] by simp
      ultimately show ?thesis using 2(1) [OF True] ok True 2(4)
        by (auto simp: Cons_eq_append_conv)
    qed
  qed
qed


lemma octet_front:
  assumes "s \<noteq> []" "is_digit (hd s)"
  shows "octet 0 0 s = Some r \<longleftrightarrow> (\<exists>t. octet_text t \<and> s = t @ r \<and> (r = [] \<or> \<not> is_digit (hd r)))"
proof -
  have "t \<noteq> []" if "s = t @ r" "r = [] \<or> \<not> is_digit (hd r)" for t
    using that assms by auto
  then show ?thesis using octet_spec [of 0 0 s r]
    by (auto simp: octet_text_def Suc_le_eq)
qed

lemma octet_text_hd: "octet_text t \<Longrightarrow> t \<noteq> [] \<and> is_digit (hd t)"
  by (cases t) (auto simp: octet_text_def)

lemma digits_front:
  assumes "octet_text t" "r = [] \<or> \<not> is_digit (hd r)"
  shows "takeWhile is_digit (t @ r) = t"
proof -
  have "\<And>c. c \<in> set t \<Longrightarrow> is_digit c" using assms(1) by (simp add: octet_text_def)
  then have "takeWhile is_digit (t @ r) = t @ takeWhile is_digit r" by (simp add: takeWhile_append2)
  then show ?thesis using assms(2) by (cases r) auto
qed

lemma ipv4_parts_spec:
  "ipv4_parts (Suc n) s \<longleftrightarrow>
     (if n = 0 then octet_text s else \<exists>t r. octet_text t \<and> s = t @ ''.'' @ r \<and> ipv4_parts n r)"
proof (cases "s \<noteq> [] \<and> is_digit (hd s)")
  case False
  then have "\<not> octet_text s" using octet_text_hd by blast
  moreover have "\<not> (octet_text t \<and> s = t @ ''.'' @ r)" for t r
    using False octet_text_hd [of t] by (cases t) auto
  ultimately show ?thesis using False by auto
next
  case True
  then have o: "octet 0 0 s = Some r \<longleftrightarrow> (\<exists>t. octet_text t \<and> s = t @ r \<and> (r = [] \<or> \<not> is_digit (hd r)))" for r
    by (intro octet_front) simp_all
  have dot: "\<not> is_digit (CHR ''.'')" by (simp add: is_digit_def)
  have all_digits: "t = u \<and> r = CHR ''.'' # v"
    if "t @ r = u @ CHR ''.'' # v" "octet_text t" "octet_text u" "r = [] \<or> \<not> is_digit (hd r)" for t r u v
    using digits_front [OF that(2,4)] digits_front [OF that(3), of "CHR ''.'' # v"] dot that(1) by simp
  show ?thesis
  proof (cases "octet 0 0 s")
    case None
    then have n: "\<not> (octet_text t \<and> s = t @ r \<and> (r = [] \<or> \<not> is_digit (hd r)))" for t r using o by auto
    have "\<not> octet_text s" using n [of s "[]"] by simp
    moreover have "\<not> (octet_text t \<and> s = t @ ''.'' @ r)" for t r using n [of t "''.'' @ r"] dot by simp
    ultimately show ?thesis using None by simp
  next
    case (Some r)
    then obtain t where t: "octet_text t" "s = t @ r" "r = [] \<or> \<not> is_digit (hd r)" using o by blast
    show ?thesis
    proof (cases r)
      case Nil
      have "\<not> (octet_text u \<and> s = u @ ''.'' @ v)" for u v using all_digits [of t r u v] t Nil by auto
      then show ?thesis using Some True Nil t by simp
    next
      case (Cons c v)
      then have "\<not> octet_text s" using t by (auto simp: octet_text_def)
      moreover have "w = v \<and> c = CHR ''.''" if "octet_text u" "s = u @ ''.'' @ w" for u w
      proof -
        have "t @ r = u @ CHR ''.'' # w" using that(2) t(2) by simp
        then show ?thesis using all_digits [OF _ t(1) that(1) t(3)] Cons by simp
      qed
      moreover have "ipv4_parts (Suc n) s \<longleftrightarrow> c = CHR ''.'' \<and> n \<noteq> 0 \<and> ipv4_parts n v"
        using Some True Cons by simp
      moreover have "c = CHR ''.'' \<Longrightarrow> s = t @ ''.'' @ v" using t(2) Cons by simp
      ultimately show ?thesis using t(1) by metis
    qed
  qed
qed

section \<open>Properties\<close>


definition ex_form :: "(string \<times> string) list" where
  "ex_form = [(''ssid'', ''my net&co''), (''pass'', ''a=b+c'')]"


text \<open>The strict address check accepts exactly four parts of one to three digits, none above 255,
  with single dots between them.\<close>

theorem valid_ipv4_iff_dotted_quad:
  "valid_ipv4 s \<longleftrightarrow> (\<exists>a b c d. octet_text a \<and> octet_text b \<and> octet_text c \<and> octet_text d \<and>
     s = a @ ''.'' @ b @ ''.'' @ c @ ''.'' @ d)"
proof -
  have "ipv4_parts 4 s \<longleftrightarrow> (\<exists>a b c d. octet_text a \<and> octet_text b \<and> octet_text c \<and> octet_text d \<and>
     s = a @ ''.'' @ b @ ''.'' @ c @ ''.'' @ d)"
    using ipv4_parts_spec [of 3] ipv4_parts_spec [of 2] ipv4_parts_spec [of 1] ipv4_parts_spec [of 0]
    by (simp add: eval_nat_numeral) blast
  then show ?thesis using octet_text_hd by (auto simp: valid_ipv4_def)
qed

end
