(* ===== verification/Web_Auth.thy ===== *)
theory Web_Auth
  imports Web_Forms App_Config
begin

text \<open>
  The sign-in of the admin page in \<^verbatim>\<open>components/provisioning/provisioning.c\<close>: the table of sessions, the
  cookie, and the handlers of login and logout. A slot is free when its token is empty. Times are the
  microseconds of \<^verbatim>\<open>esp_timer_get_time\<close>; the random bytes of a token and SHA-256 are arguments.

  The lemmas relate the table to what browsers did: a request is let in only with a token that a
  successful sign-in handed out, that has not been signed out since and was last used within eight
  hours.
\<close>

section \<open>Sessions\<close>

definition SESSION_SLOTS :: nat where "SESSION_SLOTS = 4"
definition SESSION_TOKLEN :: nat where "SESSION_TOKLEN = 32"
definition SESSION_IDLE_US :: int where "SESSION_IDLE_US = 8 * 3600 * 1000000"

record session =
  s_tok :: string
  s_last_us :: int

definition no_session :: session where
  "no_session = \<lparr>s_tok = [], s_last_us = 0\<rparr>"

definition sessions0 :: "session list" where
  "sessions0 = replicate SESSION_SLOTS no_session"

text \<open>\<^verbatim>\<open>%02x\<close>.\<close>

definition hex2_lower :: "byte \<Rightarrow> string" where
  "hex2_lower v = map tolower (hex2 v)"

definition char_byte :: "char \<Rightarrow> byte" where
  "char_byte c = word_of_nat (ord c)"

fun tok_loop :: "nat \<Rightarrow> byte \<Rightarrow> string \<Rightarrow> string \<Rightarrow> bool" where
  "tok_loop 0 diff a b \<longleftrightarrow> diff = 0"
| "tok_loop (Suc n) diff (x # a) (y # b) \<longleftrightarrow> tok_loop n (or diff (xor (char_byte x) (char_byte y))) a b"
| "tok_loop (Suc n) diff _ _ \<longleftrightarrow> False"

definition tok_eq :: "string \<Rightarrow> string \<Rightarrow> bool" where
  "tok_eq a b \<longleftrightarrow> tok_loop SESSION_TOKLEN 0 a b"

text \<open>The first free slot, else the least recently used one.\<close>

function slot_from :: "session list \<Rightarrow> nat \<Rightarrow> nat \<Rightarrow> nat" where
  "slot_from S i slot =
     (if i < SESSION_SLOTS then
        if s_tok (S ! i) = [] then i
        else slot_from S (i + 1) (if s_last_us (S ! i) < s_last_us (S ! slot) then i else slot)
      else slot)"
  by pat_completeness auto
termination
  by (relation "measure (\<lambda>(S, i, slot). SESSION_SLOTS - i)") auto

declare slot_from.simps [simp del]

definition session_new :: "byte list \<Rightarrow> int \<Rightarrow> session list \<Rightarrow> string \<times> session list" where
  "session_new raw now S =
     (let tok = concat (map hex2_lower raw)
      in (tok, S[slot_from S 0 0 := \<lparr>s_tok = tok, s_last_us = now\<rparr>]))"

text \<open>Our cookie among those of the header: at its start or after a space or a semicolon.\<close>

fun cookie_find :: "char option \<Rightarrow> string \<Rightarrow> string option" where
  "cookie_find prev [] = None"
| "cookie_find prev (c # s) =
     (if has_prefix ''sid='' (c # s) \<and> (prev = None \<or> prev = Some (CHR '' '') \<or> prev = Some (CHR '';''))
      then Some (drop 4 (c # s)) else cookie_find (Some c) s)"

definition is_lower_hex :: "char \<Rightarrow> bool" where
  "is_lower_hex c \<longleftrightarrow> is_digit c \<or> (97 \<le> ord c \<and> ord c \<le> 102)"

definition cookie_token :: "request \<Rightarrow> string option" where
  "cookie_token r =
     (case rq_cookie r of
        None \<Rightarrow> None
      | Some hdr \<Rightarrow>
          if length hdr \<ge> 256 then None
          else case cookie_find None hdr of
            None \<Rightarrow> None
          | Some p \<Rightarrow> if length (takeWhile is_lower_hex p) \<noteq> SESSION_TOKLEN then None
                      else Some (take SESSION_TOKLEN p))"

fun auth_scan :: "string \<Rightarrow> int \<Rightarrow> session list \<Rightarrow> bool \<times> session list" where
  "auth_scan tok now [] = (False, [])"
| "auth_scan tok now (s # S) =
     (if s_tok s \<noteq> [] \<and> tok_eq (s_tok s) tok then
        if now - s_last_us s > SESSION_IDLE_US then (False, no_session # S)
        else (True, s\<lparr>s_last_us := now\<rparr> # S)
      else case auth_scan tok now S of (ok, S) \<Rightarrow> (ok, s # S))"

definition auth_ok :: "app_config option \<Rightarrow> request \<Rightarrow> int \<Rightarrow> session list \<Rightarrow> bool \<times> session list" where
  "auth_ok cfg r now S =
     (case cfg of
        None \<Rightarrow> (True, S)
      | Some c \<Rightarrow>
          if \<not> ac_auth_set c then (True, S)
          else case cookie_token r of None \<Rightarrow> (False, S) | Some tok \<Rightarrow> auth_scan tok now S)"

definition session_drop :: "request \<Rightarrow> session list \<Rightarrow> session list" where
  "session_drop r S =
     (case cookie_token r of
        None \<Rightarrow> S
      | Some tok \<Rightarrow> map (\<lambda>s. if s_tok s \<noteq> [] \<and> tok_eq (s_tok s) tok then no_session else s) S)"

section \<open>Answers\<close>

record reply =
  rp_status :: nat
  rp_cookie :: "string option"
  rp_text :: string

definition answer :: "string \<Rightarrow> reply" where
  "answer t = \<lparr>rp_status = 200, rp_cookie = None, rp_text = t\<rparr>"

definition refuse :: "nat \<Rightarrow> string \<Rightarrow> reply" where
  "refuse code t = \<lparr>rp_status = code, rp_cookie = None, rp_text = t\<rparr>"

definition server_error :: reply where
  "server_error = refuse 500 ''Server has encountered an unexpected error''"

definition send_401 :: reply where
  "send_401 = refuse 401 ''Sign in required''"

section \<open>Signing in and out\<close>

text \<open>\<open>memory\<close>: whether the buffer for the body can be allocated; \<open>raw\<close> the random bytes.\<close>

definition h_login ::
    "(byte list \<Rightarrow> byte list) \<Rightarrow> bool \<Rightarrow> byte list \<Rightarrow> app_config option \<Rightarrow> request \<Rightarrow> int \<Rightarrow> session list \<Rightarrow>
     reply \<times> session list" where
  "h_login sha memory raw cfg r now S =
     (if rq_len r \<le> 0 \<or> rq_len r > 512 then (refuse 400 ''bad body'', S)
      else if \<not> memory then (server_error, S)
      else case recv_body 512 r of
        Body body \<Rightarrow>
          (let user = form_value body ''user'' 40;
               pass = form_value body ''pass'' 80
           in if \<not> (case cfg of None \<Rightarrow> False
                     | Some c \<Rightarrow> user = ac_auth_user c \<and> app_config_check_password sha c (Some pass))
              then (refuse 401 ''Wrong username or password'', S)
              else case session_new raw now S of (tok, S) \<Rightarrow>
                ((answer ''ok'')\<lparr>rp_cookie := Some (snprintf_buf 128
                   (''sid='' @ tok @ ''; Path=/; HttpOnly; SameSite=Strict; Max-Age=28800''))\<rparr>, S))
      | _ \<Rightarrow> (server_error, S))"

definition h_logout :: "request \<Rightarrow> session list \<Rightarrow> reply \<times> session list" where
  "h_logout r S =
     ((answer ''ok'')\<lparr>rp_cookie := Some ''sid=; Path=/; HttpOnly; SameSite=Strict; Max-Age=0''\<rparr>, session_drop r S)"

definition h_hostname :: "app_config option \<Rightarrow> reply" where
  "h_hostname cfg = answer (case cfg of None \<Rightarrow> [] | Some c \<Rightarrow> ac_hostname c)"

section \<open>Tokens\<close>

definition token_ok :: "string \<Rightarrow> bool" where
  "token_ok t \<longleftrightarrow> length t = SESSION_TOKLEN"

lemma char_byte_inj: "char_byte x = char_byte y \<Longrightarrow> x = y"
proof -
  assume "char_byte x = char_byte y"
  then have "unat (word_of_nat (ord x) :: byte) = unat (word_of_nat (ord y) :: byte)" by (simp add: char_byte_def)
  then show "x = y" by simp
qed

lemma or_zero: "or a b = 0 \<longleftrightarrow> a = 0 \<and> b = (0 :: byte)"
  by (metis or.right_neutral or.left_neutral bit_eq_iff bit_or_iff bit_0_eq bot_apply)

lemma xor_zero: "xor a b = 0 \<longleftrightarrow> a = (b :: byte)"
  by (metis xor_self_eq xor.assoc xor.right_neutral xor.left_neutral)

lemma tok_loop_iff:
  "tok_loop n diff a b \<longleftrightarrow> diff = 0 \<and> n \<le> length a \<and> n \<le> length b \<and> take n a = take n b"
proof (induction n diff a b rule: tok_loop.induct)
  case (2 n diff x a y b)
  then show ?case using char_byte_inj [of x y] by (auto simp: or_zero xor_zero)
qed auto

lemma tok_eq_iff: "token_ok a \<Longrightarrow> token_ok b \<Longrightarrow> tok_eq a b \<longleftrightarrow> a = b"
  by (simp add: tok_eq_def tok_loop_iff token_ok_def)

lemma cookie_token_ok: "cookie_token r = Some t \<Longrightarrow> token_ok t"
proof -
  assume "cookie_token r = Some t"
  then obtain p where p: "length (takeWhile is_lower_hex p) = SESSION_TOKLEN" "t = take SESSION_TOKLEN p"
    by (auto simp: cookie_token_def split: option.splits if_splits)
  then have "SESSION_TOKLEN \<le> length p" using length_takeWhile_le [of is_lower_hex p] by simp
  then show ?thesis using p by (simp add: token_ok_def)
qed

lemma hex2_lower_length: "length (hex2_lower v) = 2"
  by (simp add: hex2_lower_def hex2_def)

lemma token_new: "length raw = 16 \<Longrightarrow> token_ok (concat (map hex2_lower raw))"
  by (simp add: token_ok_def SESSION_TOKLEN_def length_concat o_def hex2_lower_length sum_list_triv)

lemma slot_in_range: "slot < SESSION_SLOTS \<Longrightarrow> slot_from S i slot < SESSION_SLOTS"
proof (induction S i slot rule: slot_from.induct)
  case (1 S i slot)
  then show ?case by (subst slot_from.simps) auto
qed


section \<open>What browsers did\<close>

text \<open>A request as far as sessions go, with its time and the configuration it met. The ledger keeps, of
  every token handed out and not signed out since, when it was last used.\<close>

datatype web_action = Sign_in bool "byte list" request | Sign_out request | Visit request

type_synonym web_event = "int \<times> app_config option \<times> web_action"

fun web_event :: "(byte list \<Rightarrow> byte list) \<Rightarrow> web_event \<Rightarrow> session list \<Rightarrow> bool \<times> session list" where
  "web_event sha (now, cfg, Sign_in memory raw r) S =
     (case h_login sha memory raw cfg r now S of (rep, S) \<Rightarrow> (rp_status rep = 200, S))"
| "web_event sha (now, cfg, Sign_out r) S = (True, snd (h_logout r S))"
| "web_event sha (now, cfg, Visit r) S = auth_ok cfg r now S"

definition checked :: "app_config option \<Rightarrow> bool" where
  "checked cfg \<longleftrightarrow> (case cfg of None \<Rightarrow> False | Some c \<Rightarrow> ac_auth_set c)"

fun ledger_event :: "bool \<Rightarrow> web_event \<Rightarrow> (string \<rightharpoonup> int) \<Rightarrow> (string \<rightharpoonup> int)" where
  "ledger_event ok (now, cfg, Sign_in memory raw r) A = (if ok then A(concat (map hex2_lower raw) \<mapsto> now) else A)"
| "ledger_event ok (now, cfg, Sign_out r) A = (case cookie_token r of None \<Rightarrow> A | Some tok \<Rightarrow> A(tok := None))"
| "ledger_event ok (now, cfg, Visit r) A =
     (if ok \<and> checked cfg then (case cookie_token r of None \<Rightarrow> A | Some tok \<Rightarrow> A(tok \<mapsto> now)) else A)"

fun web_run :: "(byte list \<Rightarrow> byte list) \<Rightarrow> web_event list \<Rightarrow> session list \<times> (string \<rightharpoonup> int) \<Rightarrow> session list \<times> (string \<rightharpoonup> int)" where
  "web_run sha [] (S, A) = (S, A)"
| "web_run sha (e # es) (S, A) =
     (case web_event sha e S of (ok, S) \<Rightarrow> web_run sha es (S, ledger_event ok e A))"

definition raw_ok :: "web_event \<Rightarrow> bool" where
  "raw_ok e \<longleftrightarrow> (case e of (_, _, Sign_in _ raw _) \<Rightarrow> length raw = 16 | _ \<Rightarrow> True)"

text \<open>Every session in the table is in the ledger, and no older there.\<close>

definition table_backed :: "int \<Rightarrow> session list \<Rightarrow> (string \<rightharpoonup> int) \<Rightarrow> bool" where
  "table_backed now S A \<longleftrightarrow> length S = SESSION_SLOTS \<and>
     (\<forall>s \<in> set S. s_tok s \<noteq> [] \<longrightarrow> token_ok (s_tok s) \<and> (\<exists>t. A (s_tok s) = Some t \<and> s_last_us s \<le> t)) \<and>
     (\<forall>tok t. A tok = Some t \<longrightarrow> t \<le> now)"

lemma backed_later: "table_backed now S A \<Longrightarrow> now \<le> now' \<Longrightarrow> table_backed now' S A"
  unfolding table_backed_def by fastforce

lemma backed_add:
  assumes "table_backed now S A" "token_ok tok" "slot < SESSION_SLOTS"
  shows "table_backed now (S[slot := \<lparr>s_tok = tok, s_last_us = now\<rparr>]) (A(tok \<mapsto> now))"
proof -
  have "token_ok (s_tok s) \<and> (\<exists>t. (A(tok \<mapsto> now)) (s_tok s) = Some t \<and> s_last_us s \<le> t)"
    if s: "s \<in> set (S[slot := \<lparr>s_tok = tok, s_last_us = now\<rparr>])" "s_tok s \<noteq> []" for s
  proof -
    consider "s = \<lparr>s_tok = tok, s_last_us = now\<rparr>" | "s \<in> set S"
      using s(1) set_update_subset_insert [of S slot "\<lparr>s_tok = tok, s_last_us = now\<rparr>"] by auto
    then show ?thesis
    proof cases
      case 1
      then show ?thesis using assms(2) by simp
    next
      case 2
      then obtain t where t: "A (s_tok s) = Some t" "s_last_us s \<le> t" "token_ok (s_tok s)"
        using assms(1) s(2) unfolding table_backed_def by blast
      then have "t \<le> now" using assms(1) unfolding table_backed_def by blast
      then show ?thesis using t by (cases "s_tok s = tok") auto
    qed
  qed
  then show ?thesis using assms(1,3) by (auto simp: table_backed_def split: if_splits)
qed

lemma scan_accepts:
  "auth_scan tok now S = (True, S') \<Longrightarrow>
   \<exists>s \<in> set S. s_tok s \<noteq> [] \<and> tok_eq (s_tok s) tok \<and> now - s_last_us s \<le> SESSION_IDLE_US"
  by (induction S arbitrary: S') (auto split: if_splits prod.splits)

lemma scan_length: "length (snd (auth_scan tok now S)) = length S"
proof (induction S)
  case (Cons s S)
  then show ?case by (cases "auth_scan tok now S") simp
qed simp

lemma scan_slots:
  "s \<in> set (snd (auth_scan tok now S)) \<Longrightarrow> s_tok s \<noteq> [] \<Longrightarrow>
   s \<in> set S \<or> (fst (auth_scan tok now S) \<and> s_last_us s = now \<and> tok_eq (s_tok s) tok \<and> (\<exists>s' \<in> set S. s_tok s' = s_tok s))"
  by (induction S) (auto split: if_splits prod.splits simp: no_session_def)

lemma backed_visit:
  assumes b: "table_backed now S A" and v: "auth_ok cfg r now S = (ok, S')"
  shows "table_backed now S' (ledger_event ok (now, cfg, Visit r) A)"
proof (cases "checked cfg")
  case False
  then show ?thesis using b v by (auto simp: checked_def auth_ok_def split: option.splits if_splits)
next
  case True
  then obtain c where c: "cfg = Some c" "ac_auth_set c" by (auto simp: checked_def split: option.splits)
  show ?thesis
  proof (cases "cookie_token r")
    case None
    then show ?thesis using b v c by (simp add: auth_ok_def)
  next
    case (Some tok)
    then have s: "auth_scan tok now S = (ok, S')" using v c by (simp add: auth_ok_def)
    have tk: "token_ok tok" using cookie_token_ok [OF Some] .
    let ?A = "if ok then A(tok \<mapsto> now) else A"
    have "token_ok (s_tok s) \<and> (\<exists>t. ?A (s_tok s) = Some t \<and> s_last_us s \<le> t)"
      if q: "s \<in> set S'" "s_tok s \<noteq> []" for s
    proof -
      have in_S: "token_ok (s_tok x) \<and> (\<exists>t. A (s_tok x) = Some t \<and> s_last_us x \<le> t \<and> t \<le> now)"
        if "x \<in> set S" "s_tok x \<noteq> []" for x
        using b that unfolding table_backed_def by blast
      consider "s \<in> set S" | "ok" "s_last_us s = now" "tok_eq (s_tok s) tok" "\<exists>s' \<in> set S. s_tok s' = s_tok s"
        using scan_slots [of s tok now S] s q by auto
      then show ?thesis
      proof cases
        case 1
        then show ?thesis using in_S [OF 1 q(2)] by auto
      next
        case 2
        then have "token_ok (s_tok s)" using in_S q(2) by metis
        then show ?thesis using 2 tk by (simp add: tok_eq_iff)
      qed
    qed
    moreover have "length S' = SESSION_SLOTS" using scan_length [of tok now S] s b by (simp add: table_backed_def)
    moreover have "\<forall>u t. ?A u = Some t \<longrightarrow> t \<le> now" using b by (auto simp: table_backed_def)
    ultimately have "table_backed now S' ?A" unfolding table_backed_def by blast
    then show ?thesis using True Some by (cases ok) simp_all
  qed
qed

lemma login_cases:
  assumes "h_login sha memory raw cfg r now S = (rep, S')"
  shows "rp_status rep \<noteq> 200 \<and> S' = S \<or>
    rp_status rep = 200 \<and> S' = S[slot_from S 0 0 := \<lparr>s_tok = concat (map hex2_lower raw), s_last_us = now\<rparr>]"
  using assms
  by (auto simp: h_login_def refuse_def server_error_def answer_def session_new_def Let_def
      split: if_splits body.splits option.splits)

lemma backed_event:
  assumes b: "table_backed now S A" and e: "fst e = now" "raw_ok e" and w: "web_event sha e S = (ok, S')"
  shows "table_backed now S' (ledger_event ok e A)"
proof -
  obtain cfg act where ev: "e = (now, cfg, act)" using e(1) by (cases e) auto
  show ?thesis
  proof (cases act)
    case (Sign_in memory raw r)
    then have raw: "length raw = 16" using e(2) ev by (simp add: raw_ok_def)
    obtain rep S1 where l: "h_login sha memory raw cfg r now S = (rep, S1)" by (metis prod.exhaust)
    have "slot_from S 0 0 < SESSION_SLOTS" by (rule slot_in_range) (simp add: SESSION_SLOTS_def)
    then have "table_backed now (S[slot_from S 0 0 := \<lparr>s_tok = concat (map hex2_lower raw), s_last_us = now\<rparr>])
        (A(concat (map hex2_lower raw) \<mapsto> now))"
      using b token_new [OF raw] by (intro backed_add)
    then show ?thesis using login_cases [OF l] w l b Sign_in ev by auto
  next
    case (Sign_out r)
    show ?thesis
    proof (cases "cookie_token r")
      case None
      then show ?thesis using w b Sign_out ev by (simp add: h_logout_def session_drop_def)
    next
      case (Some tok)
      have tk: "token_ok tok" using cookie_token_ok [OF Some] .
      have S': "S' = map (\<lambda>s. if s_tok s \<noteq> [] \<and> tok_eq (s_tok s) tok then no_session else s) S"
        using w Some Sign_out ev by (simp add: h_logout_def session_drop_def)
      have "token_ok (s_tok s) \<and> (\<exists>t. (A(tok := None)) (s_tok s) = Some t \<and> s_last_us s \<le> t)"
        if q: "s \<in> set S'" "s_tok s \<noteq> []" for s
      proof -
        have s: "s \<in> set S" "\<not> tok_eq (s_tok s) tok"
          using q unfolding S' by (auto simp: no_session_def split: if_splits)
        then have "token_ok (s_tok s)" "\<exists>t. A (s_tok s) = Some t \<and> s_last_us s \<le> t"
          using b q(2) unfolding table_backed_def by blast+
        then show ?thesis using s(2) tk tok_eq_iff by auto
      qed
      moreover have "length S' = SESSION_SLOTS" using b S' by (simp add: table_backed_def)
      ultimately show ?thesis using b Some Sign_out ev by (auto simp: table_backed_def)
    qed
  next
    case (Visit r)
    then show ?thesis using backed_visit [OF b] w ev by simp
  qed
qed

lemma backed_run:
  assumes "table_backed now S A" "sorted (map fst es)" "\<forall>e \<in> set es. raw_ok e \<and> now \<le> fst e \<and> fst e \<le> end_us"
    "now \<le> end_us" "web_run sha es (S, A) = (S', A')"
  shows "table_backed end_us S' A'"
  using assms
proof (induction es arbitrary: now S A)
  case Nil
  then show ?case by (auto intro: backed_later)
next
  case (Cons e es)
  obtain ok S1 where w: "web_event sha e S = (ok, S1)" by (metis prod.exhaust)
  have "table_backed (fst e) S A" using Cons.prems(1,3) by (auto intro: backed_later)
  then have "table_backed (fst e) S1 (ledger_event ok e A)"
    using backed_event [OF _ refl _ w] Cons.prems(3) by simp
  then show ?case using Cons.prems w by (intro Cons.IH [of "fst e"]) auto
qed


lemma scan_admits:
  assumes "\<forall>s \<in> set S. s_tok s \<noteq> [] \<longrightarrow> token_ok (s_tok s)" "token_ok tok"
    "\<exists>s \<in> set S. s_tok s = tok" "\<forall>s \<in> set S. s_tok s = tok \<longrightarrow> now - s_last_us s \<le> SESSION_IDLE_US"
  shows "fst (auth_scan tok now S)"
  using assms
proof (induction S)
  case (Cons s S)
  have "tok \<noteq> []" using Cons.prems(2) by (auto simp: token_ok_def SESSION_TOKLEN_def)
  show ?case
  proof (cases "s_tok s = tok")
    case True
    then show ?thesis using Cons.prems \<open>tok \<noteq> []\<close> tok_eq_iff [of tok tok] by simp
  next
    case False
    then have "\<not> (s_tok s \<noteq> [] \<and> tok_eq (s_tok s) tok)" using Cons.prems(1,2) tok_eq_iff [of "s_tok s" tok] by auto
    then show ?thesis using Cons.IH Cons.prems False by (auto split: prod.splits)
  qed
qed simp

lemma is_lower_hex_digit: "n < 16 \<Longrightarrow> is_lower_hex (tolower (hex_digit n))"
proof -
  assume "n < 16"
  then have "n \<in> set [0..<16]" by simp
  then show ?thesis by (simp add: upt_rec is_lower_hex_def hex_digit_def is_digit_def tolower_def) (elim disjE; simp)
qed

lemma hex2_lower_chars: "c \<in> set (hex2_lower v) \<Longrightarrow> is_lower_hex c"
proof -
  have "unat v < 256" using unsigned_less [of v, where 'a = nat] by simp
  then have "unat v div 16 < 16" "unat v mod 16 < 16" by simp_all
  then show "c \<in> set (hex2_lower v) \<Longrightarrow> ?thesis" by (auto simp: hex2_lower_def hex2_def is_lower_hex_digit)
qed

lemma cookie_of_lower_hex:
  assumes "length t = SESSION_TOKLEN" "\<forall>c \<in> set t. is_lower_hex c" "rq_cookie r = Some (''sid='' @ t)"
  shows "cookie_token r = Some t"
proof -
  have w: "takeWhile is_lower_hex t = t" using assms(2) by (simp add: takeWhile_eq_all_conv)
  have c: "cookie_find None (''sid='' @ t) = Some t" by (simp add: has_prefix_def)
  have l: "\<not> length (''sid='' @ t) \<ge> 256" using assms(1) by (simp add: SESSION_TOKLEN_def)
  show ?thesis unfolding cookie_token_def assms(3) option.case c if_not_P [OF l] w using assms(1) by simp
qed

lemma cookie_of_token:
  assumes "length raw = 16" "rq_cookie r = Some (''sid='' @ concat (map hex2_lower raw))"
  shows "cookie_token r = Some (concat (map hex2_lower raw))"
  using token_new [OF assms(1)] hex2_lower_chars
  by (intro cookie_of_lower_hex [OF _ _ assms(2)]) (auto simp: token_ok_def)

lemma new_session_admits:
  assumes "length raw = 16" "length S = SESSION_SLOTS" "\<forall>s \<in> set S. s_tok s \<noteq> [] \<longrightarrow> token_ok (s_tok s)"
    "\<forall>s \<in> set S. s_tok s \<noteq> concat (map hex2_lower raw)" "now' - now \<le> SESSION_IDLE_US"
    "rq_cookie r = Some (''sid='' @ concat (map hex2_lower raw))"
  shows "fst (auth_ok cfg r now' (S[slot_from S 0 0 := \<lparr>s_tok = concat (map hex2_lower raw), s_last_us = now\<rparr>]))"
proof -
  let ?n = "\<lparr>s_tok = concat (map hex2_lower raw), s_last_us = now\<rparr>"
  let ?S = "S[slot_from S 0 0 := ?n]"
  have slot: "slot_from S 0 0 < length S" using slot_in_range [of 0 S 0] assms(2) by (simp add: SESSION_SLOTS_def)
  have mem: "s = ?n \<or> s \<in> set S" if "s \<in> set ?S" for s
    using that set_update_subset_insert [of S "slot_from S 0 0" ?n] by auto
  have "fst (auth_scan (concat (map hex2_lower raw)) now' ?S)"
  proof (rule scan_admits)
    show "\<forall>s \<in> set ?S. s_tok s \<noteq> [] \<longrightarrow> token_ok (s_tok s)"
      using mem token_new [OF assms(1)] assms(3) by fastforce
    show "token_ok (concat (map hex2_lower raw))" by (rule token_new [OF assms(1)])
    show "\<exists>s \<in> set ?S. s_tok s = concat (map hex2_lower raw)"
      using set_update_memI [OF slot, of ?n] by force
    show "\<forall>s \<in> set ?S. s_tok s = concat (map hex2_lower raw) \<longrightarrow> now' - s_last_us s \<le> SESSION_IDLE_US"
      using mem assms(4,5) by fastforce
  qed
  then show ?thesis using cookie_of_token [OF assms(1,6)] by (auto simp: auth_ok_def split: option.split)
qed

section \<open>Properties\<close>

text \<open>C12: However sign-ins, sign-outs and requests of any browsers interleave, a request that meets a
  configuration with a password is let in only with a cookie token that a successful sign-in handed
  out, that was not signed out since, and that was last used at most eight hours before.\<close>

theorem session_required:
  assumes "web_run sha es (sessions0, Map.empty) = (S, A)" "sorted (map fst es)" "\<forall>e \<in> set es. raw_ok e \<and> fst e \<le> now"
    "checked cfg" "fst (auth_ok cfg r now S)"
  shows "\<exists>tok t. cookie_token r = Some tok \<and> A tok = Some t \<and> now - t \<le> SESSION_IDLE_US"
proof -
  define start where "start = (if es = [] then now else fst (hd es))"
  have st: "start \<le> now" "\<forall>e \<in> set es. start \<le> fst e"
    using assms(2,3) by (auto simp: start_def neq_Nil_conv) fastforce
  have "table_backed start sessions0 Map.empty"
    by (simp add: table_backed_def sessions0_def no_session_def SESSION_SLOTS_def)
  then have b: "table_backed now S A" using backed_run [OF _ assms(2) _ st(1) assms(1)] st(2) assms(3) by blast
  obtain c where c: "cfg = Some c" "ac_auth_set c" using assms(4) by (auto simp: checked_def split: option.splits)
  then obtain tok where tok: "cookie_token r = Some tok" "fst (auth_scan tok now S)"
    using assms(5) by (auto simp: auth_ok_def split: option.splits)
  then obtain s where s: "s \<in> set S" "s_tok s \<noteq> []" "tok_eq (s_tok s) tok" "now - s_last_us s \<le> SESSION_IDLE_US"
    using scan_accepts [of tok now S] by (metis prod.collapse)
  then obtain t where t: "token_ok (s_tok s)" "A (s_tok s) = Some t" "s_last_us s \<le> t"
    using b unfolding table_backed_def by blast
  then have "s_tok s = tok" using s(3) tok_eq_iff cookie_token_ok [OF tok(1)] by blast
  then show ?thesis using tok(1) t s(4) by fastforce
qed


definition ex_sha :: "byte list \<Rightarrow> byte list" where
  "ex_sha bs = take 32 (bs @ replicate 32 0)"

definition ex_web_config :: app_config where
  "ex_web_config = app_config_set_password ex_sha (replicate 16 7) ex_config (Some ''secret'')"

definition ex_login :: request where
  "ex_login = \<lparr>rq_len = 22, rq_recv = [''user=admin&'', ''pass=secret''], rq_query = [], rq_cookie = None, rq_confirm = []\<rparr>"

definition ex_raw :: "byte list" where
  "ex_raw = replicate 16 0xA5"

definition ex_visit :: request where
  "ex_visit = \<lparr>rq_len = 0, rq_recv = [], rq_query = [], rq_cookie = Some (''sid='' @ concat (map hex2_lower ex_raw)),
     rq_confirm = []\<rparr>"

lemma ex_web_config_simps: "ac_auth_set ex_web_config" "ac_auth_user ex_web_config = ''admin''"
  by (simp_all add: ex_web_config_def app_config_set_password_def set_secret_def ex_config_def app_config_defaults_def
      app_config_set_nut_password_def Let_def split: prod.splits)


lemma ex_login_accepted:
  "rp_status (fst (h_login ex_sha True ex_raw (Some ex_web_config) ex_login 0 S)) = 200"
proof -
  have b: "recv_body 512 ex_login = Body ''user=admin&pass=secret''" by code_simp
  have u: "form_value ''user=admin&pass=secret'' ''user'' 40 = ''admin''"
    "form_value ''user=admin&pass=secret'' ''pass'' 80 = ''secret''" by code_simp+
  have p: "app_config_check_password ex_sha ex_web_config (Some ''secret'')"
    by (simp add: app_config_check_password_def ex_web_config_def app_config_set_password_def set_secret_def
        check_secret_def hash_password_def ex_sha_def secret_diff_eq split: prod.splits)
  have len: "0 < rq_len ex_login \<and> rq_len ex_login \<le> 512" by (simp add: ex_login_def)
  show ?thesis
    using b u p len by (auto simp: h_login_def ex_web_config_simps answer_def split: prod.splits)
qed

theorem session_required_witness:
  "\<exists>S A. web_run ex_sha [(0, Some ex_web_config, Sign_in True ex_raw ex_login)] (sessions0, Map.empty) = (S, A) \<and>
     fst (auth_ok (Some ex_web_config) ex_visit 1000 S) \<and>
     (\<exists>tok t. cookie_token ex_visit = Some tok \<and> A tok = Some t \<and> 1000 - t \<le> SESSION_IDLE_US)"
proof -
  let ?es = "[(0, Some ex_web_config, Sign_in True ex_raw ex_login)]"
  let ?t = "concat (map hex2_lower ex_raw)"
  obtain rep S where l: "h_login ex_sha True ex_raw (Some ex_web_config) ex_login 0 sessions0 = (rep, S)"
    by (metis prod.exhaust)
  have "rp_status rep = 200" using ex_login_accepted [of sessions0] l by simp
  then have S: "S = sessions0[slot_from sessions0 0 0 := \<lparr>s_tok = ?t, s_last_us = 0\<rparr>]" and st: "rp_status rep = 200"
    using login_cases [OF l] by auto
  have run: "web_run ex_sha ?es (sessions0, Map.empty) = (S, [?t \<mapsto> 0])" using l st by simp
  have raw: "length ex_raw = 16" by (simp add: ex_raw_def)
  have ok: "fst (auth_ok (Some ex_web_config) ex_visit 1000 S)"
    unfolding S by (rule new_session_admits [OF raw])
      (simp_all add: sessions0_def no_session_def ex_visit_def ex_raw_def SESSION_IDLE_US_def hex2_lower_def hex2_def)
  have "\<exists>tok t. cookie_token ex_visit = Some tok \<and> [?t \<mapsto> 0] tok = Some t \<and> 1000 - t \<le> SESSION_IDLE_US"
    by (rule session_required [OF run _ _ _ ok]) (simp_all add: raw_ok_def raw checked_def ex_web_config_simps)
  then show ?thesis using run ok by blast
qed


text \<open>A browser that signs in is let in afterwards: the cookie it is given is the token of a session
  that admits its requests for eight hours.\<close>

theorem sign_in_admits:
  assumes "h_login sha memory raw cfg r now S = (rep, S')" "rp_status rep = 200" "length raw = 16"
    "length S = SESSION_SLOTS" "\<forall>s \<in> set S. s_tok s \<noteq> [] \<longrightarrow> token_ok (s_tok s)"
    "\<forall>s \<in> set S. s_tok s \<noteq> concat (map hex2_lower raw)"
    "rq_cookie r' = Some (''sid='' @ concat (map hex2_lower raw))" "now' - now \<le> SESSION_IDLE_US"
  shows "fst (auth_ok cfg' r' now' S')"
  using login_cases [OF assms(1)] assms(2) new_session_admits [OF assms(3-6,8,7)] by auto

theorem sign_in_admits_witness:
  "fst (auth_ok (Some ex_web_config) ex_visit 1000
     (snd (h_login ex_sha True ex_raw (Some ex_web_config) ex_login 0 sessions0)))"
proof -
  obtain rep S where l: "h_login ex_sha True ex_raw (Some ex_web_config) ex_login 0 sessions0 = (rep, S)"
    by (metis prod.exhaust)
  have "fst (auth_ok (Some ex_web_config) ex_visit 1000 S)"
    by (rule sign_in_admits [OF l])
      (use ex_login_accepted [of sessions0] l in \<open>simp_all add: sessions0_def no_session_def ex_visit_def ex_raw_def
        SESSION_IDLE_US_def hex2_lower_def hex2_def\<close>)
  then show ?thesis using l by simp
qed

text \<open>A password longer than the 79 characters the sign-in form reads can be set but never used: the
  sign-in of the very user and password is refused, unless SHA-256 happens not to tell the password
  from its first 79 characters.\<close>

theorem long_password_locks_out:
  assumes "recv_body 512 r = Body body" "form_value body ''pass'' 80 = take 79 password" "79 < length password"
    "\<forall>bs. length (sha bs) = 32" "hash_password sha salt (take 79 password) \<noteq> hash_password sha salt password"
  shows "rp_status (fst (h_login sha True raw (Some (app_config_set_password sha salt c (Some password))) r now S)) = 401"
proof -
  let ?c = "app_config_set_password sha salt c (Some password)"
  have "password \<noteq> []" using assms(3) by auto
  then have f: "ac_auth_salt ?c = salt" "ac_auth_hash ?c = hash_password sha salt password" "ac_auth_set ?c"
    by (simp_all add: app_config_set_password_def set_secret_def)
  have "\<not> app_config_check_password sha ?c (Some (take 79 password))"
    using assms(4,5) f by (simp add: app_config_check_password_def check_secret_def secret_diff_eq hash_password_def)
  moreover have "0 < rq_len r \<and> rq_len r \<le> 512"
    using assms(1) by (auto simp: recv_body_def split: if_splits)
  ultimately show ?thesis using assms(1,2) by (simp add: h_login_def refuse_def)
qed

definition ex_long :: string where
  "ex_long = replicate 80 (CHR ''x'')"

definition ex_long_login :: request where
  "ex_long_login = \<lparr>rq_len = 96, rq_recv = [''user=admin&pass='' @ ex_long], rq_query = [], rq_cookie = None, rq_confirm = []\<rparr>"

theorem long_password_locks_out_witness:
  "rp_status (fst (h_login (\<lambda>bs. replicate 32 (word_of_nat (length bs))) True ex_raw
     (Some (app_config_set_password (\<lambda>bs. replicate 32 (word_of_nat (length bs))) (replicate 16 7) ex_config (Some ex_long)))
     ex_long_login 0 sessions0)) = 401"
proof (rule long_password_locks_out)
  have b: "recv_body 512 ex_long_login = Body (''user=admin&pass='' @ ex_long)" by code_simp
  show "recv_body 512 ex_long_login = Body (''user=admin&pass='' @ ex_long)" by (rule b)
  show "form_value (''user=admin&pass='' @ ex_long) ''pass'' 80 = take 79 ex_long" by code_simp
  show "79 < length ex_long" by (simp add: ex_long_def)
qed (simp_all add: ex_long_def hash_password_def)

end
