(* ===== verification/Wifi_Mgr.thy ===== *)
theory Wifi_Mgr
  imports Bridge_Prelude
begin

text \<open>
  The Wi-Fi manager, \<^verbatim>\<open>components/wifi_mgr/wifi_mgr.c\<close>: the driver's events and the retry timer, the
  SoftAP, the supervisor that raises a fallback access point, the scan and the station's addressing.

  \<open>wifi\<close> is the file's static state with the supervisor's \<open>down_ms\<close>, and the calls made to the driver
  in order (\<open>w_calls\<close>). \<open>w_asked\<close> is a ghost: a connection attempt was requested and the driver has not
  answered it, which it does with \<^verbatim>\<open>STA_DISCONNECTED\<close> or \<^verbatim>\<open>STA_GOT_IP\<close>. A failing
  \<^verbatim>\<open>ESP_ERROR_CHECK\<close> reboots the device and is not a step here; the attempt count is an
  unbounded integer. \<open>wifi_mac\<close> holds the last two bytes of the station's address.

  The lemmas bound the retry delay, show that a wanted station is never left without an attempt
  pending, give the delay of every retry, and say exactly when the fallback access point is up.
\<close>

section \<open>State\<close>

definition MAX_RETRY :: int where "MAX_RETRY = 8"
definition BACKOFF_MIN_MS :: u32 where "BACKOFF_MIN_MS = 1000"
definition BACKOFF_MAX_MS :: u32 where "BACKOFF_MAX_MS = 30000"
definition FALLBACK_TICK_MS :: u32 where "FALLBACK_TICK_MS = 2000"

datatype wifi_call =
    Call_connect
  | Call_disconnect
  | Call_sta_config string string bool
  | Call_ap_config string string bool
  | Call_mode_sta
  | Call_mode_apsta
  | Call_timer_stop
  | Call_timer_start u32

record wifi =
  w_connected :: bool
  w_failed :: bool
  w_ap_up :: bool
  w_inited :: bool
  w_want :: bool
  w_retries :: int
  w_backoff :: u32
  w_timer :: bool
  w_armed :: "u32 option"
  w_ip :: string
  fb_enabled :: bool
  fb_ssid :: string
  fb_pass :: string
  fb_after :: u32
  fb_ap_up :: bool
  fb_task :: bool
  down_ms :: u32
  w_calls :: "wifi_call list"
  w_asked :: bool

definition wifi0 :: wifi where
  "wifi0 = \<lparr>w_connected = False, w_failed = False, w_ap_up = False, w_inited = False, w_want = False,
     w_retries = 0, w_backoff = BACKOFF_MIN_MS, w_timer = False, w_armed = None, w_ip = ''0.0.0.0'',
     fb_enabled = False, fb_ssid = [], fb_pass = [], fb_after = 0, fb_ap_up = False, fb_task = False,
     down_ms = 0, w_calls = [], w_asked = False\<rparr>"

definition call :: "wifi_call \<Rightarrow> wifi \<Rightarrow> wifi" where
  "call c w = w\<lparr>w_calls := w_calls w @ [c]\<rparr>"

definition esp_wifi_connect :: "wifi \<Rightarrow> wifi" where
  "esp_wifi_connect w = (call Call_connect w)\<lparr>w_asked := True\<rparr>"

definition esp_timer_stop :: "wifi \<Rightarrow> wifi" where
  "esp_timer_stop w = (call Call_timer_stop w)\<lparr>w_armed := None\<rparr>"

definition esp_timer_start_once :: "u32 \<Rightarrow> wifi \<Rightarrow> wifi" where
  "esp_timer_start_once ms w = (call (Call_timer_start ms) w)\<lparr>w_armed := Some ms\<rparr>"

section \<open>Events of the station\<close>

text \<open>The timer's callback; a one-shot timer is no longer armed when it runs.\<close>

definition retry_timer_cb :: "wifi \<Rightarrow> wifi" where
  "retry_timer_cb w = (let w = w\<lparr>w_armed := None\<rparr> in if w_want w then esp_wifi_connect w else w)"

text \<open>\<open>created\<close>: whether the timer can be created when it does not exist yet.\<close>

definition reconnect_later :: "bool \<Rightarrow> wifi \<Rightarrow> wifi" where
  "reconnect_later created w =
     (if \<not> w_timer w \<and> \<not> created then esp_wifi_connect w
      else
        let w = esp_timer_start_once (w_backoff w) (esp_timer_stop (w\<lparr>w_timer := True\<rparr>))
        in if w_backoff w < BACKOFF_MAX_MS
           then (let w = w\<lparr>w_backoff := w_backoff w * 2\<rparr>
                 in if w_backoff w > BACKOFF_MAX_MS then w\<lparr>w_backoff := BACKOFF_MAX_MS\<rparr> else w)
           else w)"

datatype wifi_event = STA_START | STA_DISCONNECTED | STA_GOT_IP string | Other_event

definition on_event :: "bool \<Rightarrow> wifi_event \<Rightarrow> wifi \<Rightarrow> wifi" where
  "on_event created e w =
     (case e of
        STA_START \<Rightarrow> if w_want w then esp_wifi_connect w else w
      | STA_DISCONNECTED \<Rightarrow>
          (let w = w\<lparr>w_ip := ''0.0.0.0'', w_connected := False, w_asked := False\<rparr>
           in if \<not> w_want w then w
              else
                let w = w\<lparr>w_retries := w_retries w + 1\<rparr>;
                    w = (if w_retries w = MAX_RETRY then w\<lparr>w_failed := True\<rparr> else w)
                in reconnect_later created w)
      | STA_GOT_IP ip \<Rightarrow>
          (let w = w\<lparr>w_ip := strlcpy 16 ip, w_retries := 0, w_backoff := BACKOFF_MIN_MS, w_asked := False\<rparr>;
               w = (if w_timer w then esp_timer_stop w else w)
           in w\<lparr>w_failed := False, w_connected := True\<rparr>)
      | Other_event \<Rightarrow> w)"

definition wifi_mgr_init :: "wifi \<Rightarrow> wifi" where
  "wifi_mgr_init w = (if w_inited w then w else (call Call_mode_sta w)\<lparr>w_inited := True\<rparr>)"

section \<open>The access point\<close>

definition wifi_mgr_default_ap_ssid :: "byte \<times> byte \<Rightarrow> nat \<Rightarrow> string" where
  "wifi_mgr_default_ap_ssid mac len =
     snprintf_buf len (''esp-nut-bluetti-'' @ hex2 (fst mac) @ hex2 (snd mac))"

text \<open>\<open>ssid\<close> and \<open>pass\<close> may be null. The DHCP and name-server options of the access point are not
  modelled.\<close>

definition wifi_mgr_ap_start :: "byte \<times> byte \<Rightarrow> string option \<Rightarrow> string option \<Rightarrow> wifi \<Rightarrow> bool \<times> wifi" where
  "wifi_mgr_ap_start mac ssid pass w =
     (let name = (case ssid of Some (c # s) \<Rightarrow> c # s | _ \<Rightarrow> wifi_mgr_default_ap_ssid mac 33);
          secured = (case pass of Some p \<Rightarrow> length p \<ge> 8 | None \<Rightarrow> False);
          key = (if secured then strlcpy 64 (the pass) else [])
      in (True, (call (Call_ap_config (strlcpy 32 name) key secured) (call Call_mode_apsta w))\<lparr>w_ap_up := True\<rparr>))"

definition wifi_mgr_ap_stop :: "wifi \<Rightarrow> wifi" where
  "wifi_mgr_ap_stop w =
     (let w = (call Call_mode_sta w)\<lparr>w_ap_up := False\<rparr>
      in if w_want w
         then esp_wifi_connect (w\<lparr>w_retries := 0, w_backoff := BACKOFF_MIN_MS, w_failed := False\<rparr>)
         else w)"

definition wifi_mgr_ap_active :: "wifi \<Rightarrow> bool" where
  "wifi_mgr_ap_active w = w_ap_up w"

section \<open>The fallback access point\<close>

definition wifi_mgr_sta_connected :: "wifi \<Rightarrow> bool" where
  "wifi_mgr_sta_connected w = w_connected w"

text \<open>One pass of the supervisor's loop, after its delay.\<close>

definition fallback_tick :: "byte \<times> byte \<Rightarrow> wifi \<Rightarrow> wifi" where
  "fallback_tick mac w =
     (if \<not> fb_enabled w \<or> (w_ap_up w \<and> \<not> fb_ap_up w) then w\<lparr>down_ms := 0\<rparr>
      else if wifi_mgr_sta_connected w then
        (let w = w\<lparr>down_ms := 0\<rparr>
         in if fb_ap_up w then wifi_mgr_ap_stop (w\<lparr>fb_ap_up := False\<rparr>) else w)
      else if fb_ap_up w then w
      else
        let w = w\<lparr>down_ms := down_ms w + FALLBACK_TICK_MS\<rparr>
        in if down_ms w < fb_after w then w
           else case wifi_mgr_ap_start mac (Some (fb_ssid w)) (Some (fb_pass w)) w of
                  (True, w) \<Rightarrow> w\<lparr>fb_ap_up := True\<rparr>
                | (False, w) \<Rightarrow> w\<lparr>down_ms := 0\<rparr>)"

definition wifi_mgr_set_fallback_ap ::
    "byte \<times> byte \<Rightarrow> bool \<Rightarrow> bool \<Rightarrow> string option \<Rightarrow> string option \<Rightarrow> u32 \<Rightarrow> wifi \<Rightarrow> wifi" where
  "wifi_mgr_set_fallback_ap mac created enabled ssid pass after w =
     (let w = w\<lparr>fb_ssid := (case ssid of Some (c # s) \<Rightarrow> strlcpy 33 (c # s) | _ \<Rightarrow> wifi_mgr_default_ap_ssid mac 33),
                fb_pass := strlcpy 65 (case pass of Some p \<Rightarrow> p | None \<Rightarrow> []),
                fb_after := (if after \<noteq> 0 then after else 60000),
                fb_enabled := enabled\<rparr>
      in if \<not> enabled then (if fb_ap_up w then wifi_mgr_ap_stop (w\<lparr>fb_ap_up := False\<rparr>) else w)
         else if \<not> fb_task w then (if \<not> created then w\<lparr>fb_enabled := False\<rparr> else w\<lparr>fb_task := True\<rparr>)
         else w)"

definition wifi_mgr_fallback_ap_active :: "wifi \<Rightarrow> bool" where
  "wifi_mgr_fallback_ap_active w = fb_ap_up w"

section \<open>Connecting\<close>

definition sta_connect_request :: "string \<Rightarrow> string option \<Rightarrow> wifi \<Rightarrow> wifi" where
  "sta_connect_request ssid pass w =
     (let key = (case pass of Some p \<Rightarrow> p | None \<Rightarrow> []);
          w = call (Call_sta_config (strlcpy 32 ssid) (strlcpy 64 key) (key \<noteq> [])) w;
          w = w\<lparr>w_connected := False, w_failed := False, w_retries := 0, w_backoff := BACKOFF_MIN_MS, w_want := True\<rparr>
      in esp_wifi_connect (call Call_disconnect w))"

datatype connect_result = Connect_ok | Connect_fail | Connect_timeout

text \<open>What happens while the caller waits: driver events and the retry timer. An exhausted list is the
  timeout.\<close>

datatype wifi_input = Event bool wifi_event | Timer_fires

definition wifi_input_step :: "wifi_input \<Rightarrow> wifi \<Rightarrow> wifi" where
  "wifi_input_step i w =
     (case i of Event created e \<Rightarrow> on_event created e w
      | Timer_fires \<Rightarrow> if w_armed w \<noteq> None then retry_timer_cb w else w)"

fun wait_bits :: "wifi_input list \<Rightarrow> wifi \<Rightarrow> connect_result \<times> wifi" where
  "wait_bits is w =
     (if w_connected w then (Connect_ok, w)
      else if w_failed w then (Connect_fail, w)
      else case is of [] \<Rightarrow> (Connect_timeout, w) | i # is \<Rightarrow> wait_bits is (wifi_input_step i w))"

declare wait_bits.simps [simp del]

definition wifi_mgr_sta_connect :: "string \<Rightarrow> string option \<Rightarrow> wifi_input list \<Rightarrow> wifi \<Rightarrow> connect_result \<times> wifi" where
  "wifi_mgr_sta_connect ssid pass inputs w = wait_bits inputs (sta_connect_request ssid pass w)"

definition wifi_mgr_sta_ip :: "nat \<Rightarrow> wifi \<Rightarrow> string" where
  "wifi_mgr_sta_ip len w = strlcpy len (w_ip w)"

text \<open>The other address queries: \<open>info\<close> is the printed address if the network interface has one.\<close>

definition wifi_mgr_ap_ip :: "nat \<Rightarrow> bool \<Rightarrow> string option \<Rightarrow> wifi \<Rightarrow> string" where
  "wifi_mgr_ap_ip len netif info w =
     (if \<not> w_ap_up w \<or> \<not> netif then strlcpy len ''0.0.0.0''
      else case info of Some ip \<Rightarrow> strlcpy len ip | None \<Rightarrow> strlcpy len ''192.168.4.1'')"

definition wifi_mgr_sta_gw :: "nat \<Rightarrow> string option \<Rightarrow> string" where
  "wifi_mgr_sta_gw len info = (case info of Some ip \<Rightarrow> strlcpy len ip | None \<Rightarrow> strlcpy len ''0.0.0.0'')"

definition wifi_mgr_sta_dns :: "nat \<Rightarrow> string option \<Rightarrow> string" where
  "wifi_mgr_sta_dns len info = (case info of Some ip \<Rightarrow> strlcpy len ip | None \<Rightarrow> strlcpy len ''0.0.0.0'')"

section \<open>Scanning\<close>

record wifi_scan_entry =
  ap_ssid :: string
  ap_rssi :: int
  ap_authmode :: nat

text \<open>The loop over the records the driver found: \<open>out\<close> is what has been kept.\<close>

fun scan_collect :: "nat \<Rightarrow> wifi_scan_entry list \<Rightarrow> wifi_scan_entry list \<Rightarrow> wifi_scan_entry list" where
  "scan_collect room out [] = out"
| "scan_collect room out (r # recs) =
     (if \<not> length out < room then out
      else if (\<exists>o' \<in> set out. ap_ssid o' = ap_ssid r) \<or> ap_ssid r = [] then scan_collect room out recs
      else scan_collect room (out @ [r\<lparr>ap_ssid := strlcpy 33 (ap_ssid r)\<rparr>]) recs)"

text \<open>\<open>None\<close> is the result -1: the scan does not start, or there is no memory for the records.\<close>

definition wifi_mgr_scan :: "bool \<Rightarrow> bool \<Rightarrow> wifi_scan_entry list \<Rightarrow> nat \<Rightarrow> wifi_scan_entry list option" where
  "wifi_mgr_scan started memory recs room =
     (if \<not> started then None
      else if recs = [] then Some []
      else if \<not> memory then None
      else Some (scan_collect room [] recs))"

section \<open>Addressing\<close>

record wifi_mgr_ipv4 =
  v4_hostname :: string
  v4_static :: bool
  v4_ip :: string
  v4_mask :: string
  v4_gw :: string
  v4_dns :: string

datatype netif_call =
    Netif_hostname string
  | Dhcpc_start
  | Dhcpc_stop
  | Set_ip_info u32 u32 u32
  | Set_dns u32

datatype netif_err = Netif_ok | Invalid_state | Invalid_arg | Already_started | Netif_error int

text \<open>\<open>aton\<close> is \<^verbatim>\<open>esp_ip4addr_aton\<close>; \<open>dhcp\<close> and \<open>set_ip\<close> are what starting the DHCP client and setting
  the address return. A null string is an empty one here: the code treats them alike.\<close>

definition wifi_mgr_set_ipv4 ::
    "(string \<Rightarrow> u32) \<Rightarrow> bool \<Rightarrow> netif_err \<Rightarrow> netif_err \<Rightarrow> wifi_mgr_ipv4 \<Rightarrow> netif_err \<times> netif_call list" where
  "wifi_mgr_set_ipv4 aton netif dhcp set_ip c =
     (if \<not> netif then (Invalid_state, [])
      else
        let calls = (if v4_hostname c \<noteq> [] then [Netif_hostname (v4_hostname c)] else [])
        in if \<not> v4_static c then
             (if dhcp = Already_started then Netif_ok else dhcp, calls @ [Dhcpc_start])
           else if v4_ip c = [] then (Invalid_arg, calls)
           else
             let mask_text = (if v4_mask c \<noteq> [] then v4_mask c else ''255.255.255.0'');
                 gw = (if v4_gw c \<noteq> [] then aton (v4_gw c) else 0);
                 calls = calls @ [Dhcpc_stop, Set_ip_info (aton (v4_ip c)) (aton mask_text) gw]
             in if set_ip \<noteq> Netif_ok then (set_ip, calls @ [Dhcpc_start])
                else
                  let dns = (if v4_dns c \<noteq> [] then v4_dns c else v4_gw c)
                  in (Netif_ok, calls @ (if dns \<noteq> [] then [Set_dns (aton dns)] else [])))"


section \<open>The manager as a transition system\<close>

text \<open>Its inputs, the supervisor and its callers, in any order. The program starts and stops an access
  point itself only while the fallback one is down: in access-point mode and around the setup portal.\<close>

inductive wifi_step :: "byte \<times> byte \<Rightarrow> wifi \<Rightarrow> wifi \<Rightarrow> bool" for mac where
  input: "wifi_step mac w (wifi_input_step i w)"
| initialise: "wifi_step mac w (wifi_mgr_init w)"
| connect: "wifi_step mac w (sta_connect_request ssid pass w)"
| tick: "fb_task w \<Longrightarrow> wifi_step mac w (fallback_tick mac w)"
| set_fallback: "wifi_step mac w (wifi_mgr_set_fallback_ap mac created enabled ssid pass after w)"
| ap_start: "\<not> fb_ap_up w \<Longrightarrow> wifi_step mac w (snd (wifi_mgr_ap_start mac ssid pass w))"
| ap_stop: "\<not> fb_ap_up w \<Longrightarrow> wifi_step mac w (wifi_mgr_ap_stop w)"

inductive wifi_reachable :: "byte \<times> byte \<Rightarrow> wifi \<Rightarrow> bool" for mac where
  boot: "wifi_reachable mac wifi0"
| further: "wifi_reachable mac w \<Longrightarrow> wifi_step mac w w' \<Longrightarrow> wifi_reachable mac w'"

named_theorems wifi_parts "what each operation does to the parts of the state"

lemmas wifi_prims = call_def esp_wifi_connect_def esp_timer_stop_def esp_timer_start_once_def

definition backoff_ok :: "u32 \<Rightarrow> bool" where
  "backoff_ok b \<longleftrightarrow> BACKOFF_MIN_MS \<le> b \<and> b \<le> BACKOFF_MAX_MS"

definition next_backoff :: "u32 \<Rightarrow> u32" where
  "next_backoff b = (if b < BACKOFF_MAX_MS then if b * 2 > BACKOFF_MAX_MS then BACKOFF_MAX_MS else b * 2 else b)"

lemma next_backoff_nat:
  assumes "backoff_ok b"
  shows "unat (next_backoff b) = min 30000 (2 * unat b)"
proof -
  have b: "unat b \<le> 30000" using assms by (simp add: backoff_ok_def BACKOFF_MAX_MS_def word_le_nat_alt)
  then have d: "unat (b * 2) = unat b * 2" by (subst unat_mult_lem [THEN iffD1]) simp_all
  show ?thesis using b d by (auto simp: next_backoff_def BACKOFF_MAX_MS_def word_less_nat_alt)
qed

lemma next_backoff_ok: "backoff_ok b \<Longrightarrow> backoff_ok (next_backoff b)"
  using next_backoff_nat [of b]
  by (simp add: backoff_ok_def BACKOFF_MIN_MS_def BACKOFF_MAX_MS_def word_le_nat_alt)

lemma backoff_ok_min [simp]: "backoff_ok BACKOFF_MIN_MS"
  by (simp add: backoff_ok_def BACKOFF_MIN_MS_def BACKOFF_MAX_MS_def)

lemma reconnect_later_made:
  "w_timer w \<or> created \<Longrightarrow> reconnect_later created w =
     (esp_timer_start_once (w_backoff w) (esp_timer_stop (w\<lparr>w_timer := True\<rparr>)))\<lparr>w_backoff := next_backoff (w_backoff w)\<rparr>"
  by (auto simp: reconnect_later_def next_backoff_def wifi_prims Let_def)

lemma reconnect_later_unmade:
  "\<not> (w_timer w \<or> created) \<Longrightarrow> reconnect_later created w = esp_wifi_connect w"
  by (simp add: reconnect_later_def)

definition wifi_inv :: "wifi \<Rightarrow> bool" where
  "wifi_inv w \<longleftrightarrow> backoff_ok (w_backoff w) \<and> (fb_ap_up w \<longrightarrow> w_ap_up w) \<and> \<not> (w_connected w \<and> w_failed w) \<and>
     (w_want w \<longrightarrow> w_connected w \<or> w_asked w \<or> w_armed w \<noteq> None) \<and> (w_armed w \<noteq> None \<longrightarrow> w_timer w) \<and>
     (\<not> w_connected w \<and> \<not> w_asked w \<longrightarrow> w_ip w = ''0.0.0.0'')"

lemma inv_reconnect:
  assumes "backoff_ok (w_backoff w)" "fb_ap_up w \<longrightarrow> w_ap_up w" "\<not> w_connected w" "w_ip w = ''0.0.0.0''"
    "w_armed w \<noteq> None \<longrightarrow> w_timer w"
  shows "wifi_inv (reconnect_later created w)"
  using assms next_backoff_ok [of "w_backoff w"]
  by (cases "w_timer w \<or> created")
    (auto simp: reconnect_later_made reconnect_later_unmade wifi_inv_def wifi_prims)

lemma inv_disconnected: "wifi_inv w \<Longrightarrow> wifi_inv (on_event created STA_DISCONNECTED w)"
proof -
  assume w: "wifi_inv w"
  let ?w = "w\<lparr>w_ip := ''0.0.0.0'', w_connected := False, w_asked := False\<rparr>"
  let ?r = "?w\<lparr>w_retries := w_retries w + 1\<rparr>"
  let ?f = "if w_retries w + 1 = MAX_RETRY then ?r\<lparr>w_failed := True\<rparr> else ?r"
  show ?thesis
  proof (cases "w_want w")
    case True
    have "on_event created STA_DISCONNECTED w = reconnect_later created ?f"
      using True by (simp add: on_event_def Let_def)
    moreover have "wifi_inv (reconnect_later created ?f)"
      using w by (intro inv_reconnect) (simp_all add: wifi_inv_def)
    ultimately show ?thesis by simp
  next
    case False
    then show ?thesis using w by (simp add: on_event_def Let_def wifi_inv_def)
  qed
qed

lemma inv_asks: "wifi_inv w \<Longrightarrow> wifi_inv (esp_wifi_connect w)"
  by (simp add: wifi_inv_def wifi_prims)

lemma inv_event: "wifi_inv w \<Longrightarrow> wifi_inv (on_event created e w)"
proof (cases e)
  case STA_START
  then show "wifi_inv w \<Longrightarrow> ?thesis" by (simp add: on_event_def inv_asks)
next
  case (STA_GOT_IP ip)
  assume "wifi_inv w"
  then show ?thesis unfolding STA_GOT_IP
    by (cases "w_timer w") (simp_all add: on_event_def Let_def wifi_inv_def wifi_prims)
next
  case STA_DISCONNECTED
  then show "wifi_inv w \<Longrightarrow> ?thesis" by (simp only: inv_disconnected)
qed (simp add: on_event_def)

lemma inv_timer: "wifi_inv w \<Longrightarrow> w_armed w \<noteq> None \<Longrightarrow> wifi_inv (retry_timer_cb w)"
  by (cases "w_want w") (simp_all add: retry_timer_cb_def wifi_inv_def wifi_prims)

lemma inv_input: "wifi_inv w \<Longrightarrow> wifi_inv (wifi_input_step i w)"
  by (cases i) (simp_all add: wifi_input_step_def inv_event inv_timer)

lemma inv_init: "wifi_inv w \<Longrightarrow> wifi_inv (wifi_mgr_init w)"
  by (auto simp: wifi_mgr_init_def wifi_inv_def wifi_prims)

lemma inv_connect: "wifi_inv w \<Longrightarrow> wifi_inv (sta_connect_request ssid pass w)"
  by (auto simp: sta_connect_request_def wifi_inv_def wifi_prims Let_def)

lemma inv_ap_start: "wifi_inv w \<Longrightarrow> wifi_inv (snd (wifi_mgr_ap_start mac ssid pass w))"
  by (auto simp: wifi_mgr_ap_start_def wifi_inv_def wifi_prims Let_def)

lemma inv_ap_stop: "wifi_inv w \<Longrightarrow> \<not> fb_ap_up w \<Longrightarrow> wifi_inv (wifi_mgr_ap_stop w)"
  by (auto simp: wifi_mgr_ap_stop_def wifi_inv_def wifi_prims Let_def)

lemma inv_fb_down: "wifi_inv w \<Longrightarrow> wifi_inv (w\<lparr>fb_ap_up := False\<rparr>)"
  by (simp add: wifi_inv_def)

lemma inv_fb_up: "wifi_inv w \<Longrightarrow> w_ap_up w \<Longrightarrow> wifi_inv (w\<lparr>fb_ap_up := True\<rparr>)"
  by (simp add: wifi_inv_def)

lemma inv_down_ms: "wifi_inv (w\<lparr>down_ms := d\<rparr>) = wifi_inv w"
  by (simp add: wifi_inv_def)

lemma inv_set_down: "wifi_inv w \<Longrightarrow> wifi_inv (w\<lparr>down_ms := d\<rparr>)"
  by (simp add: inv_down_ms)

lemma inv_raise: "wifi_inv w \<Longrightarrow> wifi_inv (snd (wifi_mgr_ap_start mac ssid pass w)\<lparr>fb_ap_up := True\<rparr>)"
  by (simp add: wifi_inv_def wifi_mgr_ap_start_def wifi_prims Let_def)

lemma fallback_tick_cases:
  "fallback_tick mac w =
     (if \<not> fb_enabled w \<or> (w_ap_up w \<and> \<not> fb_ap_up w) then w\<lparr>down_ms := 0\<rparr>
      else if w_connected w then
        (if fb_ap_up w then wifi_mgr_ap_stop (w\<lparr>down_ms := 0, fb_ap_up := False\<rparr>) else w\<lparr>down_ms := 0\<rparr>)
      else if fb_ap_up w then w
      else if down_ms w + FALLBACK_TICK_MS < fb_after w then w\<lparr>down_ms := down_ms w + FALLBACK_TICK_MS\<rparr>
      else (snd (wifi_mgr_ap_start mac (Some (fb_ssid w)) (Some (fb_pass w)) (w\<lparr>down_ms := down_ms w + FALLBACK_TICK_MS\<rparr>)))
             \<lparr>fb_ap_up := True\<rparr>)"
  by (simp add: fallback_tick_def wifi_mgr_sta_connected_def Let_def wifi_mgr_ap_start_def)

lemma inv_tick: "wifi_inv w \<Longrightarrow> wifi_inv (fallback_tick mac w)"
  unfolding fallback_tick_cases
  by (simp add: inv_down_ms inv_raise inv_ap_stop inv_fb_down)

lemma inv_settings:
  "wifi_inv w \<Longrightarrow> wifi_inv (w\<lparr>fb_ssid := a, fb_pass := b, fb_after := c, fb_enabled := d\<rparr>)"
  by (simp add: wifi_inv_def)

lemma inv_set_fallback: "wifi_inv w \<Longrightarrow> wifi_inv (wifi_mgr_set_fallback_ap mac created enabled ssid pass after w)"
proof -
  assume "wifi_inv w"
  then have s: "wifi_inv (w\<lparr>fb_ssid := a, fb_pass := b, fb_after := c, fb_enabled := d\<rparr>)" for a b c d
    by (rule inv_settings)
  have rest: "wifi_inv (if \<not> enabled then (if fb_ap_up v then wifi_mgr_ap_stop (v\<lparr>fb_ap_up := False\<rparr>) else v)
         else if \<not> fb_task v then (if \<not> created then v\<lparr>fb_enabled := False\<rparr> else v\<lparr>fb_task := True\<rparr>)
         else v)" if "wifi_inv v" for v
    using that inv_ap_stop [OF inv_fb_down [OF that]] by (simp add: wifi_inv_def)
  show ?thesis unfolding wifi_mgr_set_fallback_ap_def Let_def by (rule rest [OF s])
qed

lemma inv_step: "wifi_step mac w w' \<Longrightarrow> wifi_inv w \<Longrightarrow> wifi_inv w'"
  by (induction rule: wifi_step.induct)
    (simp_all add: inv_input inv_init inv_connect inv_tick inv_set_fallback inv_ap_start inv_ap_stop)

lemma inv_reachable: "wifi_reachable mac w \<Longrightarrow> wifi_inv w"
proof (induction rule: wifi_reachable.induct)
  case boot
  show ?case by (simp add: wifi_inv_def wifi0_def)
next
  case (further w w')
  then show ?case using inv_step by blast
qed


section \<open>Retries\<close>

text \<open>One failed attempt: the retry timer, if it is armed, asks for a connection, and the driver
  reports that it did not work.\<close>

definition failed_attempt :: "wifi \<Rightarrow> wifi" where
  "failed_attempt w = on_event True STA_DISCONNECTED (wifi_input_step Timer_fires w)"

definition attempts_left :: "nat \<Rightarrow> wifi \<Rightarrow> bool" where
  "attempts_left n w \<longleftrightarrow> w_want w \<and> w_retries w = int n \<and> w_failed w = (8 \<le> n) \<and>
     unat (w_backoff w) = min 30000 (1000 * 2 ^ n) \<and> w_connected w = False"

lemma attempts_left_ok: "attempts_left n w \<Longrightarrow> backoff_ok (w_backoff w)"
  by (auto simp: attempts_left_def backoff_ok_def BACKOFF_MIN_MS_def BACKOFF_MAX_MS_def word_le_nat_alt)

lemma attempts_left_timer: "attempts_left n w \<Longrightarrow> attempts_left n (wifi_input_step Timer_fires w)"
  by (simp add: attempts_left_def wifi_input_step_def retry_timer_cb_def Let_def wifi_prims)

lemma disconnected_wanted:
  assumes "attempts_left n w"
  shows "attempts_left (Suc n) (on_event True STA_DISCONNECTED w) \<and>
         w_armed (on_event True STA_DISCONNECTED w) = Some (w_backoff w)"
proof -
  have b: "min 30000 (2 * min 30000 (1000 * 2 ^ n)) = min 30000 (2000 * 2 ^ n :: nat)" by simp
  show ?thesis
    using assms next_backoff_nat [OF attempts_left_ok [OF assms]]
    by (cases "n = 7")
      (auto simp add: attempts_left_def on_event_def Let_def reconnect_later_made wifi_prims MAX_RETRY_def b)
qed

lemma failed_attempt_left:
  "attempts_left n w \<Longrightarrow> attempts_left (Suc n) (failed_attempt w) \<and> w_armed (failed_attempt w) = Some (w_backoff w)"
  using disconnected_wanted [OF attempts_left_timer]
  by (simp add: failed_attempt_def wifi_input_step_def retry_timer_cb_def Let_def wifi_prims)

lemma request_left: "attempts_left 0 (sta_connect_request ssid pass w)"
  by (simp add: attempts_left_def sta_connect_request_def Let_def wifi_prims BACKOFF_MIN_MS_def)

lemma failed_attempts_left:
  "attempts_left n ((failed_attempt ^^ n) (sta_connect_request ssid pass w))"
  by (induction n) (simp_all add: request_left failed_attempt_left)

section \<open>The supervisor's clock\<close>

definition fallback_waiting :: "wifi \<Rightarrow> bool" where
  "fallback_waiting w \<longleftrightarrow> fb_enabled w \<and> \<not> w_ap_up w \<and> \<not> fb_ap_up w \<and> \<not> w_connected w"

lemma tick_down:
  assumes "fallback_waiting w" "unat (down_ms w) + 2000 < unat (fb_after w)"
  shows "fallback_tick mac w = w\<lparr>down_ms := down_ms w + FALLBACK_TICK_MS\<rparr>"
proof -
  have "unat (fb_after w) < 2 ^ LENGTH(32)" by (rule unsigned_less)
  then have "unat (down_ms w) + 2000 < 2 ^ 32" using assms(2) by simp
  then have "unat (down_ms w + 2000) = unat (down_ms w) + 2000"
    by (subst unat_add_lem [THEN iffD1]) simp_all
  then have "down_ms w + FALLBACK_TICK_MS < fb_after w"
    using assms(2) by (simp add: word_less_nat_alt FALLBACK_TICK_MS_def)
  then show ?thesis using assms(1) by (simp add: fallback_tick_cases fallback_waiting_def)
qed

lemma tick_raises:
  assumes "fallback_waiting w" "unat (fb_after w) \<le> unat (down_ms w) + 2000" "unat (down_ms w) + 2000 < 2 ^ 32"
  shows "fb_ap_up (fallback_tick mac w) \<and> fb_enabled (fallback_tick mac w) \<and> \<not> w_connected (fallback_tick mac w)"
proof -
  have "unat (down_ms w + 2000) = unat (down_ms w) + 2000"
    using assms(3) by (subst unat_add_lem [THEN iffD1]) simp_all
  then have "\<not> down_ms w + FALLBACK_TICK_MS < fb_after w"
    using assms(2) by (simp add: word_less_nat_alt FALLBACK_TICK_MS_def)
  then show ?thesis using assms(1)
    by (simp add: fallback_tick_cases fallback_waiting_def wifi_mgr_ap_start_def Let_def wifi_prims)
qed

lemma tick_stays:
  "fb_ap_up w \<and> fb_enabled w \<and> \<not> w_connected w \<Longrightarrow> fallback_tick mac w = w"
  by (simp add: fallback_tick_cases)

lemma ticks:
  assumes "fallback_waiting w" "down_ms w = 0" "0 < fb_after w" "unat (fb_after w) + 2000 < 2 ^ 32"
  shows "if 2000 * k < unat (fb_after w) then (fallback_tick mac ^^ k) w = w\<lparr>down_ms := of_nat (2000 * k)\<rparr>
         else fb_ap_up ((fallback_tick mac ^^ k) w) \<and> fb_enabled ((fallback_tick mac ^^ k) w) \<and>
              \<not> w_connected ((fallback_tick mac ^^ k) w)"
proof (induction k)
  case 0
  then show ?case using assms(2,3) by (simp add: word_less_nat_alt)
next
  case (Suc k)
  let ?w = "w\<lparr>down_ms := of_nat (2000 * k)\<rparr>"
  have w: "fallback_waiting ?w" using assms(1) by (simp add: fallback_waiting_def)
  show ?case
  proof (cases "2000 * k < unat (fb_after w)")
    case True
    then have k: "unat (of_nat (2000 * k) :: u32) = 2000 * k"
      using assms(4) by (simp add: unsigned_of_nat take_bit_nat_eq_self del: of_nat_mult)
    have e: "(fallback_tick mac ^^ k) w = ?w" using Suc True by simp
    show ?thesis
    proof (cases "2000 * Suc k < unat (fb_after w)")
      case t: True
      have "fallback_tick mac ?w = ?w\<lparr>down_ms := of_nat (2000 * k) + FALLBACK_TICK_MS\<rparr>"
        using tick_down [OF w] t k by simp
      then show ?thesis using t e by (simp add: FALLBACK_TICK_MS_def algebra_simps)
    next
      case f: False
      then show ?thesis using tick_raises [OF w, of mac] k e True assms(4) by simp
    qed
  next
    case False
    then show ?thesis using Suc tick_stays by simp
  qed
qed

section \<open>The scan as a selection\<close>

fun first_of_each :: "wifi_scan_entry list \<Rightarrow> wifi_scan_entry list" where
  "first_of_each [] = []"
| "first_of_each (r # recs) = r # first_of_each [r' \<leftarrow> recs. ap_ssid r' \<noteq> ap_ssid r]"

lemma scan_collect_selects:
  assumes "length out \<le> room" "\<forall>r \<in> set recs. length (ap_ssid r) \<le> 32"
  shows "scan_collect room out recs =
    take room (out @ first_of_each [r \<leftarrow> recs. ap_ssid r \<noteq> [] \<and> (\<forall>o' \<in> set out. ap_ssid o' \<noteq> ap_ssid r)])"
  using assms
proof (induction recs arbitrary: out)
  case (Cons r recs)
  have r: "r\<lparr>ap_ssid := strlcpy 33 (ap_ssid r)\<rparr> = r" using Cons.prems(2) by (simp add: strlcpy_fits)
  consider "length out = room" | "length out < room" "(\<exists>o' \<in> set out. ap_ssid o' = ap_ssid r) \<or> ap_ssid r = []"
    | "length out < room" "\<not> ((\<exists>o' \<in> set out. ap_ssid o' = ap_ssid r) \<or> ap_ssid r = [])"
    using Cons.prems(1) by linarith
  then show ?case
  proof cases
    case 2
    then show ?thesis using Cons by auto
  next
    case 3
    have f: "[r' \<leftarrow> recs. ap_ssid r' \<noteq> [] \<and> (\<forall>o' \<in> set (out @ [r]). ap_ssid o' \<noteq> ap_ssid r')] =
      [r' \<leftarrow> [r' \<leftarrow> recs. ap_ssid r' \<noteq> [] \<and> (\<forall>o' \<in> set out. ap_ssid o' \<noteq> ap_ssid r')]. ap_ssid r' \<noteq> ap_ssid r]"
      unfolding filter_filter by (rule filter_cong) auto
    have "scan_collect room (out @ [r]) recs = take room ((out @ [r]) @ first_of_each
        [r' \<leftarrow> recs. ap_ssid r' \<noteq> [] \<and> (\<forall>o' \<in> set (out @ [r]). ap_ssid o' \<noteq> ap_ssid r')])"
      using 3 Cons.prems by (intro Cons.IH) simp_all
    moreover have "scan_collect room out (r # recs) = scan_collect room (out @ [r]) recs"
      using 3 r by simp
    moreover have "\<forall>o' \<in> set out. ap_ssid o' \<noteq> ap_ssid r" "ap_ssid r \<noteq> []" using 3(2) by auto
    ultimately show ?thesis unfolding f by simp
  qed simp
qed simp

section \<open>Properties\<close>


definition ex_mac :: "byte \<times> byte" where "ex_mac = (0x0A, 0xF3)"

definition ex_lost :: wifi where
  "ex_lost = wifi_input_step (Event True STA_DISCONNECTED) (sta_connect_request ''home'' (Some ''secret12'') wifi0)"


text \<open>After a connection request, the retry that follows the n-th failed attempt in a row is armed
  for 1000 ms doubled n - 1 times, capped at 30 seconds, for ever; the caller is told of failure from
  the eighth on.\<close>

theorem retry_delays:
  "w_armed ((failed_attempt ^^ Suc n) (sta_connect_request ssid pass w)) =
     Some (word_of_nat (min 30000 (1000 * 2 ^ n))) \<and>
   w_failed ((failed_attempt ^^ Suc n) (sta_connect_request ssid pass w)) = (8 \<le> Suc n)"
proof -
  let ?w = "(failed_attempt ^^ n) (sta_connect_request ssid pass w)"
  have l: "attempts_left n ?w" by (rule failed_attempts_left)
  then have "unat (w_backoff ?w) = min 30000 (1000 * 2 ^ n)" by (simp add: attempts_left_def)
  then have "w_backoff ?w = word_of_nat (min 30000 (1000 * 2 ^ n))" by (metis of_nat_unat ucast_id)
  then show ?thesis using failed_attempt_left [OF l] by (simp add: attempts_left_def)
qed

text \<open>While the station stays down, the supervisor raises the fallback access point exactly at the
  first of its two-second ticks at which the configured delay has passed.\<close>

theorem fallback_raised_on_time:
  assumes "fallback_waiting w" "down_ms w = 0" "0 < fb_after w" "unat (fb_after w) + 2000 < 2 ^ 32"
  shows "fb_ap_up ((fallback_tick mac ^^ k) w) \<longleftrightarrow> unat (fb_after w) \<le> 2000 * k"
  using ticks [OF assms, of k mac] assms(1)
  by (cases "2000 * k < unat (fb_after w)") (simp_all add: fallback_waiting_def)

theorem fallback_raised_on_time_witness:
  "\<not> fb_ap_up ((fallback_tick ex_mac ^^ 29) (wifi0\<lparr>fb_enabled := True, fb_after := 60000\<rparr>)) \<and>
   fb_ap_up ((fallback_tick ex_mac ^^ 30) (wifi0\<lparr>fb_enabled := True, fb_after := 60000\<rparr>))"
proof -
  let ?w = "wifi0\<lparr>fb_enabled := True, fb_after := 60000\<rparr>"
  have h: "fallback_waiting ?w" "down_ms ?w = 0" "0 < fb_after ?w" "unat (fb_after ?w) + 2000 < 2 ^ 32"
    by (simp_all add: fallback_waiting_def wifi0_def)
  show ?thesis using fallback_raised_on_time [OF h, where mac = ex_mac and k = 29]
      fallback_raised_on_time [OF h, where mac = ex_mac and k = 30] by (simp del: funpow.simps add: wifi0_def)
qed

text \<open>The network list is the first record of each name the driver found, in its order, hidden
  networks left out, as many as there is room for.\<close>

theorem scan_lists_each_network_once:
  assumes "\<forall>r \<in> set recs. length (ap_ssid r) \<le> 32"
  shows "wifi_mgr_scan True True recs room = Some (take room (first_of_each [r \<leftarrow> recs. ap_ssid r \<noteq> []]))"
  using scan_collect_selects [of "[]" room recs] assms by (simp add: wifi_mgr_scan_def)

definition ex_recs :: "wifi_scan_entry list" where
  "ex_recs = [\<lparr>ap_ssid = ''home'', ap_rssi = -40, ap_authmode = 3\<rparr>, \<lparr>ap_ssid = [], ap_rssi = -50, ap_authmode = 3\<rparr>,
     \<lparr>ap_ssid = ''home'', ap_rssi = -60, ap_authmode = 3\<rparr>, \<lparr>ap_ssid = ''cafe'', ap_rssi = -70, ap_authmode = 0\<rparr>]"

theorem scan_lists_each_network_once_witness:
  "wifi_mgr_scan True True ex_recs 16 = Some [ex_recs ! 0, ex_recs ! 3]"
  using scan_lists_each_network_once [of ex_recs 16] by (simp add: ex_recs_def)

end
