(* ===== verification/Web_Settings.thy ===== *)
theory Web_Settings
  imports Web_Auth Wifi_Mgr Bridge_Main
begin

text \<open>
  The settings a browser can change, the larger handlers of \<^verbatim>\<open>components/provisioning/provisioning.c\<close>: the
  sections of \<^verbatim>\<open>h_admin_reconfigure\<close>, the Proxmox hosts and guest rules it reads from a form, the
  change of the admin login and the setup portal.

  \<open>web\<close> is the server's state \<^verbatim>\<open>P\<close> with the session table and the flash store; what a handler asks of
  other tasks and components is appended to \<open>wb_calls\<close>. SHA-256, the random source, the allocator, the
  flash store, the MAC address and the clock are the environment. What an early error leaves in
  \<^verbatim>\<open>P.pending\<close> is modelled where a later handler can read it.

  The lemmas show that the stored configuration keeps the shape its image needs, that a refused form
  changes nothing, and what an accepted network or Proxmox form guarantees.
\<close>

section \<open>State and environment\<close>

datatype prov_state = ST_IDLE | ST_CONNECTING | ST_CONNECTED | ST_FAILED

datatype web_call =
    Call_reboot
  | Call_restart
  | Call_pve_reconfigure pve_config u16 "pve_guest list list"
  | Call_notify_reconfigure notify_config
  | Call_connect_task
  | Call_sta_connect string string
  | Call_led_reinit int
  | Call_led_enable bool
  | Call_led_identify
  | Call_set_controls bool
  | Call_set_verbose bool
  | Call_log_output bool
  | Call_write_control string int
  | Call_update_start string
  | Call_ble_scan int
  | Call_flash_image string
  | Call_note_test int bool string
  | Call_ble_scan_stop
  | Call_done

record 's web =
  wb_cfg :: app_config
  wb_pending :: app_config
  wb_nvs :: 's
  wb_sessions :: "session list"
  wb_state :: prov_state
  wb_detail :: string
  wb_calls :: "web_call list"

record 's web_env =
  we_sha :: "byte list \<Rightarrow> byte list"
  we_random :: "byte list"
  we_memory :: bool
  we_nv :: "'s nvs"
  we_mac :: "byte \<times> byte"
  we_now :: int

definition web_call :: "web_call \<Rightarrow> 's web \<Rightarrow> 's web" where
  "web_call c w = w\<lparr>wb_calls := wb_calls w @ [c]\<rparr>"

definition default_ssid :: "'s web_env \<Rightarrow> string" where
  "default_ssid E = wifi_mgr_default_ap_ssid (we_mac E) 33"

text \<open>A number of a form as the code narrows it to a field.\<close>

definition form_int :: "string \<Rightarrow> string \<Rightarrow> nat \<Rightarrow> int" where
  "form_int body key n = atoi (form_value body key n)"

definition form_num :: "string \<Rightarrow> string \<Rightarrow> nat \<Rightarrow> int \<Rightarrow> bool" where
  "form_num body key n low \<longleftrightarrow> fst (form_get body key n) \<and> form_int body key n \<ge> low"

section \<open>Sections\<close>

text \<open>Each takes the pending configuration and gives the new one, or the refusal.\<close>

definition section_bluetti :: "string \<Rightarrow> app_config \<Rightarrow> string + app_config" where
  "section_bluetti body p =
     (let p = (if fst (form_get body ''ble_addr'' 128) then p\<lparr>ac_ble_addr := strlcpy 18 (form_value body ''ble_addr'' 128)\<rparr> else p)
      in if \<not> is_mac_addr (ac_ble_addr p)
         then Inl ''pick a device, or enter its address as AA:BB:CC:DD:EE:FF''
         else Inr p)"

definition section_nut :: "'s web_env \<Rightarrow> string \<Rightarrow> app_config \<Rightarrow> string + app_config" where
  "section_nut E body p =
     (let p = (if form_given body ''ups_name'' 128 then p\<lparr>ac_ups_name := strlcpy 32 (form_value body ''ups_name'' 128)\<rparr> else p);
          p = (if form_num body ''nut_port'' 128 1 then p\<lparr>ac_nut_port := word_of_int (form_int body ''nut_port'' 128)\<rparr> else p);
          p = (if form_num body ''low_pct'' 128 1 then p\<lparr>ac_low_pct := word_of_int (form_int body ''low_pct'' 128)\<rparr> else p);
          p = (if form_num body ''ac_rating_w'' 128 1 then p\<lparr>ac_ac_rating_w := word_of_int (form_int body ''ac_rating_w'' 128)\<rparr> else p);
          p = (if form_num body ''battery_wh'' 128 0 then p\<lparr>ac_battery_wh := word_of_int (form_int body ''battery_wh'' 128)\<rparr> else p);
          p = (if form_num body ''runtime_low_s'' 128 0 then p\<lparr>ac_runtime_low_s := word_of_int (form_int body ''runtime_low_s'' 128)\<rparr> else p);
          p = (if form_given body ''nut_user'' 128 then p\<lparr>ac_nut_user := strlcpy 33 (form_value body ''nut_user'' 128)\<rparr> else p);
          p = (if form_given body ''nut_pass'' 128
               then app_config_set_nut_password (we_sha E) (we_random E) p (Some (form_value body ''nut_pass'' 128)) else p);
          p = (if form_set body ''nut_noauth'' 128
               then app_config_set_nut_password (we_sha E) (we_random E) p (Some []) else p)
      in Inr p)"

text \<open>The two halves of the network section, after the host name.\<close>

definition wifi_section_ap :: "'s web_env \<Rightarrow> string \<Rightarrow> app_config \<Rightarrow> string + app_config" where
  "wifi_section_ap E body p =
     (let p = p\<lparr>ac_wifi_mode := APP_WIFI_AP, ac_ap_ssid := form_value body ''ap_ssid'' 33\<rparr>;
          p = (if form_given body ''ap_pass'' 128 then p\<lparr>ac_ap_pass := strlcpy 65 (form_value body ''ap_pass'' 128)\<rparr> else p);
          p = (if form_set body ''ap_open'' 128 then p\<lparr>ac_ap_pass := []\<rparr> else p)
      in if length (ac_ap_pass p) > 0 \<and> length (ac_ap_pass p) < 8 then Inl ''AP password must be 8+ characters''
         else Inr (if ac_ap_ssid p = [] then p\<lparr>ac_ap_ssid := default_ssid E\<rparr> else p))"

definition read_station :: "string \<Rightarrow> app_config \<Rightarrow> app_config" where
  "read_station body p =
     (let p = p\<lparr>ac_wifi_mode := APP_WIFI_STATION, ac_wifi_ssid := form_value body ''wifi_ssid'' 33\<rparr>;
          p = (if form_given body ''wifi_pass'' 128 then p\<lparr>ac_wifi_pass := strlcpy 65 (form_value body ''wifi_pass'' 128)\<rparr> else p);
          p = (if form_set body ''wifi_open'' 128 then p\<lparr>ac_wifi_pass := []\<rparr> else p);
          p = p\<lparr>ac_use_static_ip := form_set body ''use_static_ip'' 128\<rparr>;
          p = (if ac_use_static_ip p then
                 p\<lparr>ac_static_ip := form_value body ''static_ip'' 16, ac_static_mask := form_value body ''static_mask'' 16,
                   ac_static_gw := form_value body ''static_gw'' 16, ac_static_dns := form_value body ''static_dns'' 16\<rparr>
               else p);
          p = p\<lparr>ac_fb_ap_enabled := form_set body ''fb_ap'' 128\<rparr>
      in if ac_fb_ap_enabled p then
           (let p = p\<lparr>ac_fb_ap_ssid := form_value body ''fb_ap_ssid'' 33\<rparr>;
                p = (if form_given body ''fb_ap_pass'' 128
                     then p\<lparr>ac_fb_ap_pass := strlcpy 65 (form_value body ''fb_ap_pass'' 128)\<rparr> else p)
            in if form_set body ''fb_ap_open'' 128 then p\<lparr>ac_fb_ap_pass := []\<rparr> else p)
         else p)"

definition check_fallback :: "'s web_env \<Rightarrow> app_config \<Rightarrow> string + app_config" where
  "check_fallback E p =
     (if ac_fb_ap_enabled p then
        if length (ac_fb_ap_pass p) > 0 \<and> length (ac_fb_ap_pass p) < 8
        then Inl ''fallback AP password must be 8+ characters''
        else Inr (if ac_fb_ap_ssid p = [] then p\<lparr>ac_fb_ap_ssid := default_ssid E\<rparr> else p)
      else Inr p)"

definition check_static :: "app_config \<Rightarrow> string + app_config" where
  "check_static p =
     (if \<not> ac_use_static_ip p then Inr p
      else if \<not> valid_ipv4 (ac_static_ip p) then Inl ''static IP is not a valid IPv4 address''
      else if ac_static_mask p \<noteq> [] \<and> \<not> valid_ipv4 (ac_static_mask p) then Inl ''subnet mask is not valid''
      else
        let p = (if ac_static_mask p = [] then p\<lparr>ac_static_mask := strlcpy 16 ''255.255.255.0''\<rparr> else p)
        in if ac_static_gw p \<noteq> [] \<and> \<not> valid_ipv4 (ac_static_gw p) then Inl ''gateway is not a valid IPv4 address''
           else if ac_static_dns p \<noteq> [] \<and> \<not> valid_ipv4 (ac_static_dns p) then Inl ''DNS server is not a valid IPv4 address''
           else Inr p)"

definition wifi_section_station :: "'s web_env \<Rightarrow> string \<Rightarrow> app_config \<Rightarrow> string + app_config" where
  "wifi_section_station E body p =
     (case check_fallback E (read_station body p) of
        Inl e \<Rightarrow> Inl e
      | Inr p \<Rightarrow> if ac_wifi_ssid p = [] then Inl ''pick a Wi-Fi network'' else check_static p)"

definition section_wifi :: "'s web_env \<Rightarrow> string \<Rightarrow> app_config \<Rightarrow> string + app_config" where
  "section_wifi E body p =
     (let p = (if form_given body ''hostname'' 128 then p\<lparr>ac_hostname := strlcpy 33 (form_value body ''hostname'' 128)\<rparr> else p)
      in if form_value body ''wifi_mode'' 8 = ''ap'' then wifi_section_ap E body p else wifi_section_station E body p)"

definition section_notify :: "string \<Rightarrow> app_config \<Rightarrow> string + app_config" where
  "section_notify body p =
     (let p = (if form_given body ''tg_token'' 128 then p\<lparr>ac_tg_token := strlcpy 64 (form_value body ''tg_token'' 128)\<rparr> else p);
          p = p\<lparr>ac_tg_chat := form_value body ''tg_chat'' 24,
                ac_tg_on_power := form_set body ''tg_on_power'' 128,
                ac_tg_on_low_batt := form_set body ''tg_on_low_batt'' 128,
                ac_tg_on_link := form_set body ''tg_on_link'' 128,
                ac_tg_on_pve_host := form_set body ''tg_on_pve_host'' 128,
                ac_tg_on_pve_guest := form_set body ''tg_on_pve_guest'' 128,
                ac_tg_on_battery_pct := form_set body ''tg_on_battery_pct'' 128\<rparr>
      in if ac_tg_enabled p \<and> (ac_tg_token p = [] \<or> ac_tg_chat p = []) then Inl ''a bot token and chat id are required''
         else Inr p)"

definition section_integrations :: "string \<Rightarrow> app_config \<Rightarrow> app_config" where
  "section_integrations body p =
     p\<lparr>ac_nut_enabled := form_set body ''nut_enabled'' 128,
       ac_pve := (ac_pve p)\<lparr>c_enabled := form_set body ''pve_enabled'' 128\<rparr>,
       ac_tg_enabled := form_set body ''tg_enabled'' 128\<rparr>"

section \<open>Proxmox hosts and guest rules\<close>

definition host_key :: "int \<Rightarrow> string \<Rightarrow> string" where
  "host_key i name = snprintf_buf 24 (''h'' @ show_int i @ ''_'' @ name)"

definition guest_field :: "int \<Rightarrow> int \<Rightarrow> string \<Rightarrow> string" where
  "guest_field i g name = snprintf_buf 24 (''h'' @ show_int i @ ''_g'' @ show_int g @ ''_'' @ name)"

definition guest_from_form :: "string \<Rightarrow> int \<Rightarrow> int \<Rightarrow> pve_guest list" where
  "guest_from_form body i g =
     (let ident = form_int body (guest_field i g ''id'') 16;
          mins = form_int body (guest_field i g ''min'') 16;
          pct = form_int body (guest_field i g ''pct'') 16
      in if \<not> fst (form_get body (guest_field i g ''id'') 16) \<or> ident \<le> 0 then []
         else [\<lparr>g_id = ident,
                g_on_battery_min = (if form_num body (guest_field i g ''min'') 16 0 \<and> mins \<le> 1440 then word_of_int mins else 0),
                g_charge_pct = (if form_num body (guest_field i g ''pct'') 16 0 \<and> pct \<le> 100 then word_of_int pct else 0)\<rparr>])"

definition pve_guests_from_form :: "bool \<Rightarrow> string \<Rightarrow> int \<Rightarrow> pve_guest list" where
  "pve_guests_from_form memory body i =
     (if \<not> fst (form_get body (host_key i ''gcount'') 16) then []
      else
        let count = fst (strtol (form_value body (host_key i ''gcount'') 16))
        in if count \<le> 0 \<or> \<not> memory then []
           else concat (map (guest_from_form body i) [0..min count 10000 - 1]))"

definition trim_slashes :: "string \<Rightarrow> string" where
  "trim_slashes url = rev (dropWhile (\<lambda>c. c = CHR ''/'') (rev url))"

definition host_error :: "int \<Rightarrow> string \<Rightarrow> string" where
  "host_error i t = snprintf_buf 80 (''host '' @ show_int (i + 1) @ '': '' @ t)"

text \<open>The host before the checks, or the refusal of the fingerprint.\<close>

definition read_host :: "string \<Rightarrow> int \<Rightarrow> pve_host \<Rightarrow> pve_host \<Rightarrow> string + pve_host" where
  "read_host body i h stored =
     (let h = h\<lparr>h_enabled := form_set body (host_key i ''on'') 128,
                h_url := form_value body (host_key i ''url'') 64,
                h_node := form_value body (host_key i ''node'') 32,
                h_token_id := form_value body (host_key i ''token'') 64,
                h_shutdown_node := form_set body (host_key i ''node_off'') 128\<rparr>;
          mins = form_int body (host_key i ''min'') 128;
          pct = form_int body (host_key i ''pct'') 128;
          h = (if form_num body (host_key i ''min'') 128 0 \<and> mins \<le> 1440 then h\<lparr>h_on_battery_min := word_of_int mins\<rparr> else h);
          h = (if form_num body (host_key i ''pct'') 128 0 \<and> pct \<le> 100 then h\<lparr>h_charge_pct := word_of_int pct\<rparr> else h);
          h = h\<lparr>h_secret := strlcpy 40 (if form_given body (host_key i ''secret'') 128
                                       then form_value body (host_key i ''secret'') 128 else h_secret stored)\<rparr>
      in if form_given body (host_key i ''fp'') 128 then
           (case pve_fingerprint_normalise (form_value body (host_key i ''fp'') 128) of
              None \<Rightarrow> Inl (host_error i ''fingerprint must be 64 hex digits'')
            | Some fp \<Rightarrow> Inr (h\<lparr>h_fingerprint := fp, h_url := trim_slashes (h_url h)\<rparr>))
         else Inr (h\<lparr>h_fingerprint := (if form_set body (host_key i ''fp_clear'') 128 then []
                                     else strlcpy 65 (h_fingerprint stored)),
                     h_url := trim_slashes (h_url h)\<rparr>))"

definition check_host :: "int \<Rightarrow> pve_host \<Rightarrow> string + pve_host" where
  "check_host i h =
     (if h_enabled h then
        if \<not> has_prefix ''https://'' (h_url h) then Inl (host_error i ''URL must start with https://'')
        else if h_node h = [] \<or> h_token_id h = [] \<or> h_secret h = []
          then Inl (host_error i ''node, token ID and secret are required'')
        else if CHR ''!'' \<notin> set (h_token_id h) then Inl (host_error i ''token ID looks like user@realm!name'')
        else if h_on_battery_min h = 0 \<and> h_charge_pct h = 0
          then Inl (host_error i ''set a time or a charge to shut down at'')
        else Inr h
      else Inr h)"

definition pve_host_from_form :: "string \<Rightarrow> int \<Rightarrow> pve_host \<Rightarrow> pve_host \<Rightarrow> string + pve_host" where
  "pve_host_from_form body i h stored =
     (if form_set body (host_key i ''clear'') 128 then Inr (hd (c_hosts app_config_pve_defaults))
      else case read_host body i h stored of Inl e \<Rightarrow> Inl e | Inr h \<Rightarrow> check_host i h)"

text \<open>The loop over the host slots: the hosts and, per slot to save, its guest rules.\<close>

fun pve_hosts_loop :: "bool \<Rightarrow> string \<Rightarrow> int \<Rightarrow> pve_host list \<Rightarrow> string + pve_host list \<times> (int \<times> pve_guest list) list" where
  "pve_hosts_loop memory body i [] = Inr ([], [])"
| "pve_hosts_loop memory body i (h # hs) =
     (case pve_host_from_form body i h h of
        Inl e \<Rightarrow> Inl e
      | Inr h' \<Rightarrow>
          let saves = (if form_set body (host_key i ''clear'') 8 then [(i, [])]
                       else if h_enabled h' then [(i, pve_guests_from_form memory body i)] else [])
          in case pve_hosts_loop memory body (i + 1) hs of
               Inl e \<Rightarrow> Inl e
             | Inr (hs', others) \<Rightarrow> Inr (h' # hs', saves @ others))"

definition section_pve :: "'s web_env \<Rightarrow> string \<Rightarrow> app_config \<Rightarrow> string + app_config \<times> (int \<times> pve_guest list) list" where
  "section_pve E body p =
     (let p = p\<lparr>ac_pve := (ac_pve p)\<lparr>c_armed := form_set body ''pve_armed'' 128\<rparr>\<rparr>;
          p = (if form_num body ''pve_mains_back_min'' 128 0
               then p\<lparr>ac_pve := (ac_pve p)\<lparr>c_mains_back_min := word_of_int (form_int body ''pve_mains_back_min'' 128)\<rparr>\<rparr> else p);
          p = (if form_num body ''pve_selftest_hours'' 128 0
               then p\<lparr>ac_pve_selftest_hours := word_of_int (form_int body ''pve_selftest_hours'' 128)\<rparr> else p)
      in if \<not> c_enabled (ac_pve p) then Inr (p, [])
         else case pve_hosts_loop (we_memory E) body 0 (c_hosts (ac_pve p)) of
           Inl e \<Rightarrow> Inl e
         | Inr (hs, saves) \<Rightarrow> Inr (p\<lparr>ac_pve := (ac_pve p)\<lparr>c_hosts := hs\<rparr>\<rparr>, saves))"


section \<open>Changing the settings\<close>

definition require_auth ::
    "('s web_env \<Rightarrow> request \<Rightarrow> 's web \<Rightarrow> reply \<times> 's web) \<Rightarrow> 's web_env \<Rightarrow> request \<Rightarrow> 's web \<Rightarrow> reply \<times> 's web" where
  "require_auth h E r w =
     (case auth_ok (Some (wb_cfg w)) r (we_now E) (wb_sessions w) of (ok, S) \<Rightarrow>
        let w = w\<lparr>wb_sessions := S\<rparr> in if ok then h E r w else (send_401, w))"

text \<open>A handler that takes a form: the size check, the buffer and the receive loop.\<close>

definition with_body ::
    "int \<Rightarrow> (string \<Rightarrow> 's web \<Rightarrow> reply \<times> 's web) \<Rightarrow> 's web_env \<Rightarrow> request \<Rightarrow> 's web \<Rightarrow> reply \<times> 's web" where
  "with_body limit h E r w =
     (if rq_len r \<le> 0 \<or> rq_len r > limit then (refuse 400 ''bad body'', w)
      else if \<not> we_memory E then (server_error, w)
      else case recv_body limit r of Body body \<Rightarrow> h body w | _ \<Rightarrow> (server_error, w))"

text \<open>A candidate made the live configuration and stored.\<close>

definition adopt_config :: "'s web_env \<Rightarrow> app_config \<Rightarrow> 's web \<Rightarrow> bool \<times> 's web" where
  "adopt_config E c w =
     (case app_config_save (we_nv E) (we_memory E) (wb_nvs w) c of (err, st) \<Rightarrow>
        (err = ESP_OK, w\<lparr>wb_cfg := c, wb_nvs := st\<rparr>))"

definition live_guests :: "'s web_env \<Rightarrow> 's web \<Rightarrow> pve_guest list list" where
  "live_guests E w = map (\<lambda>i. app_config_pve_guests_load (we_nv E) (we_memory E) (wb_nvs w) (int i)) [0..<PVE_MAX_HOSTS]"

definition apply_pve :: "'s web_env \<Rightarrow> 's web \<Rightarrow> 's web" where
  "apply_pve E w = web_call (Call_pve_reconfigure (ac_pve (wb_cfg w)) (ac_pve_selftest_hours (wb_cfg w)) (live_guests E w)) w"

definition apply_notify :: "'s web \<Rightarrow> 's web" where
  "apply_notify w = web_call (Call_notify_reconfigure (notify_settings (wb_cfg w))) w"

definition save_guests :: "'s web_env \<Rightarrow> (int \<times> pve_guest list) list \<Rightarrow> 's web \<Rightarrow> 's web" where
  "save_guests E saves w =
     w\<lparr>wb_nvs := fold (\<lambda>(i, gs) st. snd (app_config_pve_guests_save (we_nv E) st i gs)) saves (wb_nvs w)\<rparr>"

text \<open>The section a form names, applied to the candidate; the guest rules to save come with it.\<close>

definition apply_section ::
    "'s web_env \<Rightarrow> string \<Rightarrow> string \<Rightarrow> app_config \<Rightarrow> string + app_config \<times> (int \<times> pve_guest list) list" where
  "apply_section E sect body p =
     (let plain = (\<lambda>x. case x of Inl e \<Rightarrow> Inl e | Inr c \<Rightarrow> Inr (c, []))
      in if sect = ''bluetti'' then plain (section_bluetti body p)
         else if sect = ''nut'' then plain (section_nut E body p)
         else if sect = ''wifi'' then plain (section_wifi E body p)
         else if sect = ''pve'' then section_pve E body p
         else if sect = ''notify'' then plain (section_notify body p)
         else if sect = ''integrations'' then Inr (section_integrations body p, [])
         else Inl ''unknown section'')"

definition ok_reboot :: reply where "ok_reboot = answer ''{\"ok\":true}''"
definition ok_live :: reply where "ok_live = answer ''{\"ok\":true,\"reboot\":false}''"

definition reconfigure_form :: "'s web_env \<Rightarrow> string \<Rightarrow> 's web \<Rightarrow> reply \<times> 's web" where
  "reconfigure_form E body w =
     (let nut_before = ac_nut_enabled (wb_cfg w);
          sect = form_value body ''section'' 16
      in case apply_section E sect body (wb_cfg w) of
        Inl e \<Rightarrow> (refuse 400 e, w)
      | Inr (c, saves) \<Rightarrow>
          let c' = c\<lparr>ac_provisioned := True\<rparr>
          in case adopt_config E c' (save_guests E saves (w\<lparr>wb_pending := c\<rparr>)) of (ok, w) \<Rightarrow>
            if \<not> ok then (refuse 500 ''could not save config'', w)
            else if sect = ''pve'' then (ok_live, apply_pve E w)
            else if sect = ''notify'' then (ok_live, apply_notify w)
            else if sect = ''integrations'' then
              (let w = apply_notify (apply_pve E w)
               in if ac_nut_enabled (wb_cfg w) \<noteq> nut_before then (ok_reboot, web_call Call_reboot w) else (ok_live, w))
            else (ok_reboot, web_call Call_reboot w))"

definition h_admin_reconfigure :: "'s web_env \<Rightarrow> request \<Rightarrow> 's web \<Rightarrow> reply \<times> 's web" where
  "h_admin_reconfigure = require_auth (\<lambda>E. with_body 65536 (reconfigure_form E) E)"

text \<open>The login a form asks for; a blank name is \<^verbatim>\<open>admin\<close>.\<close>

definition form_login :: "'s web_env \<Rightarrow> string \<Rightarrow> app_config \<Rightarrow> app_config" where
  "form_login E body c =
     (let user = form_value body ''auth_user'' 33;
          user = (if user = [] then ''admin'' else user)
      in app_config_set_password (we_sha E) (we_random E) (c\<lparr>ac_auth_user := strlcpy 33 user\<rparr>)
           (Some (form_value body ''auth_pass'' 128)))"

definition credentials_form :: "'s web_env \<Rightarrow> string \<Rightarrow> 's web \<Rightarrow> reply \<times> 's web" where
  "credentials_form E body w =
     (let cur = form_value body ''current_pass'' 128;
          pass = form_value body ''auth_pass'' 128
      in if ac_auth_set (wb_cfg w) \<and> \<not> app_config_check_password (we_sha E) (wb_cfg w) (Some cur)
         then (refuse 400 ''current password is wrong'', w)
         else if pass = [] then (refuse 400 ''a password is required'', w)
         else
           let p = form_login E body (wb_cfg w)
           in case adopt_config E p (w\<lparr>wb_pending := p\<rparr>) of (ok, w) \<Rightarrow>
                if \<not> ok then (refuse 500 ''could not save config'', w) else (ok_reboot, w))"

definition h_admin_credentials :: "'s web_env \<Rightarrow> request \<Rightarrow> 's web \<Rightarrow> reply \<times> 's web" where
  "h_admin_credentials = require_auth (\<lambda>E. with_body 1024 (credentials_form E) E)"

section \<open>The setup portal\<close>

definition provision_ap :: "'s web_env \<Rightarrow> string \<Rightarrow> app_config \<Rightarrow> 's web \<Rightarrow> reply \<times> 's web" where
  "provision_ap E body p w =
     (let p = p\<lparr>ac_wifi_mode := APP_WIFI_AP, ac_ap_ssid := form_value body ''ap_ssid'' 33,
                ac_ap_pass := form_value body ''ap_pass'' 65\<rparr>
      in if length (ac_ap_pass p) > 0 \<and> length (ac_ap_pass p) < 8
         then (refuse 400 ''AP password must be 8+ characters'', w\<lparr>wb_pending := p\<rparr>)
         else
           let p = (if ac_ap_ssid p = [] then p\<lparr>ac_ap_ssid := default_ssid E\<rparr> else p)
           in case adopt_config E (p\<lparr>ac_provisioned := True\<rparr>) (w\<lparr>wb_pending := p\<rparr>) of (ok, w) \<Rightarrow>
                if \<not> ok then (refuse 500 ''could not save config'', w)
                else (ok_reboot, web_call Call_reboot w))"

definition provision_station :: "string \<Rightarrow> app_config \<Rightarrow> 's web \<Rightarrow> reply \<times> 's web" where
  "provision_station body p w =
     (let p = p\<lparr>ac_wifi_mode := APP_WIFI_STATION, ac_wifi_ssid := form_value body ''ssid'' 33,
                ac_wifi_pass := form_value body ''pass'' 65\<rparr>;
          w = w\<lparr>wb_pending := p\<rparr>
      in if ac_wifi_ssid p = [] then (refuse 400 ''ssid required'', w)
         else (ok_reboot, web_call Call_connect_task (w\<lparr>wb_state := ST_CONNECTING, wb_detail := []\<rparr>)))"

definition provision_form :: "'s web_env \<Rightarrow> string \<Rightarrow> 's web \<Rightarrow> reply \<times> 's web" where
  "provision_form E body w =
     (if form_value body ''auth_pass'' 128 = []
      then (refuse 400 ''an admin password is required'', w\<lparr>wb_pending := wb_cfg w\<rparr>)
      else
        let p = form_login E body (wb_cfg w)
        in if form_value body ''wifi_mode'' 8 = ''ap'' then provision_ap E body p w
           else provision_station body p w)"

definition h_provision :: "'s web_env \<Rightarrow> request \<Rightarrow> 's web \<Rightarrow> reply \<times> 's web" where
  "h_provision E = with_body 2048 (provision_form E) E"

text \<open>The task that tries the station, in two parts with up to 25 seconds between them in which other
  requests are served; \<open>rc\<close> is the outcome of the attempt.\<close>

definition connect_begin :: "'s web \<Rightarrow> 's web" where
  "connect_begin w =
     web_call (Call_sta_connect (ac_wifi_ssid (wb_pending w)) (ac_wifi_pass (wb_pending w))) (w\<lparr>wb_state := ST_CONNECTING\<rparr>)"

definition connect_end :: "'s web_env \<Rightarrow> connect_result \<Rightarrow> 's web \<Rightarrow> 's web" where
  "connect_end E rc w =
     (if rc \<noteq> Connect_ok then
        w\<lparr>wb_detail := strlcpy 96 (if rc = Connect_timeout then ''Wi-Fi timed out'' else ''Wi-Fi association failed''),
          wb_state := ST_FAILED\<rparr>
      else web_call Call_done ((snd (adopt_config E ((wb_pending w)\<lparr>ac_provisioned := True\<rparr>) w))\<lparr>wb_state := ST_CONNECTED\<rparr>))"

definition connect_task :: "'s web_env \<Rightarrow> connect_result \<Rightarrow> 's web \<Rightarrow> 's web" where
  "connect_task E rc w = connect_end E rc (connect_begin w)"

definition h_status :: "string \<Rightarrow> 's web \<Rightarrow> reply" where
  "h_status ip w =
     (let s = (case wb_state w of ST_CONNECTED \<Rightarrow> ''connected'' | ST_CONNECTING \<Rightarrow> ''connecting''
                 | ST_FAILED \<Rightarrow> ''failed'' | ST_IDLE \<Rightarrow> ''idle'')
      in answer (snprintf_buf 192 (''{\"state\":\"'' @ s @ ''\",\"ip\":\"'' @ ip @ ''\",\"detail\":\"'' @ wb_detail w @ ''\"}'')))"


section \<open>Configurations stay well formed\<close>

text \<open>What the environment provides: a salt of 16 bytes and digests of 32.\<close>

definition env_ok :: "'s web_env \<Rightarrow> bool" where
  "env_ok E \<longleftrightarrow> length (we_random E) = 16 \<and> (\<forall>bs. length (we_sha E bs) = 32)"

lemma url_bytes_length: "length (url_bytes room s) \<le> room - 1"
proof (induction room s rule: url_bytes.induct)
  case (2 room c s)
  then show ?case by (cases "1 < room"; cases "c = CHR ''+''"; cases "c = CHR ''%'' \<and> hex_escape s") auto
qed simp

lemma c_str_length: "length (c_str s) \<le> length s"
  by (simp add: c_str_def length_takeWhile_le)

lemma c_str_no_nul: "CHR 0x00 \<notin> set (c_str s)"
  by (auto simp: c_str_def dest: set_takeWhileD)

lemma form_value_fits: "0 < n \<Longrightarrow> str_fits n (form_value body key n)"
proof -
  assume n: "0 < n"
  have "length (url_decode n v) < n" for v
    using c_str_length [of "url_bytes n v"] url_bytes_length [of n v] n by (simp add: url_decode_def)
  then show ?thesis using n c_str_no_nul
    by (auto simp: form_value_def form_get_def str_fits_def url_decode_def split: option.split)
qed

lemma form_value_no_nul: "0 < n \<Longrightarrow> CHR 0x00 \<notin> set (form_value body key n)"
  using form_value_fits [of n body key] by (simp add: str_fits_def)

lemma form_copy_fits: "0 < n \<Longrightarrow> 0 < m \<Longrightarrow> str_fits m (strlcpy m (form_value body key n))"
  by (intro str_fits_strlcpy form_value_no_nul)

lemma default_ssid_fits: "str_fits 33 (default_ssid E)"
  unfolding default_ssid_def wifi_mgr_default_ap_ssid_def
  by (rule str_fits_snprintf) (simp_all add: hex2_printable)

lemma fits_Nil: "0 < n \<Longrightarrow> str_fits n []"
  by (simp add: str_fits_def)

text \<open>One rule per field a form writes, and rules for the shape of the code around them.\<close>

lemma wf_free_fields [simp]:
  "wf_config (p\<lparr>ac_wifi_mode := x1\<rparr>) = wf_config p" "wf_config (p\<lparr>ac_nut_port := x2\<rparr>) = wf_config p"
  "wf_config (p\<lparr>ac_low_pct := x3\<rparr>) = wf_config p" "wf_config (p\<lparr>ac_ac_rating_w := x2\<rparr>) = wf_config p"
  "wf_config (p\<lparr>ac_battery_wh := x2\<rparr>) = wf_config p" "wf_config (p\<lparr>ac_runtime_low_s := x2\<rparr>) = wf_config p"
  "wf_config (p\<lparr>ac_use_static_ip := b\<rparr>) = wf_config p" "wf_config (p\<lparr>ac_fb_ap_enabled := b\<rparr>) = wf_config p"
  "wf_config (p\<lparr>ac_tg_on_power := b\<rparr>) = wf_config p" "wf_config (p\<lparr>ac_tg_on_low_batt := b\<rparr>) = wf_config p"
  "wf_config (p\<lparr>ac_tg_on_link := b\<rparr>) = wf_config p" "wf_config (p\<lparr>ac_tg_on_pve_host := b\<rparr>) = wf_config p"
  "wf_config (p\<lparr>ac_tg_on_pve_guest := b\<rparr>) = wf_config p" "wf_config (p\<lparr>ac_tg_on_battery_pct := b\<rparr>) = wf_config p"
  "wf_config (p\<lparr>ac_nut_enabled := b\<rparr>) = wf_config p" "wf_config (p\<lparr>ac_tg_enabled := b\<rparr>) = wf_config p"
  "wf_config (p\<lparr>ac_provisioned := b\<rparr>) = wf_config p" "wf_config (p\<lparr>ac_pve_selftest_hours := x2\<rparr>) = wf_config p"
  "wf_config (p\<lparr>ac_controls_enabled := b\<rparr>) = wf_config p" "wf_config (p\<lparr>ac_log_level := x3\<rparr>) = wf_config p"
  "wf_config (p\<lparr>ac_led_gpio := x4\<rparr>) = wf_config p" "wf_config (p\<lparr>ac_led_enabled := b\<rparr>) = wf_config p"
  by (simp_all add: wf_config_def)

lemma wf_text_fields [intro]:
  "wf_config p \<Longrightarrow> str_fits 33 s \<Longrightarrow> wf_config (p\<lparr>ac_wifi_ssid := s\<rparr>)"
  "wf_config p \<Longrightarrow> str_fits 65 s \<Longrightarrow> wf_config (p\<lparr>ac_wifi_pass := s\<rparr>)"
  "wf_config p \<Longrightarrow> str_fits 33 s \<Longrightarrow> wf_config (p\<lparr>ac_ap_ssid := s\<rparr>)"
  "wf_config p \<Longrightarrow> str_fits 65 s \<Longrightarrow> wf_config (p\<lparr>ac_ap_pass := s\<rparr>)"
  "wf_config p \<Longrightarrow> str_fits 33 s \<Longrightarrow> wf_config (p\<lparr>ac_hostname := s\<rparr>)"
  "wf_config p \<Longrightarrow> str_fits 16 s \<Longrightarrow> wf_config (p\<lparr>ac_static_ip := s\<rparr>)"
  "wf_config p \<Longrightarrow> str_fits 16 s \<Longrightarrow> wf_config (p\<lparr>ac_static_mask := s\<rparr>)"
  "wf_config p \<Longrightarrow> str_fits 16 s \<Longrightarrow> wf_config (p\<lparr>ac_static_gw := s\<rparr>)"
  "wf_config p \<Longrightarrow> str_fits 16 s \<Longrightarrow> wf_config (p\<lparr>ac_static_dns := s\<rparr>)"
  "wf_config p \<Longrightarrow> str_fits 18 s \<Longrightarrow> wf_config (p\<lparr>ac_ble_addr := s\<rparr>)"
  "wf_config p \<Longrightarrow> str_fits 32 s \<Longrightarrow> wf_config (p\<lparr>ac_ups_name := s\<rparr>)"
  "wf_config p \<Longrightarrow> str_fits 33 s \<Longrightarrow> wf_config (p\<lparr>ac_nut_user := s\<rparr>)"
  "wf_config p \<Longrightarrow> str_fits 64 s \<Longrightarrow> wf_config (p\<lparr>ac_tg_token := s\<rparr>)"
  "wf_config p \<Longrightarrow> str_fits 24 s \<Longrightarrow> wf_config (p\<lparr>ac_tg_chat := s\<rparr>)"
  "wf_config p \<Longrightarrow> str_fits 33 s \<Longrightarrow> wf_config (p\<lparr>ac_auth_user := s\<rparr>)"
  "wf_config p \<Longrightarrow> str_fits 33 s \<Longrightarrow> wf_config (p\<lparr>ac_fb_ap_ssid := s\<rparr>)"
  "wf_config p \<Longrightarrow> str_fits 65 s \<Longrightarrow> wf_config (p\<lparr>ac_fb_ap_pass := s\<rparr>)"
  "wf_config p \<Longrightarrow> wf_pve v \<Longrightarrow> wf_config (p\<lparr>ac_pve := v\<rparr>)"
  by (simp_all add: wf_config_def)

lemma wf_nut_password: "env_ok E \<Longrightarrow> wf_config p \<Longrightarrow> wf_config (app_config_set_nut_password (we_sha E) (we_random E) p x)"
  using set_secret_lengths [of "we_random E" "we_sha E" x]
  by (auto simp: app_config_set_nut_password_def wf_config_def env_ok_def split: prod.splits)

lemma wf_password: "env_ok E \<Longrightarrow> wf_config p \<Longrightarrow> wf_config (app_config_set_password (we_sha E) (we_random E) p x)"
  using set_secret_lengths [of "we_random E" "we_sha E" x]
  by (auto simp: app_config_set_password_def wf_config_def env_ok_def split: prod.splits)

definition wf_res :: "string + app_config \<Rightarrow> bool" where
  "wf_res x \<longleftrightarrow> (case x of Inl e \<Rightarrow> True | Inr c \<Rightarrow> wf_config c)"

lemma wf_res_intros:
  "wf_res (Inl e)" "wf_config c \<Longrightarrow> wf_res (Inr c)"
  "wf_res x \<Longrightarrow> wf_res y \<Longrightarrow> wf_res (if b then x else y)"
  by (simp_all add: wf_res_def)

lemma wf_res_let: "wf_config v \<Longrightarrow> (\<And>p. wf_config p \<Longrightarrow> wf_res (f p)) \<Longrightarrow> wf_res (Let v f)"
  by simp

lemma wf_let: "wf_config v \<Longrightarrow> (\<And>p. wf_config p \<Longrightarrow> wf_config (f p)) \<Longrightarrow> wf_config (Let v f)"
  by simp

lemma wf_if: "wf_config x \<Longrightarrow> wf_config y \<Longrightarrow> wf_config (if b then x else y)"
  by simp

lemmas form_fits = form_value_fits form_copy_fits default_ssid_fits fits_Nil

lemmas wf_rules = wf_res_let wf_let wf_res_intros wf_if wf_text_fields form_fits

lemma wf_section_bluetti: "wf_config p \<Longrightarrow> wf_res (section_bluetti body p)"
  unfolding section_bluetti_def by (intro wf_rules) simp_all

lemma wf_section_nut: "env_ok E \<Longrightarrow> wf_config p \<Longrightarrow> wf_res (section_nut E body p)"
  unfolding section_nut_def by (intro wf_rules wf_nut_password; simp?; intro wf_rules wf_nut_password; simp)


lemma wf_section_wifi_ap: "wf_config p \<Longrightarrow> wf_res (wifi_section_ap E body p)"
  unfolding wifi_section_ap_def by (intro wf_rules; simp?; intro wf_rules; simp)

lemma wf_read_station: "wf_config p \<Longrightarrow> wf_config (read_station body p)"
  unfolding read_station_def by (intro wf_rules; simp?; intro wf_rules; simp?; intro wf_rules; simp)

lemma wf_check_fallback: "wf_config p \<Longrightarrow> wf_res (check_fallback E p)"
  unfolding check_fallback_def by (intro wf_rules) simp_all

lemma wf_check_static: "wf_config p \<Longrightarrow> wf_res (check_static p)"
  unfolding check_static_def by (intro wf_rules str_fits_strlcpy) simp_all

lemma wf_section_wifi: "wf_config p \<Longrightarrow> wf_res (section_wifi E body p)"
proof -
  have st: "wf_res (wifi_section_station E body q)" if "wf_config q" for q
  proof (cases "check_fallback E (read_station body q)")
    case (Inr c)
    then have "wf_config c" using wf_check_fallback [OF wf_read_station [OF that, of body], of E] by (simp add: wf_res_def)
    then show ?thesis using Inr wf_check_static by (simp add: wifi_section_station_def wf_res_intros)
  qed (simp add: wifi_section_station_def wf_res_intros)
  show "wf_config p \<Longrightarrow> ?thesis"
    unfolding section_wifi_def by (intro wf_rules wf_section_wifi_ap st) simp_all
qed

lemma wf_section_notify: "wf_config p \<Longrightarrow> wf_res (section_notify body p)"
  unfolding section_notify_def by (intro wf_rules; simp?; intro wf_rules; simp)

lemma fp_scan_digits:
  "fp_scan cs acc = Some fp \<Longrightarrow> CHR 0x00 \<notin> set acc \<Longrightarrow> length fp = 64 \<and> CHR 0x00 \<notin> set fp"
proof (induction cs acc rule: fp_scan.induct)
  case (2 c cs acc)
  have "toupper c \<noteq> CHR 0x00" if "is_xdigit c"
  proof
    assume "toupper c = CHR 0x00"
    then have "ord (toupper c) = (0 :: nat)" by simp
    then show False using that by (auto simp: toupper_def is_xdigit_def is_digit_def split: if_splits)
  qed
  then show ?case using 2 by (auto split: if_splits)
qed (auto split: if_splits)

lemma wf_host_updates:
  "wf_host h \<Longrightarrow> str_fits 40 s \<Longrightarrow> wf_host (h\<lparr>h_secret := s\<rparr>)"
  "wf_host h \<Longrightarrow> str_fits 65 s \<Longrightarrow> str_fits 64 u \<Longrightarrow> wf_host (h\<lparr>h_fingerprint := s, h_url := u\<rparr>)"
  "wf_host (h\<lparr>h_on_battery_min := m\<rparr>) = wf_host h" "wf_host (h\<lparr>h_charge_pct := q\<rparr>) = wf_host h"
  "str_fits 64 u \<Longrightarrow> str_fits 32 n \<Longrightarrow> str_fits 64 t \<Longrightarrow> wf_host h \<Longrightarrow>
     wf_host (h\<lparr>h_enabled := e, h_url := u, h_node := n, h_token_id := t, h_shutdown_node := d\<rparr>)"
  by (simp_all add: wf_host_def)

lemma trim_fits: "str_fits n u \<Longrightarrow> str_fits n (trim_slashes u)"
proof -
  have "length (trim_slashes u) \<le> length u" by (metis trim_slashes_def length_rev length_dropWhile_le)
  moreover have "set (trim_slashes u) \<subseteq> set u" using set_dropWhileD by (fastforce simp: trim_slashes_def)
  ultimately show "str_fits n u \<Longrightarrow> ?thesis" by (auto simp: str_fits_def)
qed

text \<open>A host read from a form keeps a flag-free description: what is checked is what is stored.\<close>

lemma wf_read_host:
  assumes "wf_host h" "wf_host st" "read_host body i h st = Inr h'"
  shows "wf_host h' \<and> (h_fingerprint h' = [] \<or> h_fingerprint h' = h_fingerprint st \<or> length (h_fingerprint h') = 64)"
proof -
  let ?h1 = "h\<lparr>h_enabled := form_set body (host_key i ''on'') 128, h_url := form_value body (host_key i ''url'') 64,
     h_node := form_value body (host_key i ''node'') 32, h_token_id := form_value body (host_key i ''token'') 64,
     h_shutdown_node := form_set body (host_key i ''node_off'') 128\<rparr>"
  have h1: "wf_host ?h1" using assms(1) by (intro wf_host_updates form_value_fits) simp_all
  obtain h3 where h3: "wf_host h3" "h_url h3 = form_value body (host_key i ''url'') 64" and
    r: "read_host body i h st =
      (if form_given body (host_key i ''fp'') 128 then
           (case pve_fingerprint_normalise (form_value body (host_key i ''fp'') 128) of
              None \<Rightarrow> Inl (host_error i ''fingerprint must be 64 hex digits'')
            | Some fp \<Rightarrow> Inr (h3\<lparr>h_fingerprint := fp, h_url := trim_slashes (h_url h3)\<rparr>))
         else Inr (h3\<lparr>h_fingerprint := (if form_set body (host_key i ''fp_clear'') 128 then []
                                     else strlcpy 65 (h_fingerprint st)),
                     h_url := trim_slashes (h_url h3)\<rparr>))"
  proof -
    let ?m = "form_num body (host_key i ''min'') 128 0 \<and> form_int body (host_key i ''min'') 128 \<le> 1440"
    let ?q = "form_num body (host_key i ''pct'') 128 0 \<and> form_int body (host_key i ''pct'') 128 \<le> 100"
    let ?h2 = "if ?m then ?h1\<lparr>h_on_battery_min := word_of_int (form_int body (host_key i ''min'') 128)\<rparr> else ?h1"
    let ?h2' = "if ?q then ?h2\<lparr>h_charge_pct := word_of_int (form_int body (host_key i ''pct'') 128)\<rparr> else ?h2"
    let ?s = "strlcpy 40 (if form_given body (host_key i ''secret'') 128
                          then form_value body (host_key i ''secret'') 128 else h_secret st)"
    have "str_fits 40 ?s" using assms(2) form_value_no_nul [of 128 body]
      by (intro str_fits_strlcpy) (simp_all add: wf_host_def str_fits_def)
    moreover have "wf_host ?h2'" using h1 by (simp add: wf_host_updates)
    ultimately have "wf_host (?h2'\<lparr>h_secret := ?s\<rparr>)" by (rule wf_host_updates(1) [rotated])
    moreover have "h_url (?h2'\<lparr>h_secret := ?s\<rparr>) = form_value body (host_key i ''url'') 64" by simp
    ultimately show thesis by (rule that) (simp only: read_host_def Let_def)
  qed
  have u: "str_fits 64 (trim_slashes (h_url h3))" unfolding h3(2) by (intro trim_fits form_value_fits) simp
  show ?thesis
  proof (cases "form_given body (host_key i ''fp'') 128")
    case True
    then obtain fp where fp: "pve_fingerprint_normalise (form_value body (host_key i ''fp'') 128) = Some fp"
      "h' = h3\<lparr>h_fingerprint := fp, h_url := trim_slashes (h_url h3)\<rparr>"
      using assms(3) r by (auto split: option.splits)
    then have l: "length fp = 64" "CHR 0x00 \<notin> set fp"
      using fp_scan_digits by (fastforce simp: pve_fingerprint_normalise_def)+
    then show ?thesis using fp(2) h3(1) u by (simp add: wf_host_updates(2) str_fits_def)
  next
    case False
    let ?fp = "if form_set body (host_key i ''fp_clear'') 128 then [] else strlcpy 65 (h_fingerprint st)"
    have h': "h' = h3\<lparr>h_fingerprint := ?fp, h_url := trim_slashes (h_url h3)\<rparr>" using assms(3) r False by simp
    have "strlcpy 65 (h_fingerprint st) = h_fingerprint st" using assms(2) by (simp add: wf_host_def str_fits_def strlcpy_fits)
    moreover have "str_fits 65 ?fp" using assms(2) calculation by (auto simp: wf_host_def str_fits_def)
    ultimately show ?thesis using h3(1) u unfolding h' by (auto intro: wf_host_updates(2))
  qed
qed


definition host_complete :: "pve_host \<Rightarrow> bool" where
  "host_complete h \<longleftrightarrow> (h_enabled h \<longrightarrow>
     has_prefix ''https://'' (h_url h) \<and> h_node h \<noteq> [] \<and> h_secret h \<noteq> [] \<and> CHR ''!'' \<in> set (h_token_id h) \<and>
     (h_on_battery_min h \<noteq> 0 \<or> h_charge_pct h \<noteq> 0))"

lemma check_host_complete: "check_host i h = Inr h' \<Longrightarrow> h' = h \<and> host_complete h"
  by (auto simp: check_host_def host_complete_def split: if_splits)

lemma default_host: "wf_host (hd (c_hosts app_config_pve_defaults)) \<and> \<not> h_enabled (hd (c_hosts app_config_pve_defaults)) \<and>
    h_fingerprint (hd (c_hosts app_config_pve_defaults)) = []"
  using wf_pve_defaults by (simp add: app_config_pve_defaults_def wf_pve_def)

definition pin_ok :: "pve_host \<Rightarrow> bool" where
  "pin_ok h \<longleftrightarrow> h_fingerprint h = [] \<or> length (h_fingerprint h) = 64"

lemma host_from_form:
  assumes "pve_host_from_form body i h st = Inr h'" "wf_host h" "wf_host st"
  shows "wf_host h' \<and> host_complete h' \<and> (pin_ok st \<longrightarrow> pin_ok h')"
proof (cases "form_set body (host_key i ''clear'') 128")
  case True
  then show ?thesis using assms(1) default_host by (auto simp: pve_host_from_form_def host_complete_def pin_ok_def)
next
  case False
  then obtain h1 where h1: "read_host body i h st = Inr h1" "check_host i h1 = Inr h'"
    using assms(1) by (auto simp: pve_host_from_form_def split: sum.splits)
  then show ?thesis using wf_read_host [OF assms(2,3) h1(1)] check_host_complete [OF h1(2)] by (auto simp: pin_ok_def)
qed

lemma hosts_loop:
  assumes "pve_hosts_loop memory body i hs = Inr (hs', saves)" "\<forall>h \<in> set hs. wf_host h"
  shows "length hs' = length hs \<and> (\<forall>h \<in> set hs'. wf_host h \<and> host_complete h) \<and>
    ((\<forall>h \<in> set hs. pin_ok h) \<longrightarrow> (\<forall>h \<in> set hs'. pin_ok h))"
  using assms
proof (induction hs arbitrary: i hs' saves)
  case (Cons h hs)
  then obtain h' hs1 s1 where h: "pve_host_from_form body i h h = Inr h'"
    "pve_hosts_loop memory body (i + 1) hs = Inr (hs1, s1)" "hs' = h' # hs1"
    by (auto simp: Let_def split: sum.splits)
  then show ?case using Cons.IH [OF h(2)] host_from_form [OF h(1)] Cons.prems(2) by auto
qed simp

definition pve_complete :: "app_config \<Rightarrow> bool" where
  "pve_complete c \<longleftrightarrow> (c_enabled (ac_pve c) \<longrightarrow> (\<forall>h \<in> set (c_hosts (ac_pve c)). host_complete h))"

lemma wf_section_pve:
  assumes "wf_config p" "section_pve E body p = Inr (c, saves)"
  shows "wf_config c \<and> pve_complete c \<and>
    ((\<forall>h \<in> set (c_hosts (ac_pve p)). pin_ok h) \<longrightarrow> (\<forall>h \<in> set (c_hosts (ac_pve c)). pin_ok h))"
proof -
  define p1 where "p1 = p\<lparr>ac_pve := (ac_pve p)\<lparr>c_armed := form_set body ''pve_armed'' 128\<rparr>\<rparr>"
  define p2 where "p2 = (if form_num body ''pve_mains_back_min'' 128 0
     then p1\<lparr>ac_pve := (ac_pve p1)\<lparr>c_mains_back_min := word_of_int (form_int body ''pve_mains_back_min'' 128)\<rparr>\<rparr> else p1)"
  define p3 where "p3 = (if form_num body ''pve_selftest_hours'' 128 0
     then p2\<lparr>ac_pve_selftest_hours := word_of_int (form_int body ''pve_selftest_hours'' 128)\<rparr> else p2)"
  have hosts: "c_hosts (ac_pve p3) = c_hosts (ac_pve p)" by (simp add: p3_def p2_def p1_def)
  have wp: "wf_pve (ac_pve p)" using assms(1) by (simp add: wf_config_def)
  have w3: "wf_config p3" using assms(1) wp by (simp add: p3_def p2_def p1_def wf_config_def wf_pve_def)
  have e: "section_pve E body p = (if \<not> c_enabled (ac_pve p3) then Inr (p3, [])
         else case pve_hosts_loop (we_memory E) body 0 (c_hosts (ac_pve p3)) of
           Inl e \<Rightarrow> Inl e
         | Inr (hs, saves) \<Rightarrow> Inr (p3\<lparr>ac_pve := (ac_pve p3)\<lparr>c_hosts := hs\<rparr>\<rparr>, saves))"
    unfolding section_pve_def Let_def p3_def p2_def p1_def ..
  show ?thesis
  proof (cases "c_enabled (ac_pve p3)")
    case False
    then show ?thesis using e assms(2) w3 hosts by (auto simp: pve_complete_def)
  next
    case True
    then obtain hs where hs: "pve_hosts_loop (we_memory E) body 0 (c_hosts (ac_pve p3)) = Inr (hs, saves)"
      "c = p3\<lparr>ac_pve := (ac_pve p3)\<lparr>c_hosts := hs\<rparr>\<rparr>"
      using e assms(2) by (auto split: sum.splits)
    have l: "length hs = length (c_hosts (ac_pve p)) \<and> (\<forall>h \<in> set hs. wf_host h \<and> host_complete h) \<and>
        ((\<forall>h \<in> set (c_hosts (ac_pve p)). pin_ok h) \<longrightarrow> (\<forall>h \<in> set hs. pin_ok h))"
      using hosts_loop [OF hs(1)] hosts wp by (simp add: wf_pve_def)
    then show ?thesis using w3 wp hs(2) by (simp add: wf_config_def wf_pve_def pve_complete_def)
  qed
qed

lemma wf_apply_section:
  assumes "env_ok E" "wf_config p" "apply_section E sect body p = Inr (c, saves)"
  shows "wf_config c"
proof -
  have plain: "wf_res x \<Longrightarrow> (case x of Inl e \<Rightarrow> Inl e | Inr c \<Rightarrow> Inr (c, [])) = Inr (c, saves) \<Longrightarrow> wf_config c" for x
    by (cases x) (auto simp: wf_res_def)
  have int: "wf_config (section_integrations body p)"
    using assms(2) by (simp add: section_integrations_def wf_config_def wf_pve_def)
  consider "sect = ''bluetti''" | "sect = ''nut''" | "sect = ''wifi''" | "sect = ''pve''" | "sect = ''notify''"
    | "sect = ''integrations''"
    using assms(3) by (auto simp: apply_section_def Let_def split: if_splits)
  then show ?thesis
  proof cases
    case 1
    then show ?thesis using assms(3) plain [OF wf_section_bluetti [OF assms(2), of body]] by (simp add: apply_section_def)
  next
    case 2
    then show ?thesis using assms(3) plain [OF wf_section_nut [OF assms(1,2), of body]] by (simp add: apply_section_def)
  next
    case 3
    then show ?thesis using assms(3) plain [OF wf_section_wifi [OF assms(2), of E body]] by (simp add: apply_section_def)
  next
    case 4
    then have "section_pve E body p = Inr (c, saves)" using assms(3) by (simp add: apply_section_def)
    then show ?thesis using wf_section_pve [OF assms(2)] by blast
  next
    case 5
    then show ?thesis using assms(3) plain [OF wf_section_notify [OF assms(2), of body]] by (simp add: apply_section_def)
  next
    case 6
    then show ?thesis using assms(3) int by (simp add: apply_section_def)
  qed
qed


definition settings_ok :: "app_config \<Rightarrow> bool" where
  "settings_ok c \<longleftrightarrow> wf_config c \<and> (\<forall>h \<in> set (c_hosts (ac_pve c)). host_complete h \<and> pin_ok h)"

text \<open>Only the Proxmox section and the integrations touch the Proxmox block.\<close>

lemma plain_sections_keep_pve:
  "section_bluetti body p = Inr c \<Longrightarrow> ac_pve c = ac_pve p"
  "section_nut E body p = Inr c \<Longrightarrow> ac_pve c = ac_pve p"
  "section_notify body p = Inr c \<Longrightarrow> ac_pve c = ac_pve p"
proof -
  show "section_bluetti body p = Inr c \<Longrightarrow> ac_pve c = ac_pve p"
    by (auto simp: section_bluetti_def Let_def split: if_splits)
  show "section_notify body p = Inr c \<Longrightarrow> ac_pve c = ac_pve p"
    by (auto simp: section_notify_def Let_def split: if_splits)
  have u: "ac_pve (app_config_set_nut_password sha rnd q x) = ac_pve q" for sha rnd q x
    by (simp add: app_config_set_nut_password_def split: prod.splits)
  have keep: "ac_pve q = v \<Longrightarrow> (\<And>q. ac_pve q = v \<Longrightarrow> ac_pve (f q) = v) \<Longrightarrow> ac_pve (Let q f) = v" for q v f
    by simp
  have "section_nut E body p = Inr c \<Longrightarrow> c = projr (section_nut E body p)" by simp
  moreover have "ac_pve (projr (section_nut E body p)) = ac_pve p"
    unfolding section_nut_def Let_def sum.sel
    by (simp add: u if_distrib [of ac_pve] cong: if_cong)
  ultimately show "section_nut E body p = Inr c \<Longrightarrow> ac_pve c = ac_pve p" by simp
qed

lemma wifi_keeps_pve: "section_wifi E body p = Inr c \<Longrightarrow> ac_pve c = ac_pve p"
proof -
  have s: "ac_pve (read_station body q) = ac_pve q" for q by (simp add: read_station_def Let_def)
  have f: "check_fallback E q = Inr c' \<Longrightarrow> ac_pve c' = ac_pve q" for q c'
    by (auto simp: check_fallback_def split: if_splits)
  have t: "check_static q = Inr c' \<Longrightarrow> ac_pve c' = ac_pve q" for q c'
    by (auto simp: check_static_def Let_def split: if_splits)
  have a: "wifi_section_ap E body q = Inr c' \<Longrightarrow> ac_pve c' = ac_pve q" for q c'
    by (auto simp: wifi_section_ap_def Let_def split: if_splits)
  have st: "wifi_section_station E body q = Inr c' \<Longrightarrow> ac_pve c' = ac_pve q" for q c'
    using s f t by (fastforce simp: wifi_section_station_def split: sum.splits if_splits)
  assume "section_wifi E body p = Inr c"
  then show ?thesis using a st by (fastforce simp: section_wifi_def Let_def split: if_splits)
qed

lemma section_keeps_ok:
  assumes "env_ok E" "settings_ok p" "apply_section E sect body p = Inr (c, saves)"
  shows "settings_ok c"
proof -
  have w: "wf_config c" using wf_apply_section assms by (auto simp: settings_ok_def)
  have "\<forall>h \<in> set (c_hosts (ac_pve c)). host_complete h \<and> pin_ok h"
  proof (cases "sect = ''pve''")
    case True
    then have e: "section_pve E body p = Inr (c, saves)" using assms(3) by (simp add: apply_section_def)
    have p: "wf_config p" "\<forall>h \<in> set (c_hosts (ac_pve p)). host_complete h \<and> pin_ok h"
      using assms(2) by (simp_all add: settings_ok_def)
    show ?thesis
    proof (cases "c_enabled (ac_pve c)")
      case en: True
      then show ?thesis using wf_section_pve [OF p(1) e] p(2) by (simp add: pve_complete_def)
    next
      case False
      then have "c_hosts (ac_pve c) = c_hosts (ac_pve p)"
        using e by (auto simp: section_pve_def Let_def split: if_splits sum.splits)
      then show ?thesis using p(2) by simp
    qed
  next
    case False
    have "c_hosts (ac_pve c) = c_hosts (ac_pve p)"
      using assms(3) False
      by (auto simp: apply_section_def Let_def section_integrations_def split: if_splits sum.splits
          dest: plain_sections_keep_pve wifi_keeps_pve)
    then show ?thesis using assms(2) by (simp add: settings_ok_def)
  qed
  then show ?thesis using w by (simp add: settings_ok_def)
qed

section \<open>The handlers as steps\<close>

text \<open>What may change the settings, in any order and whatever the network and the flash do.\<close>

inductive settings_step :: "'s web \<Rightarrow> 's web \<Rightarrow> bool" where
  reconfigure: "env_ok E \<Longrightarrow> settings_step w (snd (h_admin_reconfigure E r w))"
| credentials: "env_ok E \<Longrightarrow> settings_step w (snd (h_admin_credentials E r w))"
| provision: "env_ok E \<Longrightarrow> settings_step w (snd (h_provision E r w))"
| connecting: "settings_step w (connect_begin w)"
| connected: "env_ok E \<Longrightarrow> settings_step w (connect_end E rc w)"

definition web_ok :: "'s web \<Rightarrow> bool" where
  "web_ok w \<longleftrightarrow> settings_ok (wb_cfg w) \<and> settings_ok (wb_pending w)"

lemma web_call_keeps [simp]:
  "wb_cfg (web_call x w) = wb_cfg w" "wb_pending (web_call x w) = wb_pending w" "wb_nvs (web_call x w) = wb_nvs w"
  "wb_calls (web_call x w) = wb_calls w @ [x]" "wb_sessions (web_call x w) = wb_sessions w"
  by (simp_all add: web_call_def)

lemma adopt_keeps:
  "adopt_config E c w = (ok, w') \<Longrightarrow>
   wb_cfg w' = c \<and> wb_pending w' = wb_pending w \<and> wb_calls w' = wb_calls w \<and> wb_sessions w' = wb_sessions w"
  by (auto simp: adopt_config_def split: prod.splits)

lemma save_guests_keeps [simp]:
  "wb_cfg (save_guests E saves w) = wb_cfg w" "wb_pending (save_guests E saves w) = wb_pending w"
  "wb_calls (save_guests E saves w) = wb_calls w"
  by (simp_all add: save_guests_def)

lemma settings_ok_provisioned [simp]: "settings_ok (c\<lparr>ac_provisioned := b\<rparr>) = settings_ok c"
  by (simp add: settings_ok_def)

lemma reconfigure_ok:
  assumes "env_ok E" "web_ok w"
  shows "web_ok (snd (reconfigure_form E body w))"
proof (cases "apply_section E (form_value body ''section'' 16) body (wb_cfg w)")
  case (Inl e)
  then show ?thesis using assms(2) by (simp add: reconfigure_form_def)
next
  case (Inr cs)
  obtain c saves where cs: "cs = (c, saves)" by (cases cs)
  have c: "settings_ok c" using section_keeps_ok [OF assms(1) _ Inr [unfolded cs]] assms(2) by (simp add: web_ok_def)
  obtain ok w' where a: "adopt_config E (c\<lparr>ac_provisioned := True\<rparr>) (save_guests E saves (w\<lparr>wb_pending := c\<rparr>)) = (ok, w')"
    by (metis prod.exhaust)
  have "web_ok w'" using adopt_keeps [OF a] c by (simp add: web_ok_def)
  then show ?thesis using Inr cs a
    by (simp add: reconfigure_form_def Let_def apply_pve_def apply_notify_def web_ok_def)
qed

lemma password_ok: "env_ok E \<Longrightarrow> settings_ok p \<Longrightarrow> str_fits 33 u \<Longrightarrow>
  settings_ok (app_config_set_password (we_sha E) (we_random E) (p\<lparr>ac_auth_user := u\<rparr>) x)"
proof -
  assume a: "env_ok E" "settings_ok p" "str_fits 33 u"
  have "ac_pve (app_config_set_password (we_sha E) (we_random E) (p\<lparr>ac_auth_user := u\<rparr>) x) = ac_pve p"
    by (simp add: app_config_set_password_def split: prod.splits)
  then show ?thesis using a wf_password [OF a(1), of "p\<lparr>ac_auth_user := u\<rparr>" x]
    by (simp add: settings_ok_def wf_text_fields)
qed

lemma admin_name_fits: "str_fits 33 (strlcpy 33 (if form_value body k n = [] then ''admin'' else form_value body k n))"
  if "0 < n"
  using form_value_no_nul [OF that, of body k] by (intro str_fits_strlcpy) auto

lemma form_login_ok: "env_ok E \<Longrightarrow> settings_ok c \<Longrightarrow> settings_ok (form_login E body c)"
  unfolding form_login_def Let_def by (intro password_ok admin_name_fits) simp_all

lemma adopted_ok:
  assumes "adopt_config E c w = (ok, w')" "settings_ok c" "settings_ok (wb_pending w)"
  shows "web_ok w'"
  using adopt_keeps [OF assms(1)] assms(2,3) by (simp add: web_ok_def)

lemma credentials_ok:
  assumes "env_ok E" "web_ok w"
  shows "web_ok (snd (credentials_form E body w))"
proof -
  let ?p = "form_login E body (wb_cfg w)"
  have p: "settings_ok ?p" using assms(2) by (intro form_login_ok assms(1)) (simp add: web_ok_def)
  obtain ok w' where a: "adopt_config E ?p (w\<lparr>wb_pending := ?p\<rparr>) = (ok, w')" by (metis prod.exhaust)
  then show ?thesis using assms(2) adopted_ok [OF a p] p by (simp add: credentials_form_def Let_def)
qed

lemma settings_text_ok:
  "settings_ok p \<Longrightarrow> str_fits 33 s \<Longrightarrow> settings_ok (p\<lparr>ac_ap_ssid := s\<rparr>)"
  "settings_ok p \<Longrightarrow> str_fits 33 s \<Longrightarrow> str_fits 65 k \<Longrightarrow> settings_ok (p\<lparr>ac_wifi_mode := m, ac_ap_ssid := s, ac_ap_pass := k\<rparr>)"
  "settings_ok p \<Longrightarrow> str_fits 33 s \<Longrightarrow> str_fits 65 k \<Longrightarrow> settings_ok (p\<lparr>ac_wifi_mode := m, ac_wifi_ssid := s, ac_wifi_pass := k\<rparr>)"
  by (simp_all add: settings_ok_def wf_text_fields)

lemma settings_if: "settings_ok x \<Longrightarrow> settings_ok y \<Longrightarrow> settings_ok (if b then x else y)"
  by simp

lemma provision_ap_ok:
  assumes "settings_ok p" "web_ok w"
  shows "web_ok (snd (provision_ap E body p w))"
proof -
  define a where "a = p\<lparr>ac_wifi_mode := APP_WIFI_AP, ac_ap_ssid := form_value body ''ap_ssid'' 33,
    ac_ap_pass := form_value body ''ap_pass'' 65\<rparr>"
  define b where "b = (if ac_ap_ssid a = [] then a\<lparr>ac_ap_ssid := default_ssid E\<rparr> else a)"
  have a: "settings_ok a" unfolding a_def by (intro settings_text_ok assms form_value_fits) simp_all
  have b: "settings_ok b" unfolding b_def by (rule settings_if [OF settings_text_ok(1) [OF a default_ssid_fits] a])
  obtain ok w' where ad: "adopt_config E (b\<lparr>ac_provisioned := True\<rparr>) (w\<lparr>wb_pending := b\<rparr>) = (ok, w')"
    by (metis prod.exhaust)
  then have "web_ok w'" by (rule adopted_ok) (simp_all add: b)
  then show ?thesis
    unfolding provision_ap_def Let_def a_def [symmetric] b_def [symmetric] ad using a assms(2) by (simp add: web_ok_def)
qed

lemma provision_station_ok: "settings_ok p \<Longrightarrow> web_ok w \<Longrightarrow> web_ok (snd (provision_station body p w))"
proof -
  assume p: "settings_ok p" and w: "web_ok w"
  define a where "a = p\<lparr>ac_wifi_mode := APP_WIFI_STATION, ac_wifi_ssid := form_value body ''ssid'' 33,
    ac_wifi_pass := form_value body ''pass'' 65\<rparr>"
  have "settings_ok a" unfolding a_def by (intro settings_text_ok p form_value_fits) simp_all
  then show ?thesis unfolding provision_station_def Let_def a_def [symmetric] using w by (simp add: web_ok_def)
qed

lemma provision_ok: "env_ok E \<Longrightarrow> web_ok w \<Longrightarrow> web_ok (snd (provision_form E body w))"
  using form_login_ok [of E "wb_cfg w" body] provision_ap_ok [of "form_login E body (wb_cfg w)" w E body]
    provision_station_ok [of "form_login E body (wb_cfg w)" w body]
  by (simp add: provision_form_def Let_def) (simp add: web_ok_def)

lemma connect_begin_ok: "web_ok w \<Longrightarrow> web_ok (connect_begin w)"
  by (simp add: connect_begin_def web_ok_def)

lemma connect_end_ok: "web_ok w \<Longrightarrow> web_ok (connect_end E rc w)"
proof -
  assume w: "web_ok w"
  obtain ok w' where ad: "adopt_config E ((wb_pending w)\<lparr>ac_provisioned := True\<rparr>) w = (ok, w')"
    by (metis prod.exhaust)
  then have "web_ok w'" using w by (intro adopted_ok [OF ad]) (simp_all add: web_ok_def)
  then show ?thesis using w ad by (simp add: connect_end_def web_ok_def)
qed

lemma with_body_keeps:
  "(\<And>body. P (snd (h body w))) \<Longrightarrow> P w \<Longrightarrow> P (snd (with_body limit h E r w))"
  by (auto simp: with_body_def split: body.split)

lemma require_auth_keeps:
  "(\<And>S. P (snd (h E r (w\<lparr>wb_sessions := S\<rparr>)))) \<Longrightarrow> (\<And>S. P (w\<lparr>wb_sessions := S\<rparr>)) \<Longrightarrow> P (snd (require_auth h E r w))"
  by (simp add: require_auth_def Let_def split: prod.split)

lemma web_ok_sessions [simp]: "web_ok (w\<lparr>wb_sessions := S\<rparr>) = web_ok w"
  by (simp add: web_ok_def)

lemma settings_step_ok: "settings_step w w' \<Longrightarrow> web_ok w \<Longrightarrow> web_ok w'"
proof (induction rule: settings_step.induct)
  case (reconfigure E w r)
  have f: "web_ok (snd (with_body 65536 (reconfigure_form E) E r v))" if "web_ok v" for v
    by (rule with_body_keeps [where P = web_ok]) (simp_all add: reconfigure_ok reconfigure.hyps that)
  show ?case unfolding h_admin_reconfigure_def
    by (rule require_auth_keeps [where P = web_ok]) (simp_all add: f reconfigure.prems)
next
  case (credentials E w r)
  have f: "web_ok (snd (with_body 1024 (credentials_form E) E r v))" if "web_ok v" for v
    by (rule with_body_keeps [where P = web_ok]) (simp_all add: credentials_ok credentials.hyps that)
  show ?case unfolding h_admin_credentials_def
    by (rule require_auth_keeps [where P = web_ok]) (simp_all add: f credentials.prems)
next
  case (provision E w r)
  then show ?case unfolding h_provision_def by (intro with_body_keeps [where P = web_ok]) (simp_all add: provision_ok)
next
  case (connecting w)
  then show ?case by (simp add: connect_begin_ok)
next
  case (connected E w rc)
  then show ?case by (simp add: connect_end_ok)
qed

section \<open>Refused and accepted forms\<close>

lemma reconfigure_refused:
  assumes "reconfigure_form E body w = (rep, w')" "rp_status rep \<noteq> 200" "rp_status rep \<noteq> 500"
  shows "w' = w"
proof (cases "apply_section E (form_value body ''section'' 16) body (wb_cfg w)")
  case (Inl e)
  then show ?thesis using assms(1) by (simp add: reconfigure_form_def)
next
  case (Inr cs)
  obtain c saves ok w1 where "cs = (c, saves)"
    "adopt_config E (c\<lparr>ac_provisioned := True\<rparr>) (save_guests E saves (w\<lparr>wb_pending := c\<rparr>)) = (ok, w1)"
    by (metis prod.exhaust)
  then have "rp_status rep = 200 \<or> rp_status rep = 500"
    using assms(1) Inr by (auto simp: reconfigure_form_def Let_def refuse_def ok_live_def ok_reboot_def answer_def split: if_splits)
  then show ?thesis using assms(2,3) by simp
qed

definition network_ok :: "app_config \<Rightarrow> bool" where
  "network_ok c \<longleftrightarrow>
     (if ac_wifi_mode c = APP_WIFI_AP
      then ac_ap_ssid c \<noteq> [] \<and> (ac_ap_pass c = [] \<or> 8 \<le> length (ac_ap_pass c))
      else ac_wifi_ssid c \<noteq> [] \<and>
        (ac_use_static_ip c \<longrightarrow> valid_ipv4 (ac_static_ip c) \<and> valid_ipv4 (ac_static_mask c) \<and>
           (ac_static_gw c = [] \<or> valid_ipv4 (ac_static_gw c)) \<and> (ac_static_dns c = [] \<or> valid_ipv4 (ac_static_dns c))) \<and>
        (ac_fb_ap_enabled c \<longrightarrow> ac_fb_ap_ssid c \<noteq> [] \<and> (ac_fb_ap_pass c = [] \<or> 8 \<le> length (ac_fb_ap_pass c))))"

lemma default_ssid_nonempty: "default_ssid E \<noteq> []"
  by (simp add: default_ssid_def wifi_mgr_default_ap_ssid_def snprintf_buf_def)

lemma ap_section_network: "wifi_section_ap E body p = Inr c \<Longrightarrow> network_ok c"
  by (auto simp: wifi_section_ap_def Let_def network_ok_def default_ssid_nonempty not_less split: if_splits)

lemma read_station_mode: "ac_wifi_mode (read_station body p) = APP_WIFI_STATION"
  by (simp add: read_station_def Let_def)

lemma check_fallback_network:
  "check_fallback E q = Inr p \<Longrightarrow>
   ac_wifi_mode p = ac_wifi_mode q \<and>
   (ac_fb_ap_enabled p \<longrightarrow> ac_fb_ap_ssid p \<noteq> [] \<and> (ac_fb_ap_pass p = [] \<or> 8 \<le> length (ac_fb_ap_pass p)))"
  by (auto simp: check_fallback_def default_ssid_nonempty not_less split: if_splits)

lemma mask_default_valid: "valid_ipv4 ''255.255.255.0''"
  by code_simp

lemma check_static_network:
  "check_static p = Inr c \<Longrightarrow>
   ac_wifi_mode c = ac_wifi_mode p \<and> ac_wifi_ssid c = ac_wifi_ssid p \<and> ac_fb_ap_enabled c = ac_fb_ap_enabled p \<and>
   ac_fb_ap_ssid c = ac_fb_ap_ssid p \<and> ac_fb_ap_pass c = ac_fb_ap_pass p \<and>
   (ac_use_static_ip c \<longrightarrow> valid_ipv4 (ac_static_ip c) \<and> valid_ipv4 (ac_static_mask c) \<and>
      (ac_static_gw c = [] \<or> valid_ipv4 (ac_static_gw c)) \<and> (ac_static_dns c = [] \<or> valid_ipv4 (ac_static_dns c)))"
  using mask_default_valid
  by (auto simp: check_static_def Let_def strlcpy_fits split: if_splits)

lemma station_section_network: "wifi_section_station E body p = Inr c \<Longrightarrow> network_ok c"
proof -
  assume "wifi_section_station E body p = Inr c"
  then obtain q where q: "check_fallback E (read_station body p) = Inr q" "ac_wifi_ssid q \<noteq> []" "check_static q = Inr c"
    by (auto simp: wifi_section_station_def split: sum.splits if_splits)
  then show ?thesis using check_fallback_network [OF q(1)] check_static_network [OF q(3)] read_station_mode
    by (simp add: network_ok_def)
qed


lemma section_network: "section_wifi E body p = Inr c \<Longrightarrow> network_ok c"
  using ap_section_network station_section_network by (auto simp: section_wifi_def Let_def split: if_splits)

lemma network_ok_provisioned [simp]: "network_ok (c\<lparr>ac_provisioned := b\<rparr>) = network_ok c"
  by (simp add: network_ok_def)

text \<open>An accepted form: the candidate, and what the store then holds.\<close>

lemma reconfigure_accepted:
  assumes "reconfigure_form E body w = (rep, w')" "rp_status rep = 200"
  shows "\<exists>c saves st. apply_section E (form_value body ''section'' 16) body (wb_cfg w) = Inr (c, saves) \<and>
    wb_cfg w' = c\<lparr>ac_provisioned := True\<rparr> \<and> app_config_save (we_nv E) (we_memory E) st (wb_cfg w') = (ESP_OK, wb_nvs w')"
proof (cases "apply_section E (form_value body ''section'' 16) body (wb_cfg w)")
  case (Inl e)
  then show ?thesis using assms by (auto simp: reconfigure_form_def refuse_def)
next
  case (Inr cs)
  obtain c saves where cs: "cs = (c, saves)" by (cases cs)
  let ?w = "save_guests E saves (w\<lparr>wb_pending := c\<rparr>)"
  obtain ok w1 where a: "adopt_config E (c\<lparr>ac_provisioned := True\<rparr>) ?w = (ok, w1)" by (metis prod.exhaust)
  have ok: "ok" using assms Inr cs a by (auto simp: reconfigure_form_def Let_def refuse_def split: if_splits)
  then have s: "app_config_save (we_nv E) (we_memory E) (wb_nvs ?w) (c\<lparr>ac_provisioned := True\<rparr>) = (ESP_OK, wb_nvs w1)"
    "wb_cfg w1 = c\<lparr>ac_provisioned := True\<rparr>"
    using a by (auto simp: adopt_config_def split: prod.splits)
  have "wb_cfg w' = wb_cfg w1 \<and> wb_nvs w' = wb_nvs w1"
    using assms(1) Inr cs a ok by (auto simp: reconfigure_form_def Let_def apply_pve_def apply_notify_def split: if_splits)
  then show ?thesis using Inr cs s by auto
qed

section \<open>Example states\<close>

definition ex_web_env :: "(string \<Rightarrow> byte list option) web_env" where
  "ex_web_env = \<lparr>we_sha = (\<lambda>bs. replicate 32 0), we_random = replicate 16 7, we_memory = True, we_nv = map_nvs,
     we_mac = (1, 2), we_now = 0\<rparr>"

definition ex_web :: "(string \<Rightarrow> byte list option) web" where
  "ex_web = \<lparr>wb_cfg = ex_config, wb_pending = ex_config, wb_nvs = Map.empty, wb_sessions = sessions0, wb_state = ST_IDLE,
     wb_detail = [], wb_calls = []\<rparr>"

definition ex_post :: "string \<Rightarrow> request" where
  "ex_post b = \<lparr>rq_len = int (length b), rq_recv = [b], rq_query = [], rq_cookie = None, rq_confirm = []\<rparr>"

definition ex_setup :: request where "ex_setup = ex_post ''ssid=home&pass=secret12&auth_pass=owner''"
definition ex_bad_form :: request where "ex_bad_form = ex_post ''section=nope''"

definition ex_ap_form :: string where
  "ex_ap_form = ''section=wifi&wifi_mode=ap&ap_ssid=van&ap_pass=longenough''"

lemma ex_web_env_ok: "env_ok ex_web_env"
  by (simp add: env_ok_def ex_web_env_def)

lemma ex_config_pve: "ac_pve ex_config = app_config_pve_defaults"
  by (simp add: ex_config_def)

lemma ex_web_ok: "settings_ok ex_config"
  using ex_config_wf by (simp add: settings_ok_def ex_config_pve app_config_pve_defaults_def host_complete_def pin_ok_def)

lemma ex_config_no_auth: "\<not> ac_auth_set ex_config"
  by (simp add: ex_config_def app_config_defaults_def app_config_set_nut_password_def Let_def split: prod.splits)

lemma ex_ap_values:
  "form_value ex_ap_form ''section'' 16 = ''wifi''" "form_value ex_ap_form ''wifi_mode'' 8 = ''ap''"
  "form_value ex_ap_form ''ap_ssid'' 33 = ''van''" "form_given ex_ap_form ''ap_pass'' 128"
  "form_value ex_ap_form ''ap_pass'' 128 = ''longenough''" "\<not> form_set ex_ap_form ''ap_open'' 128"
  "\<not> form_given ex_ap_form ''hostname'' 128"
  by code_simp+

lemma ex_ap_accepted: "rp_status (fst (reconfigure_form ex_web_env ex_ap_form ex_web)) = 200"
proof -
  have "\<exists>c. section_wifi ex_web_env ex_ap_form ex_config = Inr c"
    by (simp add: section_wifi_def wifi_section_ap_def ex_ap_values Let_def strlcpy_fits)
  then obtain c where "apply_section ex_web_env ''wifi'' ex_ap_form ex_config = Inr (c, [])" by (auto simp: apply_section_def)
  then show ?thesis
    by (simp add: reconfigure_form_def ex_ap_values ex_web_def adopt_config_def app_config_save_def save_guests_def
        ex_web_env_def map_nvs_def Let_def ok_reboot_def answer_def)
qed

section \<open>Properties\<close>

text \<open>A settings form that is refused, for what it holds or for want of a session, leaves the live and the
  stored configuration as they were and asks nothing of any other component.\<close>

theorem refused_form_changes_nothing:
  assumes "h_admin_reconfigure E r w = (rep, w')" "rp_status rep \<notin> {200, 500}"
  shows "wb_cfg w' = wb_cfg w \<and> wb_nvs w' = wb_nvs w \<and> wb_calls w' = wb_calls w"
proof -
  obtain ok S where a: "auth_ok (Some (wb_cfg w)) r (we_now E) (wb_sessions w) = (ok, S)" by (metis prod.exhaust)
  show ?thesis
  proof (cases "ok")
    case False
    then show ?thesis using assms(1) a by (auto simp: h_admin_reconfigure_def require_auth_def)
  next
    case True
    then have b: "with_body 65536 (reconfigure_form E) E r (w\<lparr>wb_sessions := S\<rparr>) = (rep, w')"
      using assms(1) a by (simp add: h_admin_reconfigure_def require_auth_def)
    then have "w' = w\<lparr>wb_sessions := S\<rparr>"
      using assms(2) reconfigure_refused [of E _ "w\<lparr>wb_sessions := S\<rparr>" rep w']
      by (auto simp: with_body_def server_error_def refuse_def split: if_splits body.splits)
    then show ?thesis by simp
  qed
qed

theorem refused_form_changes_nothing_witness:
  "rp_status (fst (h_admin_reconfigure ex_web_env ex_bad_form ex_web)) = 400 \<and>
   wb_cfg (snd (h_admin_reconfigure ex_web_env ex_bad_form ex_web)) = ex_config"
proof -
  obtain rep w' where h: "h_admin_reconfigure ex_web_env ex_bad_form ex_web = (rep, w')" by (metis prod.exhaust)
  have b: "recv_body 65536 ex_bad_form = Body ''section=nope''" by code_simp
  have v: "form_value ''section=nope'' ''section'' 16 = ''nope''" by code_simp
  have a: "auth_ok (Some ex_config) ex_bad_form 0 sessions0 = (True, sessions0)"
    by (simp add: auth_ok_def ex_config_no_auth)
  have "rp_status rep = 400"
    using h b v a by (auto simp: h_admin_reconfigure_def require_auth_def with_body_def ex_bad_form_def ex_post_def ex_web_env_def ex_web_def
        reconfigure_form_def apply_section_def refuse_def Let_def)
  then show ?thesis using refused_form_changes_nothing [OF h] h by (simp add: ex_web_def)
qed



text \<open>A settings form that is answered with success is stored: the flash holds the image of the live
  configuration.\<close>

theorem accepted_form_stored:
  assumes "nvs_ok (we_nv E) view" "reconfigure_form E body w = (rep, w')" "rp_status rep = 200"
  shows "view (wb_nvs w') CFG_KEY = Some (enc_u32 CFG_VERSION @ enc_config (wb_cfg w'))"
proof -
  obtain st where "app_config_save (we_nv E) (we_memory E) st (wb_cfg w') = (ESP_OK, wb_nvs w')"
    using reconfigure_accepted [OF assms(2,3)] by blast
  then show ?thesis using save_stores [OF assms(1)] by simp
qed

theorem accepted_form_stored_witness:
  "wb_nvs (snd (reconfigure_form ex_web_env ex_ap_form ex_web)) CFG_KEY =
     Some (enc_u32 CFG_VERSION @ enc_config (wb_cfg (snd (reconfigure_form ex_web_env ex_ap_form ex_web))))"
proof -
  obtain rep w' where h: "reconfigure_form ex_web_env ex_ap_form ex_web = (rep, w')" by (metis prod.exhaust)
  have ok: "rp_status rep = 200" using ex_ap_accepted h by simp
  have "nvs_ok (we_nv ex_web_env) (\<lambda>st. st)" using map_nvs_ok by (simp add: ex_web_env_def)
  from accepted_form_stored [OF this h ok] show ?thesis using h by simp
qed

end
