(* ===== verification/Web_Status.thy ===== *)
theory Web_Status
  imports Web_Text Web_Settings
begin

text \<open>
  The status page of the admin server, \<^verbatim>\<open>h_admin_status\<close> of
  \<^verbatim>\<open>components/provisioning/provisioning.c\<close>: what it gathers from the other components and the JSON it prints.
  \<open>status_view\<close> holds the states and answers it reads, as their own theories model them.

  The lemma shows that a page that fits its buffer is read back as the object of its members.
\<close>

record status_view =
  sw_wifi :: wifi
  sw_ap_netif :: bool
  sw_ap_info :: "string option"
  sw_gw_info :: "string option"
  sw_dns_info :: "string option"
  sw_version :: string
  sw_date :: string
  sw_time :: string
  sw_ota :: bool
  sw_link :: "bool \<times> bluetti_state"
  sw_connected :: bool
  sw_nut :: nut_server
  sw_led :: bool
  sw_gpio :: int
  sw_pve :: pve_status
  sw_guests :: "nat \<Rightarrow> pve_guest_status list"

text \<open>A power figure in whole watts, halves away from zero; -100000 stands for a figure that is not
  known.\<close>

definition watt_round :: "rat \<Rightarrow> int" where
  "watt_round f = f2i (fadd f (if f < 0 then - (1 / 2) else 1 / 2))"

definition watt_figure :: "bool \<Rightarrow> rat \<Rightarrow> int" where
  "watt_figure have f = (if have \<and> f > BLUETTI_UNKNOWN_F then watt_round f else - 100000)"

text \<open>The status and the runtime come from the variables NUT clients read.\<close>

definition nut_text :: "nut_server \<Rightarrow> string \<Rightarrow> nat \<Rightarrow> string" where
  "nut_text s n len = (case nut_server_get_var s (Some n) len of (found, v) \<Rightarrow> if found then the v else [])"

definition nut_runtime :: "nut_server \<Rightarrow> int" where
  "nut_runtime s = (if fst (nut_server_get_var s (Some ''battery.runtime'') 16)
     then atoi (nut_text s ''battery.runtime'' 16) else -1)"

definition known_or :: "bool \<Rightarrow> int \<Rightarrow> int" where
  "known_or have i = (if have \<and> i \<ge> 0 then i else -1)"

definition network_members :: "app_config \<Rightarrow> status_view \<Rightarrow> members" where
  "network_members c v =
     (let ap = (ac_wifi_mode c = APP_WIFI_AP)
      in [js ''wifi_mode'' (if ap then ''ap'' else ''station''),
          js ''network'' (if ap then ac_ap_ssid c else ac_wifi_ssid c),
          js ''ip'' (if ap then wifi_mgr_ap_ip 16 (sw_ap_netif v) (sw_ap_info v) (sw_wifi v) else wifi_mgr_sta_ip 16 (sw_wifi v)),
          js ''addressing'' (if ap then ''ap'' else if ac_use_static_ip c then ''static'' else ''dhcp''),
          js ''gateway'' (if ap then ''-'' else wifi_mgr_sta_gw 16 (sw_gw_info v)),
          js ''dns'' (if ap then ''-'' else wifi_mgr_sta_dns 16 (sw_dns_info v)),
          js ''hostname'' (ac_hostname c), js ''fw_version'' (sw_version v), js ''fw_date'' (sw_date v @ '' '' @ sw_time v),
          jb ''ota'' (sw_ota v)])"

definition power_members :: "app_config \<Rightarrow> status_view \<Rightarrow> members" where
  "power_members c v =
     (case sw_link v of (have, st) \<Rightarrow>
        [js ''ups'' (ac_ups_name c), jn ''nut_port'' (unat (ac_nut_port c)), js ''ble_target'' (ac_ble_addr c),
         jb ''ble_connected'' (sw_connected v), jb ''telemetry_valid'' (have \<and> b_valid st),
         ji ''battery_pct'' (if have then b_soc_pct st else 0), jn ''low_pct'' (unat (ac_low_pct c)),
         jb ''ac_input'' (have \<and> b_ac_input_present st), jb ''charging'' (have \<and> b_charging st),
         js ''model'' (if have \<and> b_model st \<noteq> [] then b_model st else []), jn ''log_level'' (unat (ac_log_level c)),
         js ''ups_status'' (nut_text (sw_nut v) ''ups.status'' 24), ji ''battery_runtime_s'' (nut_runtime (sw_nut v)),
         ji ''minutes_remaining'' (known_or have (b_minutes_remaining st)),
         ji ''output_watts'' (watt_figure have (b_output_watts st)), ji ''ac_out_watts'' (watt_figure have (b_ac_out_watts st)),
         ji ''dc_out_watts'' (watt_figure have (b_dc_out_watts st)), ji ''input_watts'' (watt_figure have (b_input_watts st)),
         ji ''ac_in_watts'' (watt_figure have (b_ac_in_watts st)), ji ''dc_in_watts'' (watt_figure have (b_dc_in_watts st)),
         ji ''battery_watts'' (watt_figure have (b_battery_watts st)), ji ''soc_min'' (known_or have (b_soc_min st)),
         ji ''soc_max'' (known_or have (b_soc_max st)), jb ''led'' (sw_led v), ji ''led_gpio'' (sw_gpio v),
         jb ''fb_ap_up'' (wifi_mgr_fallback_ap_active (sw_wifi v)), jb ''configured'' (ac_ble_addr c \<noteq> []),
         jb ''nut_enabled'' (ac_nut_enabled c), jb ''tg_enabled'' (ac_tg_enabled c)])"

definition host_state :: "pve_host_status \<Rightarrow> members" where
  "host_state h =
     [js ''node'' (hs_node h), jb ''enabled'' (hs_enabled h), jb ''pinned'' (hs_pinned h), jb ''fired'' (hs_fired h),
      ji ''countdown_s'' (hs_countdown_s h), js ''last'' (hs_last h), jb ''ok'' (hs_last_ok h),
      ji ''checked_s'' (hs_last_checked_s h)]"

definition guest_state :: "pve_guest_status \<Rightarrow> members" where
  "guest_state g =
     [ji ''id'' (gs_id g), jb ''fired'' (gs_fired g), ji ''countdown_s'' (gs_countdown_s g), js ''last'' (gs_last g),
      jb ''ok'' (gs_last_ok g)]"

definition pve_state :: "pve_status \<Rightarrow> members" where
  "pve_state ps = [jb ''enabled'' (st_enabled ps), jb ''armed'' (st_armed ps), ji ''on_battery_s'' (st_on_battery_s ps)]"

definition host_states :: "status_view \<Rightarrow> (members \<times> members list) list" where
  "host_states v = map (\<lambda>(i, h). (host_state h, map guest_state (sw_guests v i))) (enumerate 0 (st_hosts (sw_pve v)))"

definition status_page :: "app_config \<Rightarrow> status_view \<Rightarrow> string" where
  "status_page c v = json_page (network_members c v @ power_members c v) (pve_state (sw_pve v)) (host_states v)"

text \<open>What the page says.\<close>

definition status_json :: "app_config \<Rightarrow> status_view \<Rightarrow> json" where
  "status_json c v = page_json (network_members c v @ power_members c v) (pve_state (sw_pve v)) (host_states v)"

lemma status_read_back:
  "plain_json (status_json c v) \<Longrightarrow> length (print_json (status_json c v)) < PAGE_MAX \<Longrightarrow>
   parse_json (status_page c v) = Some (status_json c v)"
  unfolding status_page_def status_json_def
  by (rule page_read_back) (auto simp: network_members_def Let_def pve_state_def host_states_def host_state_def list_all_iff)

end
