(* ===== verification/Web_Admin.thy ===== *)
theory Web_Admin
  imports Web_Status Log_Ring Ota_Github
begin

text \<open>
  The rest of the admin server in \<^verbatim>\<open>components/provisioning/provisioning.c\<close>: scanning, the live switches, device
  controls, the log, the configuration as it is shown, firmware updates, and the routes.

  What the handlers learn from other components (the result of a device write, of a test, of starting
  an update, the states the status page shows) is the record \<open>answers\<close>.

  The lemmas show which routes need a session and which do not, that nothing secret leaves in the
  configuration and status pages, that a JSON reader gets their members back, what a hostile network
  name does to the scan list, and that an uploaded image boots only when every byte of it was written.
\<close>

section \<open>Bluetooth scan results\<close>

definition BLE_ROWS :: nat where "BLE_ROWS = 24"

definition merge_entry :: "scan_entry \<Rightarrow> scan_entry \<Rightarrow> scan_entry" where
  "merge_entry e row =
     (let row = row\<lparr>se_rssi := se_rssi e\<rparr>
      in if se_name e \<noteq> [] then row\<lparr>se_name := strlcpy 32 (se_name e), se_looks_like_bluetti := se_looks_like_bluetti e\<rparr> else row)"

definition ble_scan_cb :: "scan_entry \<Rightarrow> scan_entry list \<Rightarrow> scan_entry list" where
  "ble_scan_cb e rows =
     (if \<exists>row \<in> set rows. se_addr row = se_addr e
      then update_first (\<lambda>row. se_addr row = se_addr e) (merge_entry e) rows
      else if length rows < BLE_ROWS then rows @ [e] else rows)"

section \<open>Text of the answers\<close>

text \<open>A row loop that stops once 1900 characters are out, as the two scan lists do; what follows is
  written into what is left of the 2048-byte buffer.\<close>

fun rows_until :: "(nat \<Rightarrow> 'a \<Rightarrow> string) \<Rightarrow> nat \<Rightarrow> string \<Rightarrow> 'a list \<Rightarrow> string" where
  "rows_until row i acc [] = acc"
| "rows_until row i acc (x # xs) =
     (if length acc < 1900 then rows_until row (i + 1) (acc @ row i x) xs else acc)"

definition scan_list :: "string \<Rightarrow> (nat \<Rightarrow> 'a \<Rightarrow> string) \<Rightarrow> 'a list \<Rightarrow> reply" where
  "scan_list start row xs = answer (snprintf_buf 2048 (rows_until row 0 start xs @ '']}''))"

definition ble_row :: "nat \<Rightarrow> scan_entry \<Rightarrow> string" where
  "ble_row i e = (if i \<noteq> 0 then '','' else []) @
     obj [js ''addr'' (se_addr e), js ''name'' (se_name e), ji ''rssi'' (se_rssi e), jb ''bluetti'' (se_looks_like_bluetti e)]"

definition ap_row :: "nat \<Rightarrow> wifi_scan_entry \<Rightarrow> string" where
  "ap_row i a = (if i \<noteq> 0 then '','' else []) @
     obj [js ''ssid'' (ap_ssid a), ji ''rssi'' (ap_rssi a), jb ''lock'' (ap_authmode a \<noteq> 0)]"

section \<open>What other components answer\<close>

record answers =
  an_scanning :: bool
  an_scan_started :: bool
  an_ble :: "scan_entry list"
  an_aps :: "wifi_scan_entry list option"
  an_controls :: "string option"
  an_write :: "string \<Rightarrow> int \<Rightarrow> int"
  an_identify :: bool
  an_led :: bool
  an_gpio :: int
  an_log :: "char log_ring"
  an_update_start :: "string \<Rightarrow> int"
  an_update_status :: "ota_gh_state \<times> int \<times> string"
  an_releases :: "string + ota_gh_release list"
  an_view :: status_view
  an_login_page :: string
  an_admin_page :: string
  an_pve_test :: "pve_host \<Rightarrow> pve_guest list \<Rightarrow> int \<times> string \<times> string"
  an_pve_list :: "pve_host \<Rightarrow> string + string"
  an_notify_test :: "notify_config \<Rightarrow> string \<Rightarrow> string option"

definition h_ble_scan :: "answers \<Rightarrow> request \<Rightarrow> 's web \<Rightarrow> reply \<times> 's web" where
  "h_ble_scan A r w =
     (let poll_only = contains ''poll=1'' (strlcpy 16 (rq_query r));
          restart = \<not> poll_only \<and> \<not> an_scanning A;
          rows = (if restart then [] else an_ble A)
      in (scan_list (''{\"scanning\":'' @ (if (if restart then an_scan_started A else an_scanning A) then ''true'' else ''false'') @ '',\"devices\":['') ble_row rows,
          if restart then web_call (Call_ble_scan 7000) w else w))"

definition h_wifi_scan :: "answers \<Rightarrow> reply" where
  "h_wifi_scan A = scan_list ''{\"aps\":['' ap_row (case an_aps A of None \<Rightarrow> [] | Some aps \<Rightarrow> aps)"

section \<open>The log\<close>

fun strstr_after :: "string \<Rightarrow> string \<Rightarrow> string option" where
  "strstr_after p [] = (if p = [] then Some [] else None)"
| "strstr_after p (c # s) = (if has_prefix p (c # s) then Some (drop (length p) (c # s)) else strstr_after p s)"

definition strtoull :: "string \<Rightarrow> nat" where
  "strtoull s =
     (let t = dropWhile is_space s;
          neg = (t \<noteq> [] \<and> hd t = CHR ''-'');
          u = (if t \<noteq> [] \<and> (hd t = CHR ''-'' \<or> hd t = CHR ''+'') then tl t else t);
          v = nat (fst (read_digits 0 u))
      in if v \<ge> 2 ^ 64 then 2 ^ 64 - 1 else if neg then (2 ^ 64 - v) mod 2 ^ 64 else v)"

text \<open>The answer carries the next offset in a header; here it comes second.\<close>

definition h_admin_logs :: "answers \<Rightarrow> request \<Rightarrow> reply \<times> nat" where
  "h_admin_logs A r =
     (let from = (case strstr_after ''from='' (strlcpy 40 (rq_query r)) of None \<Rightarrow> 0 | Some p \<Rightarrow> strtoull p);
          (piece, next) = log_ring_read (an_log A) from 4096
      in (answer piece, next))"


section \<open>The configuration page\<close>

definition config_members :: "'s web_env \<Rightarrow> app_config \<Rightarrow> members" where
  "config_members E c =
     [js ''ble_addr'' (ac_ble_addr c), jn ''log_level'' (unat (ac_log_level c)), jb ''controls_enabled'' (ac_controls_enabled c),
      jb ''nut_enabled'' (ac_nut_enabled c), js ''ups_name'' (ac_ups_name c), jn ''nut_port'' (unat (ac_nut_port c)),
      jn ''low_pct'' (unat (ac_low_pct c)), jn ''poll_ms'' (unat (ac_poll_ms c)), js ''nut_user'' (ac_nut_user c),
      jb ''nut_auth_set'' (ac_nut_auth_set c), jn ''ac_rating_w'' (unat (ac_ac_rating_w c)),
      jn ''battery_wh'' (unat (ac_battery_wh c)), jn ''runtime_low_s'' (unat (ac_runtime_low_s c)),
      js ''wifi_mode'' (if ac_wifi_mode c = APP_WIFI_AP then ''ap'' else ''station''), js ''wifi_ssid'' (ac_wifi_ssid c),
      jb ''has_wifi_pass'' (ac_wifi_pass c \<noteq> []),
      js ''ap_ssid'' (if ac_ap_ssid c \<noteq> [] then ac_ap_ssid c else default_ssid E),
      jb ''has_ap_pass'' (ac_ap_pass c \<noteq> []), js ''default_ap_ssid'' (default_ssid E),
      js ''auth_user'' (ac_auth_user c), jb ''auth_set'' (ac_auth_set c),
      js ''hostname'' (ac_hostname c), jb ''use_static_ip'' (ac_use_static_ip c), js ''static_ip'' (ac_static_ip c),
      js ''static_mask'' (ac_static_mask c), js ''static_gw'' (ac_static_gw c), js ''static_dns'' (ac_static_dns c),
      jb ''fb_ap_enabled'' (ac_fb_ap_enabled c),
      js ''fb_ap_ssid'' (if ac_fb_ap_ssid c \<noteq> [] then ac_fb_ap_ssid c else default_ssid E),
      jb ''has_fb_ap_pass'' (ac_fb_ap_pass c \<noteq> []),
      jb ''tg_enabled'' (ac_tg_enabled c), js ''tg_chat'' (ac_tg_chat c), jb ''has_tg_token'' (ac_tg_token c \<noteq> []),
      jb ''tg_on_power'' (ac_tg_on_power c), jb ''tg_on_low_batt'' (ac_tg_on_low_batt c), jb ''tg_on_link'' (ac_tg_on_link c),
      jb ''tg_on_pve_host'' (ac_tg_on_pve_host c), jb ''tg_on_pve_guest'' (ac_tg_on_pve_guest c),
      jb ''tg_on_battery_pct'' (ac_tg_on_battery_pct c)]"

definition host_members :: "pve_host \<Rightarrow> members" where
  "host_members h =
     [jb ''enabled'' (h_enabled h), js ''url'' (h_url h), js ''node'' (h_node h), js ''token_id'' (h_token_id h),
      jb ''has_secret'' (h_secret h \<noteq> []), jb ''shutdown_node'' (h_shutdown_node h),
      js ''fingerprint'' (fp_pretty (h_fingerprint h)), jn ''on_battery_min'' (unat (h_on_battery_min h)),
      jn ''charge_pct'' (unat (h_charge_pct h))]"

definition guest_members :: "pve_guest \<Rightarrow> members" where
  "guest_members g =
     [ji ''id'' (g_id g), jn ''on_battery_min'' (unat (g_on_battery_min g)), jn ''charge_pct'' (unat (g_charge_pct g))]"

definition pve_members :: "app_config \<Rightarrow> members" where
  "pve_members c =
     [jb ''enabled'' (c_enabled (ac_pve c)), jb ''armed'' (c_armed (ac_pve c)),
      jn ''mains_back_min'' (unat (c_mains_back_min (ac_pve c))), jn ''selftest_hours'' (unat (ac_pve_selftest_hours c))]"

definition config_hosts :: "'s web_env \<Rightarrow> app_config \<Rightarrow> 's \<Rightarrow> (members \<times> members list) list" where
  "config_hosts E c st =
     map (\<lambda>(i, h). (host_members h, map guest_members (app_config_pve_guests_load (we_nv E) (we_memory E) st (int i))))
       (enumerate 0 (c_hosts (ac_pve c)))"

definition config_page :: "'s web_env \<Rightarrow> app_config \<Rightarrow> 's \<Rightarrow> string" where
  "config_page E c st = json_page (config_members E c) (pve_members c) (config_hosts E c st)"

text \<open>What the page says.\<close>

definition config_json :: "'s web_env \<Rightarrow> app_config \<Rightarrow> 's \<Rightarrow> json" where
  "config_json E c st = page_json (config_members E c) (pve_members c) (config_hosts E c st)"

definition h_admin_config :: "'s web_env \<Rightarrow> 's web \<Rightarrow> reply" where
  "h_admin_config E w =
     (if \<not> we_memory E then server_error else answer (config_page E (wb_cfg w) (wb_nvs w)))"

text \<open>The status page, with what it reads from the other components.\<close>

definition h_admin_status :: "'s web_env \<Rightarrow> answers \<Rightarrow> 's web \<Rightarrow> reply" where
  "h_admin_status E A w =
     (if \<not> we_memory E then server_error else answer (status_page (wb_cfg w) (an_view A)))"

section \<open>Live switches\<close>

text \<open>Saving a switch: the result of the save is not looked at.\<close>

definition store_config :: "'s web_env \<Rightarrow> app_config \<Rightarrow> 's web \<Rightarrow> 's web" where
  "store_config E c w = snd (adopt_config E c w)"

definition is_on :: "string \<Rightarrow> bool" where
  "is_on v \<longleftrightarrow> v \<noteq> [] \<and> (hd v = CHR ''1'' \<or> hd v = CHR ''t'')"

definition led_form :: "'s web_env \<Rightarrow> answers \<Rightarrow> string \<Rightarrow> 's web \<Rightarrow> reply \<times> 's web" where
  "led_form E A body w =
     (let gpio = form_int body ''gpio'' 8;
          pin = form_given body ''gpio'' 8;
          on = is_on (form_value body ''on'' 8)
      in if pin \<and> (gpio < -1 \<or> gpio > 48) then (refuse 400 ''gpio out of range'', w)
         else
           let c = (if pin then (wb_cfg w)\<lparr>ac_led_gpio := word_of_int gpio\<rparr> else wb_cfg w);
               w = (if pin then web_call (Call_led_reinit gpio) w else w);
               c = (if form_given body ''on'' 8 then c\<lparr>ac_led_enabled := on\<rparr> else c);
               w = (if form_given body ''on'' 8 then web_call (Call_led_enable on) w else w);
               w = (if pin \<or> form_given body ''on'' 8 then store_config E c w else w);
               test = is_on (form_value body ''test'' 8);
               w = (if test then web_call Call_led_identify w else w)
           in if test \<and> \<not> an_identify A then (answer ''{\"tested\":false}'', w)
              else (answer (snprintf_buf 64 (obj [jb ''led'' (an_led A), ji ''led_gpio'' (an_gpio A)])), w))"

definition controls_form :: "'s web_env \<Rightarrow> string \<Rightarrow> 's web \<Rightarrow> reply \<times> 's web" where
  "controls_form E body w =
     (if \<not> form_given body ''enable'' 8 then (refuse 400 (''missing '' @ [CHR 0x27] @ ''enable'' @ [CHR 0x27]), w)
      else
        let on = is_on (form_value body ''enable'' 8)
        in (answer (obj [jb ''enabled'' on]),
            web_call (Call_set_controls on) (store_config E ((wb_cfg w)\<lparr>ac_controls_enabled := on\<rparr>) w)))"

definition loglevel_form :: "'s web_env \<Rightarrow> string \<Rightarrow> 's web \<Rightarrow> reply \<times> 's web" where
  "loglevel_form E body w =
     (if \<not> form_given body ''level'' 8 then (refuse 400 (''missing '' @ [CHR 0x27] @ ''level'' @ [CHR 0x27]), w)
      else
        let lvl = form_int body ''level'' 8
        in if lvl < 0 \<or> lvl > 2 then (refuse 400 ''level 0..2'', w)
           else (answer (snprintf_buf 24 (obj [ji ''log_level'' lvl])),
                 web_call (Call_set_verbose (lvl \<ge> 2)) (web_call (Call_log_output (lvl \<noteq> 0))
                   (store_config E ((wb_cfg w)\<lparr>ac_log_level := word_of_int lvl\<rparr>) w))))"

definition control_form :: "answers \<Rightarrow> string \<Rightarrow> 's web \<Rightarrow> reply \<times> 's web" where
  "control_form A body w =
     (let field = form_value body ''field'' 24;
          val = form_value body ''value'' 8
      in if field = [] \<or> val = [] then (refuse 400 ''field and value'', w)
         else if \<not> list_all is_digit val then (refuse 400 ''value'', w)
         else
           let w = web_call (Call_write_control field (atoi val)) w
           in if an_write A field (atoi val) \<noteq> 0 then (refuse 400 ''not available, disabled, or bad value'', w)
              else (answer ''{\"queued\":true}'', w))"

definition h_controls_get :: "answers \<Rightarrow> reply" where
  "h_controls_get A = (case an_controls A of None \<Rightarrow> server_error | Some t \<Rightarrow> answer t)"

definition h_admin_reboot :: "'s web \<Rightarrow> reply \<times> 's web" where
  "h_admin_reboot w = (ok_reboot, web_call Call_reboot w)"

definition h_factory_reset :: "'s web_env \<Rightarrow> 's web \<Rightarrow> reply \<times> 's web" where
  "h_factory_reset E w =
     (ok_reboot, web_call Call_restart (w\<lparr>wb_nvs := snd (app_config_erase (we_nv E) (wb_nvs w))\<rparr>))"

section \<open>Updates\<close>

definition release_row :: "nat \<Rightarrow> ota_gh_release \<Rightarrow> string" where
  "release_row i r = (if i \<noteq> 0 then '','' else []) @ obj [js ''version'' (rel_version r), jb ''newer'' (rel_newer r)]"

definition h_update_check :: "answers \<Rightarrow> reply" where
  "h_update_check A = answer (snprintf_buf 640
     (case an_releases A of
        Inl err \<Rightarrow> obj [js ''error'' err]
      | Inr rels \<Rightarrow> ''{\"releases\":['' @ concat (map (\<lambda>(i, r). release_row i r) (enumerate 0 rels)) @ '']}''))"

definition version_chars :: "string \<Rightarrow> bool" where
  "version_chars v \<longleftrightarrow> list_all (\<lambda>c. is_digit c \<or> c = CHR ''.'') v"

definition h_update_install :: "'s web_env \<Rightarrow> answers \<Rightarrow> request \<Rightarrow> 's web \<Rightarrow> reply \<times> 's web" where
  "h_update_install E A r w =
     (if strlcpy 16 (rq_confirm r) \<noteq> ''FLASH'' then (refuse 400 ''confirm required'', w)
      else with_body 128 (\<lambda>body w.
        let v = form_value body ''version'' 16
        in if v = [] then (refuse 400 ''no version'', w)
           else if \<not> version_chars v then (refuse 400 ''bad version'', w)
           else
             let w = web_call (Call_update_start v) w
             in if an_update_start A v \<noteq> 0 then (refuse 500 ''an update is already running'', w)
                else (answer ''ok'', w)) E r w)"

definition state_name :: "ota_gh_state \<Rightarrow> string" where
  "state_name s = (case s of OTA_GH_IDLE \<Rightarrow> ''idle'' | OTA_GH_RUNNING \<Rightarrow> ''running'' | OTA_GH_DONE \<Rightarrow> ''done''
     | OTA_GH_FAILED \<Rightarrow> ''failed'')"

definition h_update_status :: "answers \<Rightarrow> reply" where
  "h_update_status A =
     (case an_update_status A of (s, pct, m) \<Rightarrow>
        answer (snprintf_buf 192 (obj [js ''state'' (state_name s), ji ''pct'' pct, js ''msg'' (strlcpy 96 m)])))"

text \<open>An uploaded image: what each receive call brings, and whether its bytes could be written.\<close>

datatype upload = Stall | Broken | Bytes nat bool

fun upload_loop :: "nat \<Rightarrow> nat \<Rightarrow> upload list \<Rightarrow> bool \<times> nat" where
  "upload_loop remaining stalls us =
     (if remaining = 0 then (True, 0)
      else case us of
        [] \<Rightarrow> (False, remaining)
      | Stall # us \<Rightarrow> if stalls + 1 > 6 then (False, remaining) else upload_loop remaining (stalls + 1) us
      | Broken # us \<Rightarrow> (False, remaining)
      | Bytes n ok # us \<Rightarrow>
          if n = 0 \<or> \<not> ok then (False, remaining) else upload_loop (remaining - min n (min remaining 4096)) 0 us)"

declare upload_loop.simps [simp del]

record flash_env =
  fl_partition :: "string option"
  fl_begin :: bool
  fl_end :: ota_err
  fl_set_boot :: bool

definition h_ota :: "'s web_env \<Rightarrow> flash_env \<Rightarrow> upload list \<Rightarrow> request \<Rightarrow> 's web \<Rightarrow> reply \<times> 's web" where
  "h_ota E F us r w =
     (if strlcpy 16 (rq_confirm r) \<noteq> ''FLASH'' then (refuse 400 ''confirm required'', w)
      else if rq_len r < 4096 \<or> rq_len r > 4 * 1024 * 1024 then (refuse 400 ''implausible size'', w)
      else case fl_partition F of
        None \<Rightarrow> (refuse 500 ''no OTA partition'', w)
      | Some part \<Rightarrow>
          if \<not> fl_begin F then (refuse 500 ''ota_begin failed'', w)
          else if \<not> we_memory E then (server_error, w)
          else case upload_loop (nat (rq_len r)) 0 us of (ok, remaining) \<Rightarrow>
            if \<not> ok \<or> remaining \<noteq> 0 then (refuse 500 ''transfer failed'', w)
            else if fl_end F \<noteq> Ota_ok
              then (refuse 400 (if fl_end F = Validate_failed then ''image invalid'' else ''ota_end failed''), w)
            else if \<not> fl_set_boot F then (refuse 500 ''set_boot failed'', w)
            else (ok_reboot, web_call Call_reboot (web_call (Call_flash_image part) w)))"


text \<open>The bytes a list of receives brings, if every one of them was written to the flash.\<close>

fun all_written :: "upload list \<Rightarrow> nat option" where
  "all_written [] = Some 0"
| "all_written (Stall # us) = all_written us"
| "all_written (Broken # us) = None"
| "all_written (Bytes n ok # us) = (if ok \<and> 0 < n then map_option ((+) n) (all_written us) else None)"

lemma upload_complete:
  "upload_loop n stalls us = (True, 0) \<Longrightarrow> \<exists>vs zs m. us = vs @ zs \<and> all_written vs = Some m \<and> n \<le> m"
proof (induction n stalls us rule: upload_loop.induct)
  case (1 n stalls us)
  show ?case
  proof (cases "n = 0")
    case True
    then show ?thesis by (intro exI [of _ "[]"] exI [of _ us] exI [of _ 0]) simp
  next
    case False
    then obtain u vs where us: "us = u # vs" using 1(3) by (subst (asm) upload_loop.simps) (auto split: list.splits)
    show ?thesis
    proof (cases u)
      case Stall
      then have "upload_loop n (stalls + 1) vs = (True, 0)" "\<not> stalls + 1 > 6"
        using 1(3) False us by (subst (asm) upload_loop.simps; simp split: if_splits)+
      then obtain ws zs m where "vs = ws @ zs" "all_written ws = Some m" "n \<le> m"
        using 1(1) [OF False us Stall] by blast
      then show ?thesis by (intro exI [of _ "u # ws"] exI [of _ zs] exI [of _ m]) (simp add: us Stall)
    next
      case Broken
      then show ?thesis using 1(3) False us by (subst (asm) upload_loop.simps) simp
    next
      case (Bytes k ok)
      then have k: "upload_loop (n - min k (min n 4096)) 0 vs = (True, 0)" "ok" "0 < k"
        using 1(3) False us by (subst (asm) upload_loop.simps; simp split: if_splits)+
      then obtain ws zs m where "vs = ws @ zs" "all_written ws = Some m" "n - min k (min n 4096) \<le> m"
        using 1(2) [OF False us Bytes] by auto
      then show ?thesis using k by (intro exI [of _ "u # ws"] exI [of _ zs] exI [of _ "k + m"]) (simp add: us Bytes)
    qed
  qed
qed

text \<open>An uploaded image is made the one to boot only when every byte of the announced length was received
  and written and the check of the image succeeded.\<close>

lemma upload_boots_whole_image:
  assumes "h_ota E F us r w = (rep, w')" "wb_calls w' \<noteq> wb_calls w"
  shows "4096 \<le> rq_len r \<and> rq_len r \<le> 4 * 1024 * 1024 \<and> fl_end F = Ota_ok \<and> fl_set_boot F \<and>
    (\<exists>vs zs m. us = vs @ zs \<and> all_written vs = Some m \<and> nat (rq_len r) \<le> m)"
proof -
  obtain ok n where u: "upload_loop (nat (rq_len r)) 0 us = (ok, n)" by (metis prod.exhaust)
  have h: "ok" "n = 0" "4096 \<le> rq_len r" "rq_len r \<le> 4 * 1024 * 1024" "fl_end F = Ota_ok" "fl_set_boot F"
    using assms by (auto simp: h_ota_def u split: if_splits option.splits)
  then show ?thesis using upload_complete [of "nat (rq_len r)" 0 us] u by auto
qed

section \<open>Trying settings out\<close>

definition required_text :: string where
  "required_text = ''URL (https://'' @ [CHR 0xE2, CHR 0x80, CHR 0xA6] @ ''), node, token ID and secret are required''"

definition pve_read_host :: "'s web_env \<Rightarrow> string \<Rightarrow> 's web \<Rightarrow> string + int \<times> pve_host \<times> pve_guest list" where
  "pve_read_host E body w =
     (let i = (if fst (form_get body ''i'' 8) then form_int body ''i'' 8 else -1)
      in if i < 0 \<or> i \<ge> int PVE_MAX_HOSTS then Inl ''bad host index''
         else
           let stored = c_hosts (ac_pve (wb_cfg w)) ! nat i;
               guests = pve_guests_from_form (we_memory E) body i
           in case pve_host_from_form body i stored stored of
                Inl e \<Rightarrow> Inl e
              | Inr h \<Rightarrow>
                  let h = h\<lparr>h_enabled := True\<rparr>
                  in if \<not> has_prefix ''https://'' (h_url h) \<or> h_node h = [] \<or> h_token_id h = [] \<or> h_secret h = []
                     then Inl (snprintf_buf 80 required_text) else Inr (i, h, guests))"

definition pve_test_form :: "'s web_env \<Rightarrow> answers \<Rightarrow> string \<Rightarrow> 's web \<Rightarrow> reply \<times> 's web" where
  "pve_test_form E A body w =
     (case pve_read_host E body w of
        Inl e \<Rightarrow> (refuse 400 e, w)
      | Inr (i, h, guests) \<Rightarrow>
          (case an_pve_test A h guests of (t, m, fp) \<Rightarrow>
             (answer (snprintf_buf 380 (obj [jb ''ok'' (t = 0), jb ''connected'' (t \<ge> 0), jb ''pinned'' (h_fingerprint h \<noteq> []),
                                             js ''msg'' m, js ''fp'' fp])),
              web_call (Call_note_test i (t = 0) m) w)))"

definition pve_guests_form :: "'s web_env \<Rightarrow> answers \<Rightarrow> string \<Rightarrow> 's web \<Rightarrow> reply \<times> 's web" where
  "pve_guests_form E A body w =
     (case pve_read_host E body w of
        Inl e \<Rightarrow> (refuse 400 e, w)
      | Inr (i, h, guests) \<Rightarrow>
          if \<not> we_memory E then (server_error, w)
          else case an_pve_list A h of Inl e \<Rightarrow> (refuse 400 e, w) | Inr t \<Rightarrow> (answer t, w))"

text \<open>This form may be empty: the stored token and chat are then tried.\<close>

definition h_notify_test :: "'s web_env \<Rightarrow> answers \<Rightarrow> request \<Rightarrow> 's web \<Rightarrow> reply \<times> 's web" where
  "h_notify_test E A r w =
     (if rq_len r < 0 \<or> rq_len r > 1024 then (refuse 400 ''bad body'', w)
      else if \<not> we_memory E then (server_error, w)
      else case recv_loop (nat (rq_len r)) [] (rq_recv r) of
        None \<Rightarrow> (server_error, w)
      | Some b \<Rightarrow>
          let body = c_str b;
              nc = \<lparr>nc_enabled = True,
                    nc_bot_token = strlcpy 64 (if form_given body ''tg_token'' 128 then form_value body ''tg_token'' 128
                                               else ac_tg_token (wb_cfg w)),
                    nc_chat_id = strlcpy 24 (if form_given body ''tg_chat'' 128 then form_value body ''tg_chat'' 128
                                             else ac_tg_chat (wb_cfg w)),
                    nc_on_power = False, nc_on_low_batt = False, nc_on_link = False, nc_on_battery_pct = False\<rparr>
          in case an_notify_test A nc (ac_ups_name (wb_cfg w)) of
               None \<Rightarrow> (ok_reboot, w)
             | Some e \<Rightarrow> (refuse 400 (if e \<noteq> [] then e else ''send failed''), w))"

section \<open>Routes\<close>

text \<open>A body that fits a buffer on the stack needs no allocation.\<close>

definition with_stack_body ::
    "int \<Rightarrow> (string \<Rightarrow> 's web \<Rightarrow> reply \<times> 's web) \<Rightarrow> request \<Rightarrow> 's web \<Rightarrow> reply \<times> 's web" where
  "with_stack_body limit h r w =
     (case recv_body limit r of
        Bad_body \<Rightarrow> (refuse 400 ''bad body'', w) | No_body \<Rightarrow> (server_error, w) | Body body \<Rightarrow> h body w)"

datatype meth = GET | POST

datatype handler =
    H_admin_root | H_login | H_logout | H_hostname | H_admin_status | H_admin_logs | H_admin_config
  | H_admin_reconfigure | H_admin_credentials | H_notify_test | H_pve_test | H_pve_guests | H_ble_scan | H_wifi_scan
  | H_admin_reboot | H_led_toggle | H_controls_get | H_controls_enable | H_control_set | H_loglevel_set | H_factory_reset
  | H_ota | H_update_check | H_update_install | H_update_status

definition ADMIN_ROUTES :: "(string \<times> meth \<times> handler) list" where
  "ADMIN_ROUTES =
     [(''/'', GET, H_admin_root), (''/api/login'', POST, H_login), (''/api/logout'', POST, H_logout),
      (''/api/hostname'', GET, H_hostname), (''/api/status'', GET, H_admin_status), (''/api/logs'', GET, H_admin_logs),
      (''/api/config'', GET, H_admin_config), (''/api/reconfigure'', POST, H_admin_reconfigure),
      (''/api/credentials'', POST, H_admin_credentials), (''/api/notify-test'', POST, H_notify_test),
      (''/api/pve-test'', POST, H_pve_test), (''/api/pve-guests'', POST, H_pve_guests),
      (''/api/ble-scan'', GET, H_ble_scan), (''/api/wifi-scan'', GET, H_wifi_scan), (''/api/reboot'', POST, H_admin_reboot),
      (''/api/led'', POST, H_led_toggle), (''/api/controls'', GET, H_controls_get), (''/api/controls'', POST, H_controls_enable),
      (''/api/control'', POST, H_control_set), (''/api/loglevel'', POST, H_loglevel_set),
      (''/api/factory-reset'', POST, H_factory_reset), (''/api/ota'', POST, H_ota), (''/api/update/check'', GET, H_update_check),
      (''/api/update/install'', POST, H_update_install), (''/api/update/status'', GET, H_update_status)]"

definition h_admin_root :: "'s web_env \<Rightarrow> answers \<Rightarrow> request \<Rightarrow> 's web \<Rightarrow> reply \<times> 's web" where
  "h_admin_root E A r w =
     (case auth_ok (Some (wb_cfg w)) r (we_now E) (wb_sessions w) of (ok, S) \<Rightarrow>
        (answer (if ok then an_admin_page A else an_login_page A), w\<lparr>wb_sessions := S\<rparr>))"

text \<open>The handler a route leads to; \<open>F\<close> and \<open>us\<close> are the flash and the upload of \<^verbatim>\<open>h_ota\<close>.\<close>

fun run_handler ::
    "handler \<Rightarrow> answers \<Rightarrow> flash_env \<Rightarrow> upload list \<Rightarrow> 's web_env \<Rightarrow> request \<Rightarrow> 's web \<Rightarrow> reply \<times> 's web" where
  "run_handler H_admin_root A F us E r w = h_admin_root E A r w"
| "run_handler H_login A F us E r w =
     (case h_login (we_sha E) (we_memory E) (we_random E) (Some (wb_cfg w)) r (we_now E) (wb_sessions w) of (rep, S) \<Rightarrow>
        (rep, w\<lparr>wb_sessions := S\<rparr>))"
| "run_handler H_logout A F us E r w = (case h_logout r (wb_sessions w) of (rep, S) \<Rightarrow> (rep, w\<lparr>wb_sessions := S\<rparr>))"
| "run_handler H_hostname A F us E r w = (h_hostname (Some (wb_cfg w)), w)"
| "run_handler H_admin_status A F us E r w = require_auth (\<lambda>E r w. (h_admin_status E A w, w)) E r w"
| "run_handler H_admin_logs A F us E r w =
     require_auth (\<lambda>E r w. (if we_memory E then fst (h_admin_logs A r) else server_error, w)) E r w"
| "run_handler H_admin_config A F us E r w = require_auth (\<lambda>E r w. (h_admin_config E w, w)) E r w"
| "run_handler H_admin_reconfigure A F us E r w = h_admin_reconfigure E r w"
| "run_handler H_admin_credentials A F us E r w = h_admin_credentials E r w"
| "run_handler H_notify_test A F us E r w = require_auth (\<lambda>E. h_notify_test E A) E r w"
| "run_handler H_pve_test A F us E r w = require_auth (\<lambda>E. with_body 65536 (pve_test_form E A) E) E r w"
| "run_handler H_pve_guests A F us E r w = require_auth (\<lambda>E. with_body 65536 (pve_guests_form E A) E) E r w"
| "run_handler H_ble_scan A F us E r w =
     require_auth (\<lambda>E r w. if we_memory E then h_ble_scan A r w else (server_error, snd (h_ble_scan A r w))) E r w"
| "run_handler H_wifi_scan A F us E r w =
     require_auth (\<lambda>E r w. (if we_memory E then h_wifi_scan A else server_error, w)) E r w"
| "run_handler H_admin_reboot A F us E r w = require_auth (\<lambda>E r. h_admin_reboot) E r w"
| "run_handler H_led_toggle A F us E r w = require_auth (\<lambda>E. with_stack_body 48 (led_form E A)) E r w"
| "run_handler H_controls_get A F us E r w = require_auth (\<lambda>E r w. (h_controls_get A, w)) E r w"
| "run_handler H_controls_enable A F us E r w = require_auth (\<lambda>E. with_stack_body 31 (controls_form E)) E r w"
| "run_handler H_control_set A F us E r w = require_auth (\<lambda>E. with_stack_body 64 (control_form A)) E r w"
| "run_handler H_loglevel_set A F us E r w = require_auth (\<lambda>E. with_stack_body 31 (loglevel_form E)) E r w"
| "run_handler H_factory_reset A F us E r w = require_auth (\<lambda>E r. h_factory_reset E) E r w"
| "run_handler H_ota A F us E r w = require_auth (\<lambda>E. h_ota E F us) E r w"
| "run_handler H_update_check A F us E r w = (h_update_check A, w)"
| "run_handler H_update_install A F us E r w = h_update_install E A r w"
| "run_handler H_update_status A F us E r w = (h_update_status A, w)"

definition OPEN_ROUTES :: "string list" where
  "OPEN_ROUTES = [''/'', ''/api/login'', ''/api/logout'', ''/api/hostname'',
     ''/api/update/check'', ''/api/update/install'', ''/api/update/status'']"

lemma require_auth_refuses:
  "auth_ok (Some (wb_cfg w)) r (we_now E) (wb_sessions w) = (False, S) \<Longrightarrow>
   require_auth h E r w = (send_401, w\<lparr>wb_sessions := S\<rparr>)"
  by (simp add: require_auth_def)

definition open_handler :: "handler \<Rightarrow> bool" where
  "open_handler h \<longleftrightarrow>
     h \<in> {H_admin_root, H_login, H_logout, H_hostname, H_update_check, H_update_install, H_update_status}"

lemma guarded_handler:
  assumes "\<not> open_handler h" "auth_ok (Some (wb_cfg w)) r (we_now E) (wb_sessions w) = (False, S)"
  shows "run_handler h A F us E r w = (send_401, w\<lparr>wb_sessions := S\<rparr>)"
  using assms(1) require_auth_refuses [OF assms(2)]
  by (cases h) (simp_all add: open_handler_def h_admin_reconfigure_def h_admin_credentials_def)

lemma guarded_route: "list_all (\<lambda>(uri, m, h). uri \<in> set OPEN_ROUTES \<or> \<not> open_handler h) ADMIN_ROUTES"
  by code_simp

section \<open>Nothing secret on the page\<close>

text \<open>A configuration with every password, token and key blotted out, but for whether it is set.\<close>

definition blot :: "string \<Rightarrow> string" where
  "blot s = (if s = [] then [] else ''*'')"

definition redact :: "app_config \<Rightarrow> app_config" where
  "redact c = c\<lparr>ac_wifi_pass := blot (ac_wifi_pass c), ac_ap_pass := blot (ac_ap_pass c), ac_fb_ap_pass := blot (ac_fb_ap_pass c),
     ac_tg_token := blot (ac_tg_token c), ac_nut_salt := [], ac_nut_hash := [], ac_auth_salt := [], ac_auth_hash := [],
     ac_pve := (ac_pve c)\<lparr>c_hosts := map (\<lambda>h. h\<lparr>h_secret := blot (h_secret h)\<rparr>) (c_hosts (ac_pve c))\<rparr>\<rparr>"

lemma blot_empty [simp]: "blot s = [] \<longleftrightarrow> s = []"
  by (simp add: blot_def)

lemma host_members_redact: "host_members (h\<lparr>h_secret := blot (h_secret h)\<rparr>) = host_members h"
  by (simp add: host_members_def)

lemma enumerate_map: "enumerate n (map f xs) = map (\<lambda>(i, x). (i, f x)) (enumerate n xs)"
  by (induction xs arbitrary: n) simp_all

lemma config_members_redact: "config_members E (redact c) = config_members E c"
  unfolding config_members_def redact_def by simp

lemma pve_members_redact: "pve_members (redact c) = pve_members c"
  by (simp add: pve_members_def redact_def)

lemma config_hosts_redact: "config_hosts E (redact c) st = config_hosts E c st"
proof -
  have "c_hosts (ac_pve (redact c)) = map (\<lambda>h. h\<lparr>h_secret := blot (h_secret h)\<rparr>) (c_hosts (ac_pve c))"
    by (simp add: redact_def)
  then show ?thesis unfolding config_hosts_def
    by (simp only: enumerate_map map_map) (rule map_cong [OF refl], auto simp only: comp_apply prod.case host_members_redact)
qed

lemma status_redact: "status_page (redact c) v = status_page c v"
proof -
  have "network_members (redact c) v = network_members c v" unfolding network_members_def redact_def Let_def by simp
  moreover have "power_members (redact c) v = power_members c v" unfolding power_members_def redact_def by simp
  ultimately show ?thesis by (simp add: status_page_def)
qed

section \<open>Every request keeps the configuration in shape\<close>

lemma web_ok_calls [simp]: "web_ok (web_call x w) = web_ok w"
  by (simp add: web_ok_def)

lemma web_ok_nvs [simp]: "web_ok (w\<lparr>wb_nvs := st\<rparr>) = web_ok w"
  by (simp add: web_ok_def)

lemma stored_ok: "settings_ok c \<Longrightarrow> web_ok w \<Longrightarrow> web_ok (store_config E c w)"
proof -
  assume c: "settings_ok c" "web_ok w"
  obtain ok w' where a: "adopt_config E c w = (ok, w')" by (metis prod.exhaust)
  then show ?thesis using c adopted_ok [OF a] by (simp add: store_config_def web_ok_def)
qed

lemma settings_switches [simp]:
  "settings_ok (c\<lparr>ac_controls_enabled := b\<rparr>) = settings_ok c" "settings_ok (c\<lparr>ac_log_level := x\<rparr>) = settings_ok c"
  "settings_ok (c\<lparr>ac_led_gpio := y\<rparr>) = settings_ok c" "settings_ok (c\<lparr>ac_led_enabled := b\<rparr>) = settings_ok c"
  by (simp_all add: settings_ok_def)

lemma web_ok_cfg: "web_ok w \<Longrightarrow> settings_ok (wb_cfg w)"
  by (simp add: web_ok_def)

lemma led_form_ok: "web_ok w \<Longrightarrow> web_ok (snd (led_form E A body w))"
  by (simp add: led_form_def Let_def stored_ok web_ok_cfg)

lemma controls_form_ok: "web_ok w \<Longrightarrow> web_ok (snd (controls_form E body w))"
  by (simp add: controls_form_def Let_def stored_ok web_ok_cfg)

lemma loglevel_form_ok: "web_ok w \<Longrightarrow> web_ok (snd (loglevel_form E body w))"
  by (simp add: loglevel_form_def Let_def stored_ok web_ok_cfg)

lemma stack_body_keeps: "(\<And>body. web_ok (snd (h body w))) \<Longrightarrow> web_ok w \<Longrightarrow> web_ok (snd (with_stack_body limit h r w))"
  by (simp add: with_stack_body_def split: body.split)

lemma auth_keeps_ok:
  "(\<And>v. web_ok v \<Longrightarrow> web_ok (snd (h E r v))) \<Longrightarrow> web_ok w \<Longrightarrow> web_ok (snd (require_auth h E r w))"
  by (rule require_auth_keeps [where P = web_ok]) simp_all

lemma body_keeps_ok:
  "(\<And>body. web_ok (snd (h body w))) \<Longrightarrow> web_ok w \<Longrightarrow> web_ok (snd (with_body limit h E r w))"
  by (rule with_body_keeps [where P = web_ok])

lemma ota_ok: "web_ok w \<Longrightarrow> web_ok (snd (h_ota E F us r w))"
  by (simp add: h_ota_def split: option.split prod.split)

lemma install_ok: "web_ok w \<Longrightarrow> web_ok (snd (h_update_install E A r w))"
  unfolding h_update_install_def by (simp add: Let_def body_keeps_ok)

lemma notify_test_ok: "web_ok w \<Longrightarrow> web_ok (snd (h_notify_test E A r w))"
  by (simp add: h_notify_test_def Let_def split: option.split)

lemma pve_forms_ok:
  "web_ok w \<Longrightarrow> web_ok (snd (pve_test_form E A body w))" "web_ok w \<Longrightarrow> web_ok (snd (pve_guests_form E A body w))"
  by (auto simp: pve_test_form_def pve_guests_form_def split: sum.split prod.split)

lemma request_ok:
  assumes "env_ok E" "web_ok w"
  shows "web_ok (snd (run_handler h A F us E r w))"
proof (cases h)
  case H_admin_reconfigure
  then show ?thesis using settings_step_ok [OF settings_step.reconfigure [OF assms(1), of w r] assms(2)] by simp
next
  case H_admin_credentials
  then show ?thesis using settings_step_ok [OF settings_step.credentials [OF assms(1), of w r] assms(2)] by simp
qed (use assms(2) in \<open>simp_all add: auth_keeps_ok stack_body_keeps body_keeps_ok led_form_ok controls_form_ok loglevel_form_ok
    ota_ok install_ok notify_test_ok pve_forms_ok h_admin_root_def h_ble_scan_def h_admin_reboot_def h_factory_reset_def
    control_form_def Let_def split: prod.split\<close>)

text \<open>What may change the settings, in any order and whatever the network and the flash do.\<close>

inductive web_step :: "'s web \<Rightarrow> 's web \<Rightarrow> bool" where
  by_request: "env_ok E \<Longrightarrow> web_step w (snd (run_handler h A F us E r w))"
| by_setup: "settings_step w w' \<Longrightarrow> web_step w w'"

lemma web_step_ok: "web_step w w' \<Longrightarrow> web_ok w \<Longrightarrow> web_ok w'"
  by (induction rule: web_step.induct) (simp_all add: request_ok settings_step_ok)

section \<open>Properties\<close>

text \<open>C17: Whatever browsers post, to the admin pages or the setup portal, and however saving and joining a
  network turn out, the configuration keeps the shape of its stored image, and every Proxmox host in it
  that is enabled has an https URL, a node, a full token and a trigger, and pins no fingerprint or a
  64-digit one.\<close>

theorem settings_stay_well_formed:
  assumes "rtranclp web_step w w'" "settings_ok (wb_cfg w)" "settings_ok (wb_pending w)"
  shows "wf_config (wb_cfg w') \<and> (\<forall>h \<in> set (c_hosts (ac_pve (wb_cfg w'))).
    (h_enabled h \<longrightarrow> has_prefix ''https://'' (h_url h) \<and> h_node h \<noteq> [] \<and> h_secret h \<noteq> [] \<and> CHR ''!'' \<in> set (h_token_id h) \<and>
       (h_on_battery_min h \<noteq> 0 \<or> h_charge_pct h \<noteq> 0)) \<and>
    (h_fingerprint h = [] \<or> length (h_fingerprint h) = 64))"
proof -
  have "web_ok w'" using assms(1)
  proof induction
    case base
    show ?case using assms(2,3) by (simp add: web_ok_def)
  next
    case (step y z)
    show ?case by (rule web_step_ok [OF step.hyps(2) step.IH])
  qed
  then show ?thesis by (simp add: web_ok_def settings_ok_def host_complete_def pin_ok_def)
qed

theorem settings_stay_well_formed_witness:
  "wf_config (wb_cfg (snd (h_provision ex_web_env ex_setup ex_web)))"
proof -
  have "rtranclp web_step ex_web (snd (h_provision ex_web_env ex_setup ex_web))"
    by (rule r_into_rtranclp, rule web_step.by_setup, rule settings_step.provision, rule ex_web_env_ok)
  then show ?thesis using settings_stay_well_formed [of ex_web] ex_web_ok by (simp add: ex_web_def)
qed

text \<open>C13: With an admin password set and no valid session, every route but the sign-in pages and the
  update pages answers 401 and does nothing: no setting, no stored byte and no other component is touched.\<close>

theorem no_session_no_effect:
  assumes "(uri, m, h) \<in> set ADMIN_ROUTES" "uri \<notin> set OPEN_ROUTES"
    "auth_ok (Some (wb_cfg w)) r (we_now E) (wb_sessions w) = (False, S)"
  shows "run_handler h A F us E r w = (send_401, w\<lparr>wb_sessions := S\<rparr>)"
proof (rule guarded_handler [OF _ assms(3)])
  show "\<not> open_handler h" using guarded_route assms(1,2) by (auto simp: list_all_iff)
qed

definition ex_locked :: "(string \<Rightarrow> byte list option) web" where
  "ex_locked = ex_web\<lparr>wb_cfg := ex_web_config\<rparr>"

definition ex_view :: status_view where
  "ex_view = \<lparr>sw_wifi = wifi0, sw_ap_netif = False, sw_ap_info = None, sw_gw_info = None, sw_dns_info = None,
     sw_version = ''0.4.0'', sw_date = ''Jan 01 2026'', sw_time = ''00:00:00'', sw_ota = True, sw_link = (False, ex_state),
     sw_connected = False, sw_nut = nut_zero, sw_led = False, sw_gpio = -1,
     sw_pve = \<lparr>st_enabled = False, st_armed = False, st_on_battery_s = -1, st_hosts = []\<rparr>, sw_guests = (\<lambda>i. [])\<rparr>"

definition ex_answers :: answers where
  "ex_answers = \<lparr>an_scanning = False, an_scan_started = True, an_ble = [], an_aps = None, an_controls = None,
     an_write = (\<lambda>f v. -1), an_identify = False, an_led = True, an_gpio = 48, an_log = log_ring0,
     an_update_start = (\<lambda>v. 0), an_update_status = (OTA_GH_IDLE, -1, []), an_releases = Inr [], an_view = ex_view,
     an_login_page = ''login'', an_admin_page = ''admin'', an_pve_test = (\<lambda>h gs. (-1, [], [])),
     an_pve_list = (\<lambda>h. Inl []), an_notify_test = (\<lambda>c l. None)\<rparr>"

definition ex_flash :: flash_env where
  "ex_flash = \<lparr>fl_partition = None, fl_begin = False, fl_end = Ota_ok, fl_set_boot = False\<rparr>"

theorem no_session_no_effect_witness:
  "run_handler H_factory_reset ex_answers ex_flash [] ex_web_env (ex_post []) ex_locked = (send_401, ex_locked)"
proof -
  have "auth_ok (Some (wb_cfg ex_locked)) (ex_post []) (we_now ex_web_env) (wb_sessions ex_locked) = (False, wb_sessions ex_locked)"
    by (simp add: ex_locked_def auth_ok_def ex_web_config_simps cookie_token_def ex_post_def)
  from no_session_no_effect [OF _ _ this, of "''/api/factory-reset''" POST H_factory_reset ex_answers ex_flash "[]"]
  show ?thesis by (simp add: ADMIN_ROUTES_def OPEN_ROUTES_def ex_locked_def)
qed

text \<open>C40: The pages the browser is given, the settings form's and the status page, give away nothing
  secret: they are the same for a configuration and for that configuration with every password, token,
  hash and secret blotted out.\<close>

theorem config_page_hides_secrets:
  "config_page E c st = config_page E (redact c) st \<and> status_page c v = status_page (redact c) v"
  by (simp add: config_page_def config_members_redact pve_members_redact config_hosts_redact status_redact)

text \<open>Starting a firmware update takes no session: with an admin password set and no cookie at all, the
  request that confirms and names a version starts it.\<close>

theorem update_open_to_all:
  assumes "rq_confirm r = ''FLASH''" "we_memory E" "recv_body 128 r = Body body"
    "form_value body ''version'' 16 \<noteq> []" "version_chars (form_value body ''version'' 16)"
    "an_update_start A (form_value body ''version'' 16) = 0"
  shows "run_handler H_update_install A F us E r w =
    (answer ''ok'', web_call (Call_update_start (form_value body ''version'' 16)) w)"
proof -
  have "\<not> (rq_len r \<le> 0 \<or> rq_len r > 128)" using assms(3) by (auto simp: recv_body_def split: if_splits)
  then show ?thesis using assms by (simp add: h_update_install_def with_body_def strlcpy_fits)
qed

definition ex_install :: request where
  "ex_install = (ex_post ''version=0.4.0'')\<lparr>rq_confirm := ''FLASH''\<rparr>"

theorem update_open_to_all_witness:
  "run_handler H_update_install ex_answers ex_flash [] ex_web_env ex_install ex_locked =
     (answer ''ok'', web_call (Call_update_start ''0.4.0'') ex_locked)"
proof -
  have b: "recv_body 128 ex_install = Body ''version=0.4.0''" by code_simp
  have v: "form_value ''version=0.4.0'' ''version'' 16 = ''0.4.0''" by code_simp
  have t: "version_chars ''0.4.0''" by code_simp
  show ?thesis using update_open_to_all [OF _ _ b, of ex_web_env ex_answers ex_flash "[]" ex_locked] v t
    by (simp add: ex_install_def ex_web_env_def ex_answers_def)
qed

definition ex_page_config :: app_config where
  "ex_page_config = \<lparr>ac_wifi_mode = APP_WIFI_STATION, ac_wifi_ssid = ''home'', ac_wifi_pass = ''secret12'',
     ac_ap_ssid = ''van'', ac_ap_pass = [], ac_hostname = ''bluetti'', ac_use_static_ip = False,
     ac_static_ip = [], ac_static_mask = [], ac_static_gw = [], ac_static_dns = [],
     ac_ble_addr = ''AA:BB'', ac_ble_probe = False, ac_ups_name = ''bluetti'',
     ac_nut_port = 3493, ac_ac_rating_w = 200, ac_runtime_low_s = 300,
     ac_nut_user = ''upsmon'', ac_nut_salt = [], ac_nut_hash = [], ac_nut_auth_set = False,
     ac_poll_ms = 5000, ac_low_pct = 20, ac_tg_enabled = False, ac_tg_token = [],
     ac_tg_chat = [], ac_tg_on_power = True, ac_tg_on_low_batt = True, ac_tg_on_link = False,
     ac_auth_user = ''admin'', ac_auth_salt = [], ac_auth_hash = [], ac_auth_set = False,
     ac_provisioned = True, ac_led_enabled = True, ac_led_gpio = 48, ac_controls_enabled = False,
     ac_battery_wh = 0, ac_log_level = 0, ac_fb_ap_enabled = False, ac_fb_ap_ssid = ''help'', ac_fb_ap_pass = [],
     ac_pve = \<lparr>c_enabled = True, c_armed = False, c_mains_back_min = 5,
       c_hosts = []\<rparr>, ac_tg_on_pve_host = True, ac_tg_on_pve_guest = True,
     ac_nut_enabled = False, ac_pve_selftest_hours = 24, ac_tg_on_battery_pct = False\<rparr>"

lemmas page_members = config_json_def status_json_def page_json_def config_members_def pve_members_def config_hosts_def
  network_members_def power_members_def pve_state_def host_states_def ex_page_config_def ex_view_def ex_state_def Let_def
  js_def jb_def jn_def ji_def jflag_def ex_web_env_def nut_text_def nut_runtime_def nut_server_get_var_def nut_zero_def
  wifi0_def strlcpy_def watt_figure_def known_or_def wifi_mgr_sta_ip_def wifi_mgr_sta_gw_def wifi_mgr_sta_dns_def
  wifi_mgr_fallback_ap_active_def

lemma ex_ssid: "default_ssid ex_web_env = ''esp-nut-bluetti-0102''" by code_simp

lemma ex_pages_plain:
  "plain_json (config_json ex_web_env ex_page_config (wb_nvs ex_web))" "plain_json (status_json ex_page_config ex_view)"
  using ex_ssid by (simp_all add: page_members plain_text_def)

lemma ex_pages_fit:
  "length (print_json (config_json ex_web_env ex_page_config (wb_nvs ex_web))) < PAGE_MAX"
  "length (print_json (status_json ex_page_config ex_view)) < PAGE_MAX"
  using ex_ssid by (simp_all add: page_members PAGE_MAX_def quote_def show_int_def show_nat.simps)

text \<open>C32: As long as no text in them needs escaping and they fit their buffer, the browser reads the settings
  and status pages as the objects of their members, with the Proxmox hosts and their guests nested in
  them.\<close>

theorem pages_read_back:
  assumes "plain_json (config_json E c st)" "length (print_json (config_json E c st)) < PAGE_MAX"
    and "plain_json (status_json c v)" "length (print_json (status_json c v)) < PAGE_MAX"
  shows "parse_json (config_page E c st) = Some (config_json E c st) \<and>
    parse_json (status_page c v) = Some (status_json c v)"
proof -
  have "parse_json (config_page E c st) = Some (config_json E c st)"
    unfolding config_page_def config_json_def
    by (rule page_read_back [OF _ _ _ assms(1,2) [unfolded config_json_def]])
      (auto simp: config_members_def pve_members_def config_hosts_def host_members_def list_all_iff)
  then show ?thesis using status_read_back [OF assms(3,4)] by simp
qed

theorem pages_read_back_witness:
  "parse_json (status_page ex_page_config ex_view) = Some (status_json ex_page_config ex_view)"
  using pages_read_back [OF ex_pages_plain(1) ex_pages_fit(1) ex_pages_plain(2) ex_pages_fit(2)] by simp

lemma show_int_short: "-1000 < i \<Longrightarrow> i < 1000 \<Longrightarrow> length (show_int i) \<le> 4"
proof -
  have n: "length (show_nat n) \<le> 3" if "n < 1000" for n
    using that by (subst show_nat.simps, subst show_nat.simps, subst show_nat.simps) simp
  show "-1000 < i \<Longrightarrow> i < 1000 \<Longrightarrow> length (show_int i) \<le> 4"
    using n [of "nat i"] n [of "nat (- i)"] by (cases "i < 0") (auto simp: show_int_def nat_less_iff)
qed

text \<open>The names of networks go into the scan list without escaping: a network that closes the string and
  the object in its name is read as two networks, one of them with a name of its choice.\<close>

theorem network_name_forges_entry:
  assumes "an_aps A = Some [a]" "ap_ssid a = n @ ''\"},{\"ssid\":\"'' @ n'" "plain_text n" "plain_text n'"
    "length (ap_ssid a) \<le> 32" "-128 \<le> ap_rssi a" "ap_rssi a < 128"
  shows "parse_json (rp_text (h_wifi_scan A)) =
    Some (JObj [(''aps'', JArr [JObj [js ''ssid'' n], JObj [js ''ssid'' n', ji ''rssi'' (ap_rssi a), jb ''lock'' (ap_authmode a \<noteq> 0)]])])"
proof -
  let ?v = "JObj [(''aps'', JArr [JObj [js ''ssid'' n], JObj [js ''ssid'' n', ji ''rssi'' (ap_rssi a), jb ''lock'' (ap_authmode a \<noteq> 0)]])]"
  have t: "''{\"aps\":['' @ ap_row 0 a @ '']}'' = print_json ?v"
    by (simp add: ap_row_def obj_def assms(2) js_def ji_def jb_def jflag_def quote_def)
  have "length (print_json ?v) < 2048"
    using show_int_short [of "ap_rssi a"] assms(2,5-7) by (simp add: js_def ji_def jb_def jflag_def quote_def)
  then have "rp_text (h_wifi_scan A) = print_json ?v"
    unfolding t [symmetric] by (simp add: h_wifi_scan_def scan_list_def assms(1) answer_def snprintf_buf_def del: t)
  moreover have "plain_json ?v" using assms(3,4) by (simp add: js_def ji_def jb_def jflag_def plain_text_def)
  ultimately show ?thesis by (simp only: parse_printed)
qed

definition ex_forged :: wifi_scan_entry where
  "ex_forged = \<lparr>ap_ssid = ''a\"},{\"ssid\":\"home'', ap_rssi = -40, ap_authmode = 0\<rparr>"

theorem network_name_forges_entry_witness:
  "parse_json (rp_text (h_wifi_scan (ex_answers\<lparr>an_aps := Some [ex_forged]\<rparr>))) =
    Some (JObj [(''aps'', JArr [JObj [js ''ssid'' ''a''], JObj [js ''ssid'' ''home'', ji ''rssi'' (-40), jb ''lock'' False]])])"
  using network_name_forges_entry [of "ex_answers\<lparr>an_aps := Some [ex_forged]\<rparr>" ex_forged "''a''" "''home''"]
  by (simp add: ex_forged_def plain_text_def)

end
