(* ===== verification/Web_Portal.thy ===== *)
theory Web_Portal
  imports Web_Admin Dns_Server
begin

text \<open>
  The two modes of \<^verbatim>\<open>components/provisioning/provisioning.c\<close>: the setup portal (\<^verbatim>\<open>provisioning_run\<close>), an open
  access point with its own name server and a web server that sends every other page to the portal, and
  the admin server (\<^verbatim>\<open>provisioning_admin_start\<close>). \<open>portal\<close> puts the web state, the Wi-Fi manager, the name
  server and the web server together.

  The route lookup of the HTTP server is not under \<^verbatim>\<open>src/\<close>; it is the parameter \<open>lookup\<close>, and
  \<open>finds_first\<close> states what its documentation says of it: the first registered route of the method whose
  template is the path, or ends in a star and covers it.

  The lemmas show that a phone on the portal's network ends up on its page, that setup ends with a
  provisioned configuration and everything it started taken down, and what a form that arrives while
  the station connects does to the configuration that is stored.
\<close>

section \<open>The portal's pages\<close>

definition AP_IP :: string where "AP_IP = ''192.168.4.1''"

datatype portal_handler = P_root | P_wifi_scan | P_provision | P_status | P_redirect

definition PORTAL_ROUTES :: "(string \<times> meth \<times> portal_handler) list" where
  "PORTAL_ROUTES =
     [(''/'', GET, P_root), (''/api/wifi-scan'', GET, P_wifi_scan), (''/api/provision'', POST, P_provision),
      (''/api/status'', GET, P_status), (''/generate_204'', GET, P_redirect), (''/gen_204'', GET, P_redirect),
      (''/hotspot-detect.html'', GET, P_redirect), (''/library/test/success.html'', GET, P_redirect),
      (''/ncsi.txt'', GET, P_redirect), (''/connecttest.txt'', GET, P_redirect), (''/*'', GET, P_redirect)]"

definition MAX_URI_HANDLERS :: nat where "MAX_URI_HANDLERS = 33"

text \<open>An answer of the portal: a reply, or a redirection to a location.\<close>

datatype portal_reply = Plain reply | Redirect string

definition h_redirect :: portal_reply where
  "h_redirect = Redirect (''http://'' @ AP_IP @ ''/'')"

definition captive_404 :: portal_reply where "captive_404 = h_redirect"

definition h_root :: "string \<Rightarrow> reply" where "h_root html = answer html"

text \<open>\<open>html\<close> is the portal page built into the firmware, \<open>ip\<close> the station's address as the status shows it.\<close>

fun run_portal ::
    "portal_handler \<Rightarrow> answers \<Rightarrow> string \<Rightarrow> string \<Rightarrow> 's web_env \<Rightarrow> request \<Rightarrow> 's web \<Rightarrow> portal_reply \<times> 's web" where
  "run_portal P_root A html ip E r w = (Plain (h_root html), w)"
| "run_portal P_wifi_scan A html ip E r w =
     (case require_auth (\<lambda>E r w. (if we_memory E then h_wifi_scan A else server_error, w)) E r w of
        (rep, w) \<Rightarrow> (Plain rep, w))"
| "run_portal P_provision A html ip E r w = (case h_provision E r w of (rep, w) \<Rightarrow> (Plain rep, w))"
| "run_portal P_status A html ip E r w = (Plain (h_status ip w), w)"
| "run_portal P_redirect A html ip E r w = (h_redirect, w)"

section \<open>Setup mode and admin mode\<close>

datatype http_server =
    No_server
  | Portal_server "(string \<times> meth \<times> portal_handler) list"
  | Admin_server "(string \<times> meth \<times> handler) list"

record 's portal =
  po_web :: "'s web"
  po_wifi :: wifi
  po_dns :: dns_server
  po_server :: http_server
  po_ready :: bool
  po_mark :: nat

text \<open>The event bit that \<^verbatim>\<open>connect_task\<close> sets is its call \<open>Call_done\<close>, counted from the moment the event
  group was made.\<close>

definition done_bit :: "'s portal \<Rightarrow> bool" where
  "done_bit P \<longleftrightarrow> Call_done \<in> set (drop (po_mark P) (wb_calls (po_web P)))"

text \<open>\<open>rc\<close> is what \<^verbatim>\<open>httpd_start\<close> returns.\<close>

definition start_httpd :: "bool \<Rightarrow> int \<Rightarrow> 's portal \<Rightarrow> int \<times> 's portal" where
  "start_httpd captive rc P =
     (if rc \<noteq> ESP_OK then (rc, P)
      else (ESP_OK, P\<lparr>po_server := (if captive then Portal_server PORTAL_ROUTES else Admin_server ADMIN_ROUTES)\<rparr>))"

text \<open>The server has room for every route it is given.\<close>

lemma routes_fit: "length PORTAL_ROUTES \<le> MAX_URI_HANDLERS" "length ADMIN_ROUTES \<le> MAX_URI_HANDLERS"
  by (simp_all add: PORTAL_ROUTES_def ADMIN_ROUTES_def MAX_URI_HANDLERS_def)

text \<open>What setup mode meets: whether its event group and lock could be made, the socket, its binding and
  the task of the name server, and the outcome of \<^verbatim>\<open>httpd_start\<close>.\<close>

record setup_env =
  su_made :: bool
  su_sock :: int
  su_bound :: bool
  su_created :: bool
  su_httpd :: int

text \<open>The four bytes of a dotted address, in network order.\<close>

fun dot_parts :: "string \<Rightarrow> string list" where
  "dot_parts [] = [[]]"
| "dot_parts (c # s) =
     (if c = CHR ''.'' then [] # dot_parts s
      else case dot_parts s of [] \<Rightarrow> [[c]] | p # ps \<Rightarrow> (c # p) # ps)"

definition inet_addr :: "string \<Rightarrow> byte list" where
  "inet_addr s = map (\<lambda>p. word_of_int (atoi p)) (dot_parts s)"

datatype setup_result = Aborted | Returned int | Waiting

text \<open>\<^verbatim>\<open>provisioning_run\<close> up to its wait. A failed access point aborts the program.\<close>

definition provisioning_begin :: "'s web_env \<Rightarrow> setup_env \<Rightarrow> app_config \<Rightarrow> 's portal \<Rightarrow> setup_result \<times> 's portal" where
  "provisioning_begin E U cfg P =
     (let w = (po_web P)\<lparr>wb_cfg := cfg, wb_state := ST_IDLE\<rparr>;
          P = P\<lparr>po_web := w, po_mark := length (wb_calls w), po_ready := su_made U\<rparr>
      in if \<not> su_made U then (Returned ESP_ERR_NO_MEM, P)
         else case wifi_mgr_ap_start (we_mac E) (Some (default_ssid E)) None (po_wifi P) of (up, wifi) \<Rightarrow>
           let P = P\<lparr>po_wifi := wifi\<rparr>
           in if \<not> up then (Aborted, P)
              else
                let P = P\<lparr>po_dns := snd (dns_server_start (inet_addr AP_IP) (su_sock U) (su_bound U) (su_created U) (po_dns P))\<rparr>
                in case start_httpd True (su_httpd U) P of (rc, P) \<Rightarrow>
                     (if rc \<noteq> ESP_OK then (Returned rc, P) else (Waiting, P)))"

text \<open>From the wait to the end: the event bit is cleared and everything is taken down.\<close>

definition provisioning_end :: "'s portal \<Rightarrow> 's portal" where
  "provisioning_end P =
     P\<lparr>po_mark := length (wb_calls (po_web P)), po_web := web_call Call_ble_scan_stop (po_web P),
       po_server := No_server, po_dns := dns_server_stop (po_dns P),
       po_wifi := wifi_mgr_ap_stop (po_wifi P)\<rparr>"

definition provisioning_admin_start :: "app_config \<Rightarrow> int \<Rightarrow> 's portal \<Rightarrow> int \<times> 's portal" where
  "provisioning_admin_start cfg rc P =
     start_httpd False rc (P\<lparr>po_web := (po_web P)\<lparr>wb_cfg := cfg\<rparr>, po_ready := True\<rparr>)"

section \<open>Requests\<close>

text \<open>What the documentation of the HTTP server says of its route lookup.\<close>

definition covers :: "string \<Rightarrow> string \<Rightarrow> bool" where
  "covers t uri \<longleftrightarrow> t = uri \<or> t \<noteq> [] \<and> last t = CHR ''*'' \<and> has_prefix (butlast t) uri"

definition first_route :: "(string \<times> meth \<times> 'h) list \<Rightarrow> meth \<Rightarrow> string \<Rightarrow> 'h option" where
  "first_route R m uri = map_option (\<lambda>(t, m', h). h) (List.find (\<lambda>(t, m', h). m' = m \<and> covers t uri) R)"

definition finds_first :: "((string \<times> meth \<times> 'h) list \<Rightarrow> meth \<Rightarrow> string \<Rightarrow> 'h option) \<Rightarrow> bool" where
  "finds_first lookup \<longleftrightarrow> (\<forall>R m uri. lookup R m uri = first_route R m uri)"

definition serve_portal ::
    "((string \<times> meth \<times> portal_handler) list \<Rightarrow> meth \<Rightarrow> string \<Rightarrow> portal_handler option) \<Rightarrow> answers \<Rightarrow> string \<Rightarrow> string \<Rightarrow>
     's web_env \<Rightarrow> meth \<Rightarrow> string \<Rightarrow> request \<Rightarrow> 's portal \<Rightarrow> portal_reply option \<times> 's portal" where
  "serve_portal lookup A html ip E m uri r P =
     (case po_server P of
        Portal_server R \<Rightarrow>
          (case lookup R m uri of
             None \<Rightarrow> (Some captive_404, P)
           | Some h \<Rightarrow> (case run_portal h A html ip E r (po_web P) of (rep, w) \<Rightarrow> (Some rep, P\<lparr>po_web := w\<rparr>)))
      | _ \<Rightarrow> (None, P))"

lemma portal_get_route:
  assumes "uri \<notin> {''/'', ''/api/wifi-scan'', ''/api/status''}"
  shows "first_route PORTAL_ROUTES GET uri \<in> {None, Some P_redirect}"
  using assms by (auto simp: first_route_def PORTAL_ROUTES_def covers_def)

lemma begin_waiting:
  assumes "provisioning_begin E U cfg P = (Waiting, Q)"
  shows "po_server Q = Portal_server PORTAL_ROUTES"
    "po_dns Q = snd (dns_server_start (inet_addr AP_IP) (su_sock U) (su_bound U) (su_created U) (po_dns P))"
    "po_mark Q = length (wb_calls (po_web Q))" "wb_cfg (po_web Q) = cfg" "wb_pending (po_web Q) = wb_pending (po_web P)"
    "w_ap_up (po_wifi Q)"
  using assms by (auto simp: provisioning_begin_def start_httpd_def wifi_mgr_ap_start_def Let_def split: if_splits)

section \<open>Setup as it runs\<close>

text \<open>Requests of the portal, the two halves of the connection task, and events of the radio, in any
  order and number.\<close>

inductive portal_step :: "'s portal \<Rightarrow> 's portal \<Rightarrow> bool" where
  request: "portal_step P (snd (serve_portal lookup A html ip E m uri r P))"
| connecting: "portal_step P (P\<lparr>po_web := connect_begin (po_web P),
    po_wifi := sta_connect_request (ac_wifi_ssid (wb_pending (po_web P))) (Some (ac_wifi_pass (wb_pending (po_web P)))) (po_wifi P)\<rparr>)"
| connected: "portal_step P (P\<lparr>po_web := connect_end E rc (po_web P)\<rparr>)"
| radio: "portal_step P (P\<lparr>po_wifi := wifi_input_step i (po_wifi P)\<rparr>)"

text \<open>Handlers only add calls, none of them the event bit, and never take back that the bridge is set up.\<close>

definition keeps_setup :: "'s web \<Rightarrow> 's web \<Rightarrow> bool" where
  "keeps_setup w w' \<longleftrightarrow> (\<exists>xs. wb_calls w' = wb_calls w @ xs \<and> Call_done \<notin> set xs) \<and>
     (ac_provisioned (wb_cfg w) \<longrightarrow> ac_provisioned (wb_cfg w'))"

lemma keeps_setup_same: "wb_calls w' = wb_calls w \<Longrightarrow> wb_cfg w' = wb_cfg w \<Longrightarrow> keeps_setup w w'"
  by (simp add: keeps_setup_def)

lemma keeps_setup_call: "x \<noteq> Call_done \<Longrightarrow> wb_calls w' = wb_calls w @ [x] \<Longrightarrow>
    wb_cfg w' = wb_cfg w \<or> ac_provisioned (wb_cfg w') \<Longrightarrow> keeps_setup w w'"
  by (auto simp: keeps_setup_def)

lemma keeps_setup_cfg: "wb_calls w' = wb_calls w \<Longrightarrow> ac_provisioned (wb_cfg w') \<Longrightarrow> keeps_setup w w'"
  by (simp add: keeps_setup_def)

lemma provision_ap_keeps: "keeps_setup w (snd (provision_ap E body p w))"
proof -
  have a: "keeps_setup w (snd (case adopt_config E (q\<lparr>ac_provisioned := True\<rparr>) (w\<lparr>wb_pending := q\<rparr>) of (ok, w) \<Rightarrow>
      if \<not> ok then (x, w) else (y, web_call Call_reboot w)))" for q x y
  proof -
    obtain ok w' where ad: "adopt_config E (q\<lparr>ac_provisioned := True\<rparr>) (w\<lparr>wb_pending := q\<rparr>) = (ok, w')" by (metis prod.exhaust)
    show ?thesis using adopt_keeps [OF ad]
      by (cases ok) (auto simp: ad intro: keeps_setup_cfg keeps_setup_call [of Call_reboot])
  qed
  show ?thesis unfolding provision_ap_def Let_def by (simp only: if_distrib [of snd] snd_conv) (simp add: a keeps_setup_same)
qed

lemma provision_form_keeps: "keeps_setup w (snd (provision_form E body w))"
  using provision_ap_keeps [of w E body "form_login E body (wb_cfg w)"]
  by (auto simp: provision_form_def provision_station_def Let_def
      intro: keeps_setup_same keeps_setup_call [of Call_connect_task])

lemma run_portal_keeps: "keeps_setup w (snd (run_portal h A html ip E r w))"
proof (cases h)
  case P_provision
  have "keeps_setup w (snd (h_provision E r w))"
    unfolding h_provision_def
    by (rule with_body_keeps [where P = "keeps_setup w"]) (simp_all add: provision_form_keeps keeps_setup_same)
  then show ?thesis by (auto simp: P_provision split: prod.split)
next
  case P_wifi_scan
  have "keeps_setup w (snd (require_auth (\<lambda>E r w. (if we_memory E then h_wifi_scan A else server_error, w)) E r w))"
    by (rule require_auth_keeps [where P = "keeps_setup w"]) (simp_all add: keeps_setup_same)
  then show ?thesis by (auto simp: P_wifi_scan split: prod.split)
qed (simp_all add: keeps_setup_same)

text \<open>While setup waits, the event bit means that the configuration is marked as set up.\<close>

definition setup_inv :: "'s portal \<Rightarrow> bool" where
  "setup_inv P \<longleftrightarrow> po_mark P \<le> length (wb_calls (po_web P)) \<and> (done_bit P \<longrightarrow> ac_provisioned (wb_cfg (po_web P)))"

lemma setup_inv_keeps:
  "setup_inv P \<Longrightarrow> keeps_setup (po_web P) w \<Longrightarrow> setup_inv (P\<lparr>po_web := w\<rparr>)"
  by (auto simp: setup_inv_def done_bit_def keeps_setup_def)

lemma setup_inv_wifi: "setup_inv (P\<lparr>po_wifi := x\<rparr>) = setup_inv P"
  by (simp add: setup_inv_def done_bit_def)

lemma setup_inv_end: "setup_inv P \<Longrightarrow> setup_inv (P\<lparr>po_web := connect_end E rc (po_web P)\<rparr>)"
proof -
  assume i: "setup_inv P"
  obtain ok w' where ad: "adopt_config E ((wb_pending (po_web P))\<lparr>ac_provisioned := True\<rparr>) (po_web P) = (ok, w')"
    by (metis prod.exhaust)
  show ?thesis using i adopt_keeps [OF ad] by (auto simp: connect_end_def ad setup_inv_def done_bit_def)
qed

lemma portal_step_inv: "portal_step P Q \<Longrightarrow> setup_inv P \<Longrightarrow> setup_inv Q"
proof (induction rule: portal_step.induct)
  case (request P lookup A html ip E m uri r)
  have "setup_inv (P\<lparr>po_web := w\<rparr>)" if "run_portal h A html ip E r (po_web P) = (rep, w)" for h rep w
    using setup_inv_keeps [OF request run_portal_keeps [of _ h A html ip E r]] that by simp
  then show ?case
    using request by (auto simp: serve_portal_def split: http_server.splits option.splits prod.splits)
next
  case (connecting P)
  have "keeps_setup (po_web P) (connect_begin (po_web P))"
    by (auto simp: connect_begin_def intro: keeps_setup_call)
  from setup_inv_keeps [OF connecting this] show ?case
    using setup_inv_wifi [where P = "P\<lparr>po_web := connect_begin (po_web P)\<rparr>"] by simp
qed (simp_all add: setup_inv_end setup_inv_wifi)

lemma portal_steps_inv: "rtranclp portal_step P Q \<Longrightarrow> setup_inv P \<Longrightarrow> setup_inv Q"
  by (induction rule: rtranclp_induct) (auto intro: portal_step_inv)

lemma ap_stop_down: "\<not> w_ap_up (wifi_mgr_ap_stop w)"
  by (simp add: wifi_mgr_ap_stop_def call_def esp_wifi_connect_def Let_def)

section \<open>Properties\<close>


definition ex_setup_env :: setup_env where
  "ex_setup_env = \<lparr>su_made = True, su_sock = 3, su_bound = True, su_created = True, su_httpd = 0\<rparr>"

definition ex_portal :: "(string \<Rightarrow> byte list option) portal" where
  "ex_portal = \<lparr>po_web = ex_web, po_wifi = wifi0, po_dns = dns_idle, po_server = No_server, po_ready = False, po_mark = 0\<rparr>"

definition ex_waiting :: "(string \<Rightarrow> byte list option) portal" where
  "ex_waiting = snd (provisioning_begin ex_web_env ex_setup_env ex_config ex_portal)"

lemma ex_begin: "provisioning_begin ex_web_env ex_setup_env ex_config ex_portal = (Waiting, ex_waiting)"
  by (simp add: ex_waiting_def provisioning_begin_def ex_setup_env_def start_httpd_def wifi_mgr_ap_start_def Let_def
      split: prod.split)


text \<open>C22: Setup mode ends only with a configuration marked as set up, whatever is asked of the portal on the
  way, and leaves nothing behind: the event bit is clear, the web server and the access point are gone
  and the name server's socket is closed.\<close>

theorem setup_ends_provisioned:
  assumes "provisioning_begin E U cfg P = (Waiting, Q)" "rtranclp portal_step Q R" "done_bit R"
  shows "ac_provisioned (wb_cfg (po_web (provisioning_end R))) \<and> \<not> done_bit (provisioning_end R) \<and>
    po_server (provisioning_end R) = No_server \<and> \<not> w_ap_up (po_wifi (provisioning_end R)) \<and>
    dns_task (po_dns (provisioning_end R)) rxs = []"
proof -
  have "setup_inv Q" using begin_waiting(3) [OF assms(1)] by (simp add: setup_inv_def done_bit_def)
  from portal_steps_inv [OF assms(2) this] assms(3) have "ac_provisioned (wb_cfg (po_web R))" by (simp add: setup_inv_def)
  then show ?thesis
    by (cases rxs) (simp_all add: provisioning_end_def done_bit_def ap_stop_down dns_server_stop_def)
qed

definition ex_joined :: "(string \<Rightarrow> byte list option) portal" where
  "ex_joined = ex_waiting\<lparr>po_web := connect_end ex_web_env Connect_ok (po_web ex_waiting)\<rparr>"

theorem setup_ends_provisioned_witness:
  "ac_provisioned (wb_cfg (po_web (provisioning_end ex_joined))) \<and> po_server (provisioning_end ex_joined) = No_server"
proof -
  have s: "rtranclp portal_step ex_waiting ex_joined"
    unfolding ex_joined_def by (rule r_into_rtranclp, rule portal_step.connected)
  obtain ok w' where ad: "adopt_config ex_web_env ((wb_pending (po_web ex_waiting))\<lparr>ac_provisioned := True\<rparr>) (po_web ex_waiting) = (ok, w')"
    by (metis prod.exhaust)
  have "done_bit ex_joined"
    using adopt_keeps [OF ad] begin_waiting(3) [OF ex_begin] by (simp add: ex_joined_def connect_end_def ad done_bit_def)
  from setup_ends_provisioned [OF ex_begin s this] show ?thesis by blast
qed

text \<open>C23: Once the station has connected, what is stored is the form as it stands then, not the form that was
  accepted. If nothing comes in between, it has the network and the admin password of the form. But a
  second form, refused for want of a password while the station connects, has put the old
  configuration back: the bridge is marked as set up with neither.\<close>

theorem refused_form_spoils_setup:
  assumes "form_value b1 ''auth_pass'' 128 \<noteq> []" "form_value b1 ''wifi_mode'' 8 \<noteq> ''ap''" "form_value b1 ''ssid'' 33 \<noteq> []"
    and "form_value b2 ''auth_pass'' 128 = []"
    and "w1 = connect_begin (snd (provision_form E b1 w))" "provision_form E b2 w1 = (rep, w2)"
  shows "ac_wifi_ssid (wb_cfg (connect_end E Connect_ok w1)) = form_value b1 ''ssid'' 33 \<and>
    ac_auth_set (wb_cfg (connect_end E Connect_ok w1)) \<and>
    rp_status rep = 400 \<and> wb_cfg (connect_end E Connect_ok w2) = (wb_cfg w)\<lparr>ac_provisioned := True\<rparr>"
proof -
  have e: "wb_cfg (connect_end E Connect_ok v) = (wb_pending v)\<lparr>ac_provisioned := True\<rparr>" for v
  proof -
    obtain ok w' where ad: "adopt_config E ((wb_pending v)\<lparr>ac_provisioned := True\<rparr>) v = (ok, w')" by (metis prod.exhaust)
    show ?thesis using adopt_keeps [OF ad] by (simp add: connect_end_def ad)
  qed
  have w1: "wb_cfg w1 = wb_cfg w" "ac_wifi_ssid (wb_pending w1) = form_value b1 ''ssid'' 33" "ac_auth_set (wb_pending w1)"
    using assms(1-3) by (simp_all add: assms(5) connect_begin_def provision_form_def provision_station_def Let_def form_login_def
        app_config_set_password_def set_secret_def)
  have w2: "rp_status rep = 400" "wb_pending w2 = wb_cfg w"
    using assms(4,6) w1(1) by (auto simp: provision_form_def refuse_def)
  show ?thesis by (simp add: e w1 w2)
qed

theorem refused_form_spoils_setup_witness:
  "\<not> ac_auth_set (wb_cfg (connect_end ex_web_env Connect_ok (snd (provision_form ex_web_env ''ssid=home''
     (connect_begin (snd (provision_form ex_web_env ''ssid=home&pass=secret12&auth_pass=owner'' ex_web)))))))"
proof -
  let ?b1 = "''ssid=home&pass=secret12&auth_pass=owner''" and ?b2 = "''ssid=home''"
  have f: "form_value ?b1 ''auth_pass'' 128 \<noteq> []" "form_value ?b1 ''wifi_mode'' 8 \<noteq> ''ap''" "form_value ?b1 ''ssid'' 33 \<noteq> []"
    "form_value ?b2 ''auth_pass'' 128 = []" by code_simp+
  obtain rep w2 where r: "provision_form ex_web_env ?b2 (connect_begin (snd (provision_form ex_web_env ?b1 ex_web))) = (rep, w2)"
    by (metis prod.exhaust)
  show ?thesis using refused_form_spoils_setup [OF f refl r] ex_config_no_auth r by (simp add: ex_web_def)
qed

end
