(* ===== verification/Spec2Isabelle.thy ===== *)
theory Spec2Isabelle
  imports Pve_Engine Pve_Shutdown Bluetti_Ble Nut_Server Notify App_Config Led_Status Bridge_Main
    Log_Ring Dns_Server Ota_Github Web_Portal
begin

text \<open>
  A bridge between a Bluetti power station and the programs that ask a NUT server about it, an ESP32
  firmware written in C. This development models its components as functions and step relations
  over records of their state and proves what makes them correct.

  \<^bold>\<open>The program.\<close> The bridge connects to the power station over Bluetooth
  (\<^verbatim>\<open>components/bluetti_ble\<close>), polls its registers through an encrypted Modbus session and decodes them.
  Each reading goes to three places (\<^verbatim>\<open>main/main.c\<close>): the variables of a NUT server
  (\<^verbatim>\<open>components/nut_server\<close>), the engine that shuts down Proxmox hosts during an outage
  (\<^verbatim>\<open>components/pve_shutdown\<close>) and the Telegram notifier (\<^verbatim>\<open>components/notify\<close>). The settings live in flash
  (\<^verbatim>\<open>components/app_config\<close>) and are changed over a web server (\<^verbatim>\<open>components/provisioning\<close>), which also serves
  the setup portal, the log and the firmware updates (\<^verbatim>\<open>components/ota_github\<close>). The Wi-Fi manager
  (\<^verbatim>\<open>components/wifi_mgr\<close>) keeps the station connected; a LED shows the state.

  \<^bold>\<open>Theories.\<close> C strings are \<open>string\<close>s without their terminator, sized copies are \<open>strlcpy\<close> and
  \<open>snprintf_buf\<close>, unsigned fields are words of their width, \<^verbatim>\<open>int\<close> is \<open>int\<close>, and floats are rationals rounded
  to single precision. A record stands for a file's static state and keeps its field names behind a
  prefix; functions have the names they have in C.

  \<^item> \<open>Bridge_Prelude\<close>: the C library functions the components use, and lemmas on lists and strings.
  \<^item> \<open>Edge_Latch\<close>, \<open>Framing\<close>, \<open>Var_Store\<close>: the contracts several components share, as locales: a latch that
    fires once between releases, a receiver that consumes complete frames from a growing buffer, a
    store of named values. \<open>Pve_Engine\<close>, \<open>Bt_Session\<close>, \<open>Nut_Server\<close> interpret them; \<open>Log_Ring\<close> states and
    interprets the contract of a log that is read by offset.
  \<^item> \<open>Pve_Engine\<close> (\<^verbatim>\<open>pve_engine.c\<close>): when a host or guest is due. \<open>pve_eval\<close> is shown to fire exactly as
    the history of observations calls for, at most once per outage.
  \<^item> \<open>Pve_Shutdown\<close> (\<^verbatim>\<open>pve_shutdown.c\<close>): requests over TLS with the pinned certificate, the worker and its
    queues, the status and test calls. What the engine fires is carried out, once, and only towards the
    pinned server.
  \<^item> \<open>Bt_Crypto\<close>, \<open>Bt_Session\<close>, \<open>C_Float\<close>, \<open>Bt_Regs\<close>, \<open>Bluetti_Ble\<close> (\<^verbatim>\<open>bt_crypto.c\<close>, \<^verbatim>\<open>bt_session.c\<close>, \<^verbatim>\<open>bt_regs.c\<close>,
    \<^verbatim>\<open>bluetti_ble.c\<close>): the key exchange, the framing, the register map, the polling and the control writes.
    A ready session is authenticated, fragmentation does not matter, decoded values stay in range.
  \<^item> \<open>Nut_Server\<close> (\<^verbatim>\<open>nut_server.c\<close>): the variable table as a finite map, the commands, the receive loop.
  \<^item> \<open>Notify\<close> (\<^verbatim>\<open>notify.c\<close>): which messages a history of readings calls for, and their delivery.
  \<^item> \<open>App_Config\<close> (\<^verbatim>\<open>app_config.c\<close>): the image of the settings, loading, upgrading, passwords.
  \<^item> \<open>Led_Status\<close> (\<^verbatim>\<open>led_status.c\<close>), \<open>Log_Ring\<close> (\<^verbatim>\<open>log_ring.c\<close>), \<open>Dns_Server\<close> (\<^verbatim>\<open>dns_server.c\<close>), \<open>Ota_Github\<close>
    (\<^verbatim>\<open>ota_github.c\<close>), \<open>Wifi_Mgr\<close> (\<^verbatim>\<open>wifi_mgr.c\<close>): one component each.
  \<^item> \<open>Bridge_Main\<close> (\<^verbatim>\<open>main.c\<close>): the publication of a reading and the start of the services, over the joined
    state of the components. Its lemmas span them: every consumer is told the same about the power.
  \<^item> \<open>Web_Forms\<close>, \<open>Web_Auth\<close>, \<open>Web_Settings\<close>, \<open>Web_Text\<close>, \<open>Web_Status\<close>, \<open>Web_Admin\<close>, \<open>Web_Portal\<close>
    (\<^verbatim>\<open>provisioning.c\<close>): decoding a form; sessions and sign-in; the forms that change the settings; the text of
    the JSON pages in their buffer, with a reader; the status page; everything else the admin server
    answers, and its routes; setup mode with its access point, name server and web server. A handler takes
    the request and the server's state and gives the reply and the new state; what it asks of other
    components is a list of calls. The settings stay well formed under every request, without a session
    nothing changes, and setup ends only with a configuration marked as set up.
  \<^item> This theory: what a form of the web server means for the device after its next start, from the form
    through the flash image to the network it joins and the logins it accepts.

  \<^bold>\<open>Parameters.\<close> Code outside the repository is an argument: mbedTLS (\<open>mbedtls\<close>), the TLS and HTTP
  clients (\<open>tls_env\<close>, \<open>tg_env\<close>, the outcomes in \<open>Ota_Github\<close>), the flash store (\<open>nvs\<close>), the RMT and Wi-Fi
  drivers, the Bluetooth stack's answers (\<open>gatt\<close>, \<open>gap_ev\<close>), the route lookup of the HTTP server
  (\<open>finds_first\<close>), SHA-256, the random source and the clock. What a lemma relies on is a named hypothesis
  (\<open>mbedtls_sizes\<close>, \<open>cbc_inverts\<close>, \<open>nvs_ok\<close>, \<open>env_ok\<close>), discharged in its witness on a concrete function.

  \<^bold>\<open>Bounds.\<close> No fuel is used: loops over buffers and lists are structural or have a measure. A
  loop that waits for its surroundings takes what they deliver as a list (received pieces, driver events,
  download outcomes), and the end of the list is the time-out or the end of the connection. Endless tasks are step
  relations, with their invariants over the reachable states.

  \<^bold>\<open>Not modelled.\<close> Tasks, mutexes and critical sections appear only where the code releases a lock
  between two steps; logging and freeing memory are left out. The HTML pages are texts built into the
  firmware, parameters here. Socket set-up, the DHCP options of the access point, the registration of
  handlers and callbacks with the stacks, and the tests under \<^verbatim>\<open>test\<close> are not modelled.
\<close>

section \<open>From the web form to the network\<close>

lemma station_pending:
  assumes "form_value b ''auth_pass'' 128 \<noteq> []" "form_value b ''wifi_mode'' 8 \<noteq> ''ap''" "form_value b ''ssid'' 33 \<noteq> []"
  shows "wb_pending (snd (provision_form E b w)) = (form_login E b (wb_cfg w))\<lparr>ac_wifi_mode := APP_WIFI_STATION,
      ac_wifi_ssid := form_value b ''ssid'' 33, ac_wifi_pass := form_value b ''pass'' 65\<rparr>"
    "wb_nvs (snd (provision_form E b w)) = wb_nvs w"
  using assms by (simp_all add: provision_form_def provision_station_def Let_def)

lemma connected_stores:
  assumes "app_config_save (we_nv E) (we_memory E) (wb_nvs w) ((wb_pending w)\<lparr>ac_provisioned := True\<rparr>) = (err, st)"
  shows "wb_nvs (connect_end E Connect_ok (connect_begin w)) = st"
  using assms by (simp add: connect_end_def connect_begin_def adopt_config_def web_call_def)

lemma admin_password_checked:
  assumes "\<forall>bs. length (sha bs) = 32" "pw \<noteq> []" "ac_auth_salt c = random" "ac_auth_set c"
    "ac_auth_hash c = hash_password sha random pw"
  shows "app_config_check_password sha c (Some q) \<longleftrightarrow> hash_password sha random q = hash_password sha random pw"
  using assms by (simp add: app_config_check_password_def check_secret_def secret_diff_eq hash_password_def)



section \<open>From the web form to the NUT client\<close>

lemma nut_form_fields:
  "\<exists>c0. section_nut E b p = Inr
      (let c = (if form_given b ''nut_pass'' 128
                then app_config_set_nut_password (we_sha E) (we_random E) c0 (Some (form_value b ''nut_pass'' 128)) else c0)
       in if form_set b ''nut_noauth'' 128 then app_config_set_nut_password (we_sha E) (we_random E) c (Some []) else c) \<and>
    ac_nut_user c0 = (if form_given b ''nut_user'' 128 then strlcpy 33 (form_value b ''nut_user'' 128) else ac_nut_user p) \<and>
    ac_nut_enabled c0 = ac_nut_enabled p"
  unfolding section_nut_def Let_def
  by (rule exI, intro conjI, rule refl)
    (simp_all add: if_distrib [of ac_nut_user] if_distrib [of ac_nut_enabled] cong: if_cong split del: if_split)

lemma nut_form_password:
  assumes "form_given b ''nut_pass'' 128" "\<not> form_set b ''nut_noauth'' 128" "section_nut E b p = Inr c"
  shows "\<exists>c0. c = app_config_set_nut_password (we_sha E) (we_random E) c0 (Some (form_value b ''nut_pass'' 128)) \<and>
    ac_nut_user c0 = (if form_given b ''nut_user'' 128 then strlcpy 33 (form_value b ''nut_user'' 128) else ac_nut_user p) \<and>
    ac_nut_enabled c0 = ac_nut_enabled p"
  using nut_form_fields [of E b p] assms by (auto simp: Let_def)

text \<open>C15: The password the operator types into the settings form is the one NUT clients need: after the form
  was answered with success and the bridge has started again from what is stored, a login is accepted
  exactly from the form's user with a password of the same hash.\<close>

theorem form_password_guards_nut:
  assumes "nvs_ok (we_nv E) view" "env_ok E" "settings_ok (wb_cfg w)" "ac_nut_enabled (wb_cfg w)"
    and "form_value b ''section'' 16 = ''nut''" "form_given b ''nut_pass'' 128" "\<not> form_set b ''nut_noauth'' 128"
    and "reconfigure_form E b w = (rep, w')" "rp_status rep = 200" "nv_open (we_nv E) (wb_nvs w') False = ESP_OK"
    and "br_cfg B = app_config_load K (we_nv E) True (wb_nvs w')" "be_sha256 F = we_sha E"
  shows "login_ok (br_nut (start_services F S nv store B)) cl \<longleftrightarrow>
    cc_user cl \<noteq> [] \<and>
    cc_user cl = (if form_given b ''nut_user'' 128 then strlcpy 33 (form_value b ''nut_user'' 128) else ac_nut_user (wb_cfg w)) \<and>
    hash_password (we_sha E) (we_random E) (cc_pass cl) =
      hash_password (we_sha E) (we_random E) (form_value b ''nut_pass'' 128)"
proof -
  let ?pw = "form_value b ''nut_pass'' 128"
  obtain c saves st where c: "apply_section E ''nut'' b (wb_cfg w) = Inr (c, saves)" "wb_cfg w' = c\<lparr>ac_provisioned := True\<rparr>"
    and save: "app_config_save (we_nv E) (we_memory E) st (wb_cfg w') = (ESP_OK, wb_nvs w')"
    using reconfigure_accepted [OF assms(8,9)] assms(5) by auto
  have s: "section_nut E b (wb_cfg w) = Inr c" using c(1) by (auto simp: apply_section_def split: sum.splits)
  obtain c0 where c0: "c = app_config_set_nut_password (we_sha E) (we_random E) c0 (Some ?pw)"
    "ac_nut_user c0 = (if form_given b ''nut_user'' 128 then strlcpy 33 (form_value b ''nut_user'' 128) else ac_nut_user (wb_cfg w))"
    "ac_nut_enabled c0"
    using nut_form_password [OF assms(6,7) s] assms(4) by auto
  have wf: "wf_config (wb_cfg w')"
    using section_keeps_ok [OF assms(2,3) c(1)] by (simp add: c(2) settings_ok_def wf_config_def)
  define c1 where "c1 = c0\<lparr>ac_provisioned := True, ac_ble_probe := (ac_log_level c0 \<ge> APP_LOG_VERBOSE)\<rparr>"
  have cfg: "br_cfg B = app_config_set_nut_password (be_sha256 F) (we_random E) c1 (Some ?pw)"
    unfolding assms(11,12) load_saved [OF assms(1) save wf assms(10)] c(2) c0(1)
    by (simp add: c1_def set_nut_password_fields)
  have pw: "?pw \<noteq> []" using assms(6) by (simp add: form_given_def)
  have len: "\<forall>bs. length (be_sha256 F bs) = 32" using assms(2) by (simp add: env_ok_def assms(12))
  have en: "ac_nut_enabled c1" using c0(3) by (simp add: c1_def)
  show ?thesis unfolding login_needs_password [OF cfg pw len en] using c0(2) by (simp add: c1_def assms(12))
qed

definition ex_nut_form :: string where
  "ex_nut_form = ''section=nut&nut_user=monitor&nut_pass=secret''"

theorem form_password_guards_nut_witness:
  "\<not> login_ok (br_nut (start_services (ex_bridge_env\<lparr>be_sha256 := we_sha ex_web_env\<rparr>) ex_start map_nvs (\<lambda>_. None)
      (ex_bridge\<lparr>br_cfg := app_config_load ex_kconfig map_nvs True (wb_nvs (snd (reconfigure_form ex_web_env ex_nut_form
        (ex_web\<lparr>wb_cfg := ex_config\<lparr>ac_nut_enabled := True\<rparr>\<rparr>))))\<rparr>)))
     \<lparr>cc_user = ''upsmon'', cc_pass = ''secret'', cc_logged_in = False\<rparr>"
proof -
  let ?w = "ex_web\<lparr>wb_cfg := ex_config\<lparr>ac_nut_enabled := True\<rparr>\<rparr>"
  let ?F = "ex_bridge_env\<lparr>be_sha256 := we_sha ex_web_env\<rparr>"
  have f: "form_value ex_nut_form ''section'' 16 = ''nut''" "form_given ex_nut_form ''nut_pass'' 128"
    "\<not> form_set ex_nut_form ''nut_noauth'' 128" "form_given ex_nut_form ''nut_user'' 128"
    "form_value ex_nut_form ''nut_user'' 128 = ''monitor''" by code_simp+
  have nv: "nvs_ok (we_nv ex_web_env) (\<lambda>st. st)" "settings_ok (wb_cfg ?w)" "ac_nut_enabled (wb_cfg ?w)"
    using map_nvs_ok ex_web_ok by (simp_all add: ex_web_env_def settings_ok_def wf_config_def)
  obtain rep w' where h: "reconfigure_form ex_web_env ex_nut_form ?w = (rep, w')" by (metis prod.exhaust)
  obtain c where "section_nut ex_web_env ex_nut_form (wb_cfg ?w) = Inr c" using nut_form_fields by blast
  then have ok: "rp_status rep = 200"
    using h by (auto simp: reconfigure_form_def f(1) apply_section_def adopt_config_def app_config_save_def save_guests_def
        ex_web_env_def map_nvs_def ok_reboot_def answer_def Let_def)
  have op: "nv_open (we_nv ex_web_env) (wb_nvs w') False = ESP_OK" by (simp add: ex_web_env_def map_nvs_def)
  define B where "B = ex_bridge\<lparr>br_cfg := app_config_load ex_kconfig map_nvs True (wb_nvs w')\<rparr>"
  have B: "br_cfg B = app_config_load ex_kconfig (we_nv ex_web_env) True (wb_nvs w')" "be_sha256 ?F = we_sha ex_web_env"
    by (simp_all add: B_def ex_web_env_def)
  from form_password_guards_nut [OF nv(1) ex_web_env_ok nv(2,3) f(1-3) h ok op B, of ex_start map_nvs "\<lambda>_. None"
      "\<lparr>cc_user = ''upsmon'', cc_pass = ''secret'', cc_logged_in = False\<rparr>"]
  have "\<not> login_ok (br_nut (start_services ?F ex_start map_nvs (\<lambda>_. None) B))
      \<lparr>cc_user = ''upsmon'', cc_pass = ''secret'', cc_logged_in = False\<rparr>"
    by (simp add: f(4,5) strlcpy_def)
  then show ?thesis by (simp add: B_def h)
qed

end
